(* ===== verification/Zk_Prelude.thy ===== *)
theory Zk_Prelude
  imports Main "HOL-Library.Word"
begin

unbundle bit_operations_syntax

text \<open>
  Shared vocabulary of the development: the machine types of the Rust sources, the \<open>Result\<close>
  type with its sequencing operators, the one datatype of guest panics, and the big- and
  little-endian byte codecs (\<open>to_be_bytes\<close>, \<open>from_be_bytes\<close>, \<open>to_le_bytes\<close>,
  \<open>from_le_bytes\<close>) with their round trips. The zkVM guest is built by a release profile that
  keeps Rust's default wrap-around arithmetic, so a fixed-width integer is a word of its width.
\<close>

named_theorems byte_simps \<open>lengths and round trips of the byte codecs\<close>

section \<open>Machine types\<close>

type_synonym u8 = "8 word"
type_synonym u16 = "16 word"
type_synonym u32 = "32 word"
type_synonym u64 = "64 word"
type_synonym u128 = "128 word"
type_synonym u256 = "256 word"

text \<open>
  \<open>B256\<close> and \<open>Address\<close> are byte arrays compared lexicographically; reading them big-endian as
  words keeps that order and makes the zero test and equality the word ones.
\<close>

type_synonym b256 = "256 word"
type_synonym address = "160 word"
type_synonym bytes = "u8 list"

text \<open>Addition of \<open>usize\<close> values, 64 bits wide.\<close>

definition uadd :: "nat \<Rightarrow> nat \<Rightarrow> nat" where
  "uadd a b = (a + b) mod 2 ^ 64"

section \<open>Results\<close>

datatype ('e, 'a) result = Err 'e | Ok 'a

primrec rbind :: "('e, 'a) result \<Rightarrow> ('a \<Rightarrow> ('e, 'b) result) \<Rightarrow> ('e, 'b) result" where
  "rbind (Err e) f = Err e"
| "rbind (Ok a) f = f a"

definition ensure :: "bool \<Rightarrow> 'e \<Rightarrow> ('e, unit) result" where
  "ensure b e = (if b then Ok () else Err e)"

definition ok_or :: "'a option \<Rightarrow> 'e \<Rightarrow> ('e, 'a) result" where
  "ok_or m e = (case m of None \<Rightarrow> Err e | Some a \<Rightarrow> Ok a)"

primrec map_err :: "('e \<Rightarrow> 'f) \<Rightarrow> ('e, 'a) result \<Rightarrow> ('f, 'a) result" where
  "map_err g (Err e) = Err (g e)"
| "map_err g (Ok a) = Ok a"

primrec is_ok :: "('e, 'a) result \<Rightarrow> bool" where
  "is_ok (Err e) = False"
| "is_ok (Ok a) = True"

fun foldR :: "('x \<Rightarrow> 's \<Rightarrow> ('e, 's) result) \<Rightarrow> 'x list \<Rightarrow> 's \<Rightarrow> ('e, 's) result" where
  "foldR f [] s = Ok s"
| "foldR f (x # xs) s = rbind (f x s) (\<lambda>s'. foldR f xs s')"

fun mapR :: "('x \<Rightarrow> ('e, 'y) result) \<Rightarrow> 'x list \<Rightarrow> ('e, 'y list) result" where
  "mapR f [] = Ok []"
| "mapR f (x # xs) = rbind (f x) (\<lambda>y. rbind (mapR f xs) (\<lambda>ys. Ok (y # ys)))"

fun checkR :: "('x \<Rightarrow> ('e, unit) result) \<Rightarrow> 'x list \<Rightarrow> ('e, unit) result" where
  "checkR f [] = Ok ()"
| "checkR f (x # xs) = rbind (f x) (\<lambda>_. checkR f xs)"

lemma rbind_Ok_iff [simp]: "rbind m f = Ok b \<longleftrightarrow> (\<exists>a. m = Ok a \<and> f a = Ok b)"
  by (cases m) auto

lemma rbind_assoc: "rbind (rbind m f) g = rbind m (\<lambda>a. rbind (f a) g)"
  by (cases m) auto

lemma ensure_Ok_iff [simp]: "ensure b e = Ok u \<longleftrightarrow> b"
  by (simp add: ensure_def)

lemma ensure_Err_iff [simp]: "ensure b e = Err e' \<longleftrightarrow> \<not> b \<and> e' = e"
  by (auto simp: ensure_def)

lemma ensure_True [simp]: "ensure True e = Ok ()"
  by (simp add: ensure_def)

lemma ensure_False [simp]: "ensure False e = Err e"
  by (simp add: ensure_def)

lemma ok_or_Ok_iff [simp]: "ok_or m e = Ok a \<longleftrightarrow> m = Some a"
  by (auto simp: ok_or_def split: option.splits)

lemma ok_or_Some [simp]: "ok_or (Some a) e = Ok a"
  by (simp add: ok_or_def)

lemma ok_or_None [simp]: "ok_or None e = Err e"
  by (simp add: ok_or_def)

lemma map_err_Ok_iff [simp]: "map_err g m = Ok a \<longleftrightarrow> m = Ok a"
  by (cases m) auto

lemma is_ok_iff: "is_ok m \<longleftrightarrow> (\<exists>a. m = Ok a)"
  by (cases m) auto

lemma foldR_append: "foldR f (xs @ ys) s = rbind (foldR f xs s) (foldR f ys)"
proof (induction xs arbitrary: s)
  case (Cons x xs)
  then show ?case by (cases "f x s") auto
qed simp

lemma foldR_concat: "foldR (\<lambda>b. foldR f (g b)) bs s = foldR f (concat (map g bs)) s"
proof (induction bs arbitrary: s)
  case (Cons b bs)
  then have "foldR (\<lambda>b. foldR f (g b)) bs = foldR f (concat (map g bs))" by (rule ext)
  then show ?case by (simp add: foldR_append)
qed simp

lemma foldR_map: "foldR f (map g xs) s = foldR (\<lambda>x. f (g x)) xs s"
proof (induction xs arbitrary: s)
  case (Cons x xs)
  then have "foldR f (map g xs) = foldR (\<lambda>x. f (g x)) xs" by (rule ext)
  then show ?case by simp
qed simp

lemma checkR_Ok_iff [simp]: "checkR f xs = Ok u \<longleftrightarrow> (\<forall>x \<in> set xs. f x = Ok ())"
  by (induction xs) auto

lemma checkR_map: "checkR f (map g xs) = checkR (\<lambda>x. f (g x)) xs"
  by (induction xs) simp_all

lemma mapR_map: "mapR f (map g xs) = mapR (\<lambda>x. f (g x)) xs"
  by (induction xs) simp_all

lemma mapR_Ok_length: "mapR f xs = Ok ys \<Longrightarrow> length ys = length xs"
  by (induction xs arbitrary: ys) auto

lemma mapR_Ok_iff: "mapR f xs = Ok ys \<longleftrightarrow> list_all2 (\<lambda>x y. f x = Ok y) xs ys"
  by (induction xs arbitrary: ys) (auto simp: list_all2_Cons1)

lemma mapR_Ok_map: "(\<And>x. x \<in> set xs \<Longrightarrow> f x = Ok (g x)) \<Longrightarrow> mapR f xs = Ok (map g xs)"
  by (induction xs) auto

lemma foldR_invariant:
  assumes "foldR f xs s = Ok s'" and "I s"
    and "\<And>x s s'. x \<in> set xs \<Longrightarrow> I s \<Longrightarrow> f x s = Ok s' \<Longrightarrow> I s'"
  shows "I s'"
  using assms by (induction xs arbitrary: s) auto

lemma foldR_each:
  assumes "foldR f xs s = Ok s'" and "x \<in> set xs"
  shows "\<exists>t t'. f x t = Ok t'"
  using assms by (induction xs arbitrary: s) auto

section \<open>Byte codecs\<close>

definition le_bytes :: "nat \<Rightarrow> 'a::len word \<Rightarrow> bytes" where
  "le_bytes n w = map (\<lambda>i. ucast (drop_bit (8 * i) w)) [0..<n]"

definition be_bytes :: "nat \<Rightarrow> 'a::len word \<Rightarrow> bytes" where
  "be_bytes n w = rev (le_bytes n w)"

fun of_le_bytes :: "bytes \<Rightarrow> 'a::len word" where
  "of_le_bytes [] = 0"
| "of_le_bytes (b # bs) = ucast b OR push_bit 8 (of_le_bytes bs)"

definition of_be_bytes :: "bytes \<Rightarrow> 'a::len word" where
  "of_be_bytes bs = of_le_bytes (rev bs)"

abbreviation bytes32 :: "b256 \<Rightarrow> bytes" where
  "bytes32 w \<equiv> be_bytes 32 w"

abbreviation bytes20 :: "address \<Rightarrow> bytes" where
  "bytes20 a \<equiv> be_bytes 20 a"

abbreviation u64_be :: "u64 \<Rightarrow> bytes" where
  "u64_be w \<equiv> be_bytes 8 w"

abbreviation u64_le :: "u64 \<Rightarrow> bytes" where
  "u64_le w \<equiv> le_bytes 8 w"

abbreviation u32_be :: "u32 \<Rightarrow> bytes" where
  "u32_be w \<equiv> be_bytes 4 w"

definition zeros :: "nat \<Rightarrow> bytes" where
  "zeros n = replicate n 0"

lemma length_zeros [simp, byte_simps]: "length (zeros n) = n"
  by (simp add: zeros_def)

lemma length_le_bytes [simp, byte_simps]: "length (le_bytes n w) = n"
  by (simp add: le_bytes_def)

lemma length_be_bytes [simp, byte_simps]: "length (be_bytes n w) = n"
  by (simp add: be_bytes_def)

lemma bit_of_le_bytes:
  "bit (of_le_bytes bs :: 'a::len word) k \<longleftrightarrow>
     k < LENGTH('a) \<and> k div 8 < length bs \<and> bit (bs ! (k div 8)) (k mod 8)"
proof (induction bs arbitrary: k)
  case Nil
  then show ?case by simp
next
  case (Cons b bs)
  show ?case
  proof (cases "k < 8")
    case True
    then show ?thesis by (auto simp: bit_simps)
  next
    case False
    then have "k div 8 = Suc ((k - 8) div 8)" and "(k - 8) mod 8 = k mod 8"
      by (simp_all add: le_div_geq le_mod_geq)
    moreover have "\<not> bit b k"
      using False by (auto dest: bit_imp_le_length)
    ultimately show ?thesis
      using False by (auto simp: bit_simps Cons.IH dest: bit_imp_le_length)
  qed
qed

lemma of_le_le_bytes [simp, byte_simps]:
  fixes w :: "'a::len word"
  assumes "LENGTH('a) \<le> 8 * n"
  shows "of_le_bytes (le_bytes n w) = w"
proof (rule bit_word_eqI)
  fix k assume k: "k < LENGTH('a)"
  then have "k div 8 < n" using assms by auto
  moreover have "8 * (k div 8) + k mod 8 = k" by simp
  ultimately show "bit (of_le_bytes (le_bytes n w) :: 'a word) k = bit w k"
    using k by (simp add: bit_of_le_bytes le_bytes_def bit_simps)
qed

lemma le_of_le_bytes:
  assumes "length bs = n" and "8 * n \<le> LENGTH('a::len)"
  shows "le_bytes n (of_le_bytes bs :: 'a word) = bs"
proof (rule nth_equalityI)
  show "length (le_bytes n (of_le_bytes bs :: 'a word)) = length bs" using assms by simp
next
  fix i assume "i < length (le_bytes n (of_le_bytes bs :: 'a word))"
  then have i: "i < n" by simp
  show "le_bytes n (of_le_bytes bs :: 'a word) ! i = bs ! i"
  proof (rule bit_word_eqI)
    fix k assume k: "k < LENGTH(8)"
    then have "(8 * i + k) div 8 = i" and "(8 * i + k) mod 8 = k" and "8 * i + k < LENGTH('a)"
      using i assms by auto
    then show "bit (le_bytes n (of_le_bytes bs :: 'a word) ! i) k = bit (bs ! i) k"
      using i k assms by (simp add: le_bytes_def bit_simps bit_of_le_bytes)
  qed
qed

lemma of_be_be_bytes [simp, byte_simps]:
  "LENGTH('a::len) \<le> 8 * n \<Longrightarrow> of_be_bytes (be_bytes n (w :: 'a word)) = w"
  by (simp add: of_be_bytes_def be_bytes_def)

lemma be_of_be_bytes:
  "length bs = n \<Longrightarrow> 8 * n \<le> LENGTH('a::len) \<Longrightarrow> be_bytes n (of_be_bytes bs :: 'a word) = bs"
  by (simp add: of_be_bytes_def be_bytes_def le_of_le_bytes)

lemma be_bytes_inject:
  "LENGTH('a::len) \<le> 8 * n \<Longrightarrow> be_bytes n (v :: 'a word) = be_bytes n w \<longleftrightarrow> v = w"
  by (metis of_be_be_bytes)

lemma le_bytes_inject:
  "LENGTH('a::len) \<le> 8 * n \<Longrightarrow> le_bytes n (v :: 'a word) = le_bytes n w \<longleftrightarrow> v = w"
  by (metis of_le_le_bytes)

lemma bytes32_inject [simp]: "bytes32 v = bytes32 w \<longleftrightarrow> v = w"
  by (rule be_bytes_inject) simp

lemma bytes20_inject [simp]: "bytes20 v = bytes20 w \<longleftrightarrow> v = w"
  by (rule be_bytes_inject) simp

lemma u64_be_inject [simp]: "u64_be v = u64_be w \<longleftrightarrow> v = w"
  by (rule be_bytes_inject) simp

lemma u64_le_inject [simp]: "u64_le v = u64_le w \<longleftrightarrow> v = w"
  by (rule le_bytes_inject) simp

lemma u32_be_inject [simp]: "u32_be v = u32_be w \<longleftrightarrow> v = w"
  by (rule be_bytes_inject) simp

lemma be_bytes_0 [simp]: "be_bytes n 0 = zeros n"
  by (simp add: be_bytes_def le_bytes_def zeros_def map_replicate_const)

end
