(* ===== verification/Blake2s.thy ===== *)
theory Blake2s
  imports Zk_Prelude
begin

text \<open>
  BLAKE2s-256 on the \<open>blake2sf\<close> permutation, \<open>lib/src/crypto/blake2s.rs\<close>. The permutation
  itself is a precompile of the zkVM on the guest target, so every definition that runs it takes
  it as the parameter \<open>bf\<close>; \<open>software_blake2sf\<close> is the software permutation of the host target.
  Arrays of slots are lists of words. Shown here: the one-block node hash equals the streaming
  digest of the two children, the streaming digest does not depend on how its input is cut into
  updates, and it equals the block-by-block compression of RFC 7693.
\<close>

section \<open>Constants and slots\<close>

definition BLOCK_BYTES :: nat where "BLOCK_BYTES = 64"
definition DIGEST_BYTES :: nat where "DIGEST_BYTES = 32"
definition SLOT_BYTES :: nat where "SLOT_BYTES = 8"
definition BLOCK_SLOTS :: nat where "BLOCK_SLOTS = BLOCK_BYTES div SLOT_BYTES"
definition DIGEST_SLOTS :: nat where "DIGEST_SLOTS = DIGEST_BYTES div SLOT_BYTES"

definition IV :: "u32 list" where
  "IV = [0x6A09E667, 0xBB67AE85, 0x3C6EF372, 0xA54FF53A,
         0x510E527F, 0x9B05688C, 0x1F83D9AB, 0x5BE0CD19]"

definition PARAM_BLOCK_WORD0 :: u32 where "PARAM_BLOCK_WORD0 = 0x01010020"

definition slot_word :: "u32 \<Rightarrow> u32 \<Rightarrow> u64" where
  "slot_word lo hi = ucast lo OR push_bit 32 (ucast hi)"

definition IV_SLOTS :: "u64 list" where
  "IV_SLOTS = [slot_word (IV ! 0) (IV ! 1), slot_word (IV ! 2) (IV ! 3),
               slot_word (IV ! 4) (IV ! 5), slot_word (IV ! 6) (IV ! 7)]"

definition INITIAL_STATE :: "u64 list" where
  "INITIAL_STATE = [IV_SLOTS ! 0 XOR ucast PARAM_BLOCK_WORD0,
                    IV_SLOTS ! 1, IV_SLOTS ! 2, IV_SLOTS ! 3]"

definition LAST_BLOCK_MASK :: u64 where "LAST_BLOCK_MASK = 0xFFFFFFFF"

definition slots_of :: "bytes \<Rightarrow> u64 list" where
  "slots_of bs = map (\<lambda>i. of_le_bytes (take SLOT_BYTES (drop (i * SLOT_BYTES) bs))) [0..<DIGEST_SLOTS]"

definition bytes_of :: "u64 list \<Rightarrow> bytes" where
  "bytes_of slots = concat (map u64_le slots)"

definition block_slots :: "bytes \<Rightarrow> u64 list" where
  "block_slots bs = map (\<lambda>i. of_le_bytes (take SLOT_BYTES (drop (i * SLOT_BYTES) bs))) [0..<BLOCK_SLOTS]"

section \<open>Compression\<close>

type_synonym permutation = "u64 list \<Rightarrow> u64 list \<Rightarrow> u64 list"

definition compress :: "permutation \<Rightarrow> u64 list \<Rightarrow> u64 list \<Rightarrow> u64 \<Rightarrow> bool \<Rightarrow> u64 list" where
  "compress bf h m t is_last =
     (let v = [h ! 0, h ! 1, h ! 2, h ! 3, IV_SLOTS ! 0, IV_SLOTS ! 1, IV_SLOTS ! 2 XOR t,
               IV_SLOTS ! 3 XOR (if is_last then LAST_BLOCK_MASK else 0)];
          v' = bf v m
      in map (\<lambda>i. h ! i XOR (v' ! i XOR v' ! (i + DIGEST_SLOTS))) [0..<DIGEST_SLOTS])"

definition node_hash_bytes :: "permutation \<Rightarrow> bytes \<Rightarrow> bytes \<Rightarrow> bytes" where
  "node_hash_bytes bf lhs rhs =
     (let l = slots_of lhs; r = slots_of rhs;
          m = [l ! 0, l ! 1, l ! 2, l ! 3, r ! 0, r ! 1, r ! 2, r ! 3]
      in bytes_of (compress bf INITIAL_STATE m (of_nat BLOCK_BYTES) True))"

section \<open>The streaming hasher\<close>

record blake2s256 =
  b2_h :: "u64 list"
  b2_buf :: bytes
  b2_buf_len :: nat
  b2_t :: u64

definition b2_new :: blake2s256 where
  "b2_new = \<lparr>b2_h = INITIAL_STATE, b2_buf = zeros BLOCK_BYTES, b2_buf_len = 0, b2_t = 0\<rparr>"

text \<open>The head of the loop of \<open>update\<close>: a full buffer is compressed once more input follows.\<close>

definition b2_flush :: "permutation \<Rightarrow> blake2s256 \<Rightarrow> blake2s256" where
  "b2_flush bf s =
     (if b2_buf_len s = BLOCK_BYTES then
        let t' = b2_t s + of_nat BLOCK_BYTES
        in s\<lparr>b2_t := t', b2_h := compress bf (b2_h s) (block_slots (b2_buf s)) t' False,
             b2_buf_len := 0\<rparr>
      else s)"

text \<open>\<open>buf[at .. at + length data].copy_from_slice(data)\<close>.\<close>

definition copy_at :: "bytes \<Rightarrow> nat \<Rightarrow> bytes \<Rightarrow> bytes" where
  "copy_at buf pos data = take pos buf @ data @ drop (pos + length data) buf"

text \<open>
  The loop of \<open>update\<close>. The buffer length is a private field that never exceeds the block size;
  a state beyond it is unreachable, and there the loop is stopped (\<open>take = 0\<close>).
\<close>

function b2_update :: "permutation \<Rightarrow> blake2s256 \<Rightarrow> bytes \<Rightarrow> blake2s256" where
  "b2_update bf s data =
     (if data = [] then s
      else let s1 = b2_flush bf s;
               tk = min (BLOCK_BYTES - b2_buf_len s1) (length data)
           in if tk = 0 then s1
              else b2_update bf
                     (s1\<lparr>b2_buf := copy_at (b2_buf s1) (b2_buf_len s1) (take tk data),
                         b2_buf_len := b2_buf_len s1 + tk\<rparr>)
                     (drop tk data))"
  by pat_completeness auto
termination
  by (relation "measure (\<lambda>(bf, s, data). length data)") auto

declare b2_update.simps [simp del]

definition b2_finalize :: "permutation \<Rightarrow> blake2s256 \<Rightarrow> bytes" where
  "b2_finalize bf s =
     (let t' = b2_t s + of_nat (b2_buf_len s);
          buf' = take (b2_buf_len s) (b2_buf s) @ zeros (length (b2_buf s) - b2_buf_len s)
      in bytes_of (compress bf (b2_h s) (block_slots buf') t' True))"

definition b2_digest :: "permutation \<Rightarrow> bytes \<Rightarrow> bytes" where
  "b2_digest bf data = b2_finalize bf (b2_update bf b2_new data)"

section \<open>The software permutation\<close>

definition SIGMA_TABLE :: "nat list list" where
  "SIGMA_TABLE =
    [ [0, 1, 2, 3, 4, 5, 6, 7, 8, 9, 10, 11, 12, 13, 14, 15],
     [14, 10, 4, 8, 9, 15, 13, 6, 1, 12, 0, 2, 11, 7, 5, 3],
     [11, 8, 12, 0, 5, 2, 15, 13, 10, 14, 3, 6, 7, 1, 9, 4],
     [7, 9, 3, 1, 13, 12, 11, 14, 2, 6, 5, 10, 4, 0, 15, 8],
     [9, 0, 5, 7, 2, 4, 10, 15, 14, 1, 11, 12, 6, 8, 3, 13],
     [2, 12, 6, 10, 0, 11, 8, 3, 4, 13, 7, 5, 15, 14, 1, 9],
     [12, 5, 1, 15, 14, 13, 4, 10, 0, 7, 6, 3, 9, 2, 8, 11],
     [13, 11, 7, 14, 12, 1, 3, 9, 5, 0, 15, 4, 8, 6, 2, 10],
     [6, 15, 14, 9, 11, 3, 0, 8, 12, 2, 13, 7, 1, 4, 10, 5],
     [10, 2, 8, 4, 7, 6, 1, 5, 15, 11, 9, 14, 3, 12, 13, 0] ]"

definition g_mix :: "u32 list \<Rightarrow> nat \<Rightarrow> nat \<Rightarrow> nat \<Rightarrow> nat \<Rightarrow> u32 \<Rightarrow> u32 \<Rightarrow> u32 list" where
  "g_mix v a b c d x y =
     (let va = v ! a + v ! b + x;
          vd = word_rotr 16 (v ! d XOR va);
          vc = v ! c + vd;
          vb = word_rotr 12 (v ! b XOR vc);
          va' = va + vb + y;
          vd' = word_rotr 8 (vd XOR va');
          vc' = vc + vd';
          vb' = word_rotr 7 (vb XOR vc')
      in v[a := va', b := vb', c := vc', d := vd'])"

definition words_of_slots :: "u64 list \<Rightarrow> u32 list" where
  "words_of_slots slots = concat (map (\<lambda>s. [ucast s, ucast (drop_bit 32 s)]) slots)"

definition blake2s_round :: "u32 list \<Rightarrow> nat list \<Rightarrow> u32 list \<Rightarrow> u32 list" where
  "blake2s_round m s w =
     (let w = g_mix w 0 4 8 12 (m ! (s ! 0)) (m ! (s ! 1));
          w = g_mix w 1 5 9 13 (m ! (s ! 2)) (m ! (s ! 3));
          w = g_mix w 2 6 10 14 (m ! (s ! 4)) (m ! (s ! 5));
          w = g_mix w 3 7 11 15 (m ! (s ! 6)) (m ! (s ! 7));
          w = g_mix w 0 5 10 15 (m ! (s ! 8)) (m ! (s ! 9));
          w = g_mix w 1 6 11 12 (m ! (s ! 10)) (m ! (s ! 11));
          w = g_mix w 2 7 8 13 (m ! (s ! 12)) (m ! (s ! 13))
      in g_mix w 3 4 9 14 (m ! (s ! 14)) (m ! (s ! 15)))"

definition software_blake2sf :: permutation where
  "software_blake2sf v m =
     (let w = fold (blake2s_round (words_of_slots m)) SIGMA_TABLE (words_of_slots v)
      in map (\<lambda>i. slot_word (w ! (2 * i)) (w ! (2 * i + 1))) [0..<length v])"

section \<open>Streaming is byte by byte\<close>

lemmas b2_consts = BLOCK_BYTES_def DIGEST_BYTES_def SLOT_BYTES_def BLOCK_SLOTS_def DIGEST_SLOTS_def

definition b2_wf :: "blake2s256 \<Rightarrow> bool" where
  "b2_wf s \<longleftrightarrow> b2_buf_len s \<le> BLOCK_BYTES \<and> length (b2_buf s) = BLOCK_BYTES"

definition b2_push :: "permutation \<Rightarrow> u8 \<Rightarrow> blake2s256 \<Rightarrow> blake2s256" where
  "b2_push bf b s =
     (let s1 = b2_flush bf s
      in s1\<lparr>b2_buf := (b2_buf s1)[b2_buf_len s1 := b], b2_buf_len := Suc (b2_buf_len s1)\<rparr>)"

lemma b2_wf_new [simp]: "b2_wf b2_new"
  by (simp add: b2_wf_def b2_new_def)

lemma b2_wf_flush: "b2_wf s \<Longrightarrow> b2_wf (b2_flush bf s) \<and> b2_buf_len (b2_flush bf s) < BLOCK_BYTES"
  by (auto simp: b2_wf_def b2_flush_def Let_def b2_consts)

lemma b2_flush_idle [simp]: "b2_buf_len s < BLOCK_BYTES \<Longrightarrow> b2_flush bf s = s"
  by (simp add: b2_flush_def)

lemma b2_wf_push: "b2_wf s \<Longrightarrow> b2_wf (b2_push bf b s)"
  using b2_wf_flush [of s bf] by (auto simp: b2_wf_def b2_push_def Let_def)

lemma b2_wf_fold_push: "b2_wf s \<Longrightarrow> b2_wf (fold (b2_push bf) data s)"
  by (induction data arbitrary: s) (auto simp: b2_wf_push)

lemma length_copy_at [simp]:
  "pos + length data \<le> length buf \<Longrightarrow> length (copy_at buf pos data) = length buf"
  by (simp add: copy_at_def)

lemma copy_at_Cons:
  "pos < length buf \<Longrightarrow> copy_at buf pos (b # data) = copy_at (buf[pos := b]) (Suc pos) data"
  by (simp add: copy_at_def take_Suc_conv_app_nth nth_list_update_eq)

lemma b2_push_within:
  "b2_wf s \<Longrightarrow> b2_buf_len s + length data \<le> BLOCK_BYTES \<Longrightarrow>
   fold (b2_push bf) data s =
     s\<lparr>b2_buf := copy_at (b2_buf s) (b2_buf_len s) data, b2_buf_len := b2_buf_len s + length data\<rparr>"
proof (induction data arbitrary: s)
  case Nil
  then show ?case by (simp add: copy_at_def)
next
  case (Cons b data)
  then have "b2_wf (b2_push bf b s)" by (simp add: b2_wf_push)
  then show ?case
    using Cons by (simp add: b2_push_def copy_at_Cons b2_wf_def)
qed

lemma b2_update_push: "b2_wf s \<Longrightarrow> b2_update bf s data = fold (b2_push bf) data s"
proof (induction bf s data rule: b2_update.induct)
  case (1 bf s data)
  let ?s1 = "b2_flush bf s"
  let ?tk = "min (BLOCK_BYTES - b2_buf_len ?s1) (length data)"
  let ?s2 = "?s1\<lparr>b2_buf := copy_at (b2_buf ?s1) (b2_buf_len ?s1) (take ?tk data),
                 b2_buf_len := b2_buf_len ?s1 + ?tk\<rparr>"
  show ?case
  proof (cases "data = []")
    case True
    then show ?thesis by (simp add: b2_update.simps)
  next
    case False
    have wf1: "b2_wf ?s1" and lt: "b2_buf_len ?s1 < BLOCK_BYTES"
      using b2_wf_flush [OF "1.prems"] by auto
    then have tk: "?tk \<noteq> 0" using False by simp
    have s2: "fold (b2_push bf) (take ?tk data) ?s1 = ?s2"
      using lt by (subst b2_push_within [OF wf1]) auto
    then have wf2: "b2_wf ?s2" using b2_wf_fold_push [OF wf1] by metis
    have head: "fold (b2_push bf) data s = fold (b2_push bf) data ?s1"
      using False lt by (cases data) (simp_all add: b2_push_def)
    have "b2_update bf s data = b2_update bf ?s2 (drop ?tk data)"
      using False tk by (subst b2_update.simps) (simp only: Let_def if_False simp_thms)
    also have "\<dots> = fold (b2_push bf) (drop ?tk data) ?s2"
      using "1.IH" [OF False refl refl tk wf2] .
    also have "\<dots> = fold (b2_push bf) (take ?tk data @ drop ?tk data) ?s1"
      by (simp only: fold_append comp_def s2)
    finally show ?thesis using head by simp
  qed
qed

lemma b2_update_append:
  "b2_wf s \<Longrightarrow> b2_update bf (b2_update bf s a) b = b2_update bf s (a @ b)"
  by (simp add: b2_update_push b2_wf_fold_push)

section \<open>The block-by-block reference\<close>

definition pad_block :: "bytes \<Rightarrow> bytes" where
  "pad_block bs = bs @ zeros (BLOCK_BYTES - length bs)"

function absorb :: "permutation \<Rightarrow> u64 list \<Rightarrow> u64 \<Rightarrow> bytes \<Rightarrow> u64 list" where
  "absorb bf h t data =
     (if length data \<le> BLOCK_BYTES
      then compress bf h (block_slots (pad_block data)) (t + of_nat (length data)) True
      else absorb bf (compress bf h (block_slots (take BLOCK_BYTES data)) (t + of_nat BLOCK_BYTES) False)
             (t + of_nat BLOCK_BYTES) (drop BLOCK_BYTES data))"
  by pat_completeness auto
termination
  by (relation "measure (\<lambda>(bf, h, t, data). length data)") (auto simp: b2_consts)

declare absorb.simps [simp del]

definition rfc7693_blake2s :: "permutation \<Rightarrow> bytes \<Rightarrow> bytes" where
  "rfc7693_blake2s bf data = bytes_of (absorb bf INITIAL_STATE 0 data)"

lemma copy_at_full: "length data = length buf \<Longrightarrow> copy_at buf 0 data = data"
  by (simp add: copy_at_def)

lemma finalize_short:
  assumes "b2_wf s" and "b2_buf_len s = 0" and "length data \<le> BLOCK_BYTES"
  shows "b2_finalize bf (fold (b2_push bf) data s) = bytes_of (absorb bf (b2_h s) (b2_t s) data)"
  using assms
  by (subst b2_push_within)
     (auto simp: b2_finalize_def Let_def copy_at_def absorb.simps pad_block_def b2_wf_def)

lemma push_block:
  assumes wf: "b2_wf s" and z: "b2_buf_len s = 0" and len: "length blk = BLOCK_BYTES"
  shows "b2_flush bf (fold (b2_push bf) blk s) =
    s\<lparr>b2_buf := blk, b2_buf_len := 0, b2_t := b2_t s + of_nat BLOCK_BYTES,
      b2_h := compress bf (b2_h s) (block_slots blk) (b2_t s + of_nat BLOCK_BYTES) False\<rparr>"
proof -
  have "copy_at (b2_buf s) 0 blk = blk"
    using wf len by (simp add: copy_at_full b2_wf_def)
  then show ?thesis
    using assms by (subst b2_push_within) (auto simp: b2_flush_def Let_def)
qed

lemma fold_push_flush:
  "data \<noteq> [] \<Longrightarrow> b2_wf s \<Longrightarrow> fold (b2_push bf) data s = fold (b2_push bf) data (b2_flush bf s)"
  using b2_wf_flush [of s bf] by (cases data) (simp_all add: b2_push_def)

lemma finalize_absorb:
  "b2_wf s \<Longrightarrow> b2_buf_len s = 0 \<Longrightarrow>
   b2_finalize bf (fold (b2_push bf) data s) = bytes_of (absorb bf (b2_h s) (b2_t s) data)"
proof (induction "length data" arbitrary: data s rule: less_induct)
  case less
  show ?case
  proof (cases "length data \<le> BLOCK_BYTES")
    case True
    then show ?thesis using less.prems by (rule_tac finalize_short)
  next
    case False
    let ?blk = "take BLOCK_BYTES data" and ?rest = "drop BLOCK_BYTES data"
    let ?s' = "b2_flush bf (fold (b2_push bf) ?blk s)"
    have len: "length ?blk = BLOCK_BYTES" and rest: "?rest \<noteq> []" and sm: "length ?rest < length data"
      using False by (auto simp: b2_consts)
    have s': "?s' = s\<lparr>b2_buf := ?blk, b2_buf_len := 0, b2_t := b2_t s + of_nat BLOCK_BYTES,
      b2_h := compress bf (b2_h s) (block_slots ?blk) (b2_t s + of_nat BLOCK_BYTES) False\<rparr>"
      by (rule push_block [OF less.prems len])
    then have wf': "b2_wf ?s'" "b2_buf_len ?s' = 0" using len by (simp_all add: b2_wf_def)
    have "fold (b2_push bf) data s = fold (b2_push bf) ?rest (fold (b2_push bf) ?blk s)"
      by (metis append_take_drop_id fold_append comp_def)
    also have "\<dots> = fold (b2_push bf) ?rest ?s'"
      using rest less.prems by (intro fold_push_flush b2_wf_fold_push)
    finally have "b2_finalize bf (fold (b2_push bf) data s) =
        bytes_of (absorb bf (b2_h ?s') (b2_t ?s') ?rest)"
      using less.hyps [OF sm wf'] by simp
    then show ?thesis using False s' by (simp add: absorb.simps [of bf "b2_h s" "b2_t s" data])
  qed
qed

lemma b2_digest_rfc: "b2_digest bf data = rfc7693_blake2s bf data"
  using finalize_absorb [of b2_new bf data]
  by (simp add: b2_digest_def rfc7693_blake2s_def b2_update_push) (simp add: b2_new_def)

section \<open>The node hash\<close>

lemma length_compress [simp]: "length (compress bf h m t l) = DIGEST_SLOTS"
  by (simp add: compress_def Let_def)

lemma length_bytes_of [simp]: "length (bytes_of xs) = 8 * length xs"
  by (induction xs) (simp_all add: bytes_of_def)

lemma length_node_hash_bytes [simp]: "length (node_hash_bytes bf l r) = 32"
  by (simp add: node_hash_bytes_def Let_def b2_consts)

lemma length_b2_digest [simp]: "length (b2_digest bf data) = 32"
  by (simp add: b2_digest_def b2_finalize_def Let_def b2_consts)

lemma block_slots_pair:
  assumes "length l = 32" and "length r = 32"
  shows "block_slots (l @ r) = slots_of l @ slots_of r"
proof -
  have "[0..<8] = [0, 1, 2, 3, 4, 5, 6, 7 :: nat]" and "[0..<4] = [0, 1, 2, 3 :: nat]"
    by (simp_all add: upt_rec)
  then show ?thesis using assms by (simp add: block_slots_def slots_of_def b2_consts)
qed

lemma node_hash_rfc:
  assumes "length l = 32" and "length r = 32"
  shows "node_hash_bytes bf l r = rfc7693_blake2s bf (l @ r)"
proof -
  have "[0..<4] = [0, 1, 2, 3 :: nat]" by (simp add: upt_rec)
  then have four: "slots_of x = [slots_of x ! 0, slots_of x ! 1, slots_of x ! 2, slots_of x ! 3]" for x
    by (simp add: slots_of_def b2_consts)
  have "[slots_of l ! 0, slots_of l ! 1, slots_of l ! 2, slots_of l ! 3,
         slots_of r ! 0, slots_of r ! 1, slots_of r ! 2, slots_of r ! 3] = slots_of l @ slots_of r"
    by (subst (9) four, subst (13) four) simp
  then show ?thesis
    using assms
    by (simp add: node_hash_bytes_def Let_def rfc7693_blake2s_def absorb.simps pad_block_def
        block_slots_pair zeros_def b2_consts)
qed

section \<open>Claims\<close>


text \<open>
  The one-compression node hash of two 32-byte children is the digest of their concatenation.
\<close>

theorem node_hash_is_digest:
  assumes "length l = 32" and "length r = 32"
  shows "node_hash_bytes bf l r = b2_digest bf (l @ r)"
  using node_hash_rfc [OF assms] by (simp add: b2_digest_rfc)

theorem node_hash_is_digest_witness:
  "node_hash_bytes software_blake2sf (zeros 32) (replicate 32 1) = b2_digest software_blake2sf (zeros 32 @ replicate 32 1)"
  by (rule node_hash_is_digest) simp_all

end
