(* ===== verification/Hash_Backend.thy ===== *)
theory Hash_Backend
  imports Blake2s
begin

text \<open>
  The hash functions the library is linked against, as one record that every hashing definition
  takes: the Merkle node hash and the BLAKE2s-256 digest of \<open>lib/src/crypto/blake2s.rs\<close> and the
  Keccak-256 of \<open>lib/src/hash.rs\<close> (a syscall of the zkVM, or a third-party crate on the host).
  The locale \<open>node_digest\<close> is the contract between the Merkle code and the BLAKE2s code: a node
  hash is the digest of the two concatenated children. It is interpreted on the definitions of
  \<open>Blake2s\<close> for every permutation.
\<close>

record crypto =
  cr_node :: "b256 \<Rightarrow> b256 \<Rightarrow> b256"
  cr_blake2s :: "bytes \<Rightarrow> b256"
  cr_keccak256 :: "bytes \<Rightarrow> b256"

locale node_digest =
  fixes node :: "b256 \<Rightarrow> b256 \<Rightarrow> b256"
    and digest :: "bytes \<Rightarrow> b256"
  assumes node_is_digest: "node l r = digest (bytes32 l @ bytes32 r)"
begin

text \<open>Two colliding nodes are two colliding messages of the digest.\<close>

lemma node_collision_reduces:
  assumes "node l r = node l' r'" and "(l, r) \<noteq> (l', r')"
  shows "digest (bytes32 l @ bytes32 r) = digest (bytes32 l' @ bytes32 r')
    \<and> bytes32 l @ bytes32 r \<noteq> bytes32 l' @ bytes32 r'"
  using assms by (auto simp: node_is_digest)

lemma node_inj_on:
  assumes "inj_on digest ((\<lambda>(l, r). bytes32 l @ bytes32 r) ` P)"
  shows "inj_on (\<lambda>(l, r). node l r) P"
proof (rule inj_onI, clarsimp)
  fix l r l' r'
  assume "(l, r) \<in> P" "(l', r') \<in> P" and "node l r = node l' r'"
  then have "bytes32 l @ bytes32 r = bytes32 l' @ bytes32 r'"
    using assms by (auto simp: node_is_digest inj_on_def split_beta image_iff)
  then show "l = l' \<and> r = r'" by simp
qed

end

definition blake2s_node :: "permutation \<Rightarrow> b256 \<Rightarrow> b256 \<Rightarrow> b256" where
  "blake2s_node bf l r = of_be_bytes (node_hash_bytes bf (bytes32 l) (bytes32 r))"

definition blake2s_digest :: "permutation \<Rightarrow> bytes \<Rightarrow> b256" where
  "blake2s_digest bf data = of_be_bytes (b2_digest bf data)"

interpretation b2: node_digest "blake2s_node bf" "blake2s_digest bf" for bf
  by unfold_locales (simp add: blake2s_node_def blake2s_digest_def node_hash_rfc b2_digest_rfc)

definition zisk_crypto :: "permutation \<Rightarrow> (bytes \<Rightarrow> b256) \<Rightarrow> crypto" where
  "zisk_crypto bf keccak =
     \<lparr>cr_node = blake2s_node bf, cr_blake2s = blake2s_digest bf, cr_keccak256 = keccak\<rparr>"

end
