(* ===== verification/Merkle_Proof.thy ===== *)
theory Merkle_Proof
  imports Hash_Backend
begin

text \<open>
  Storage proofs of \<open>lib/src/merkle.rs\<close>: leaf hashes, the empty-subtree table, the path fold
  \<open>SlotProofEntry::recover_root\<close> and \<open>StorageProof::verify\<close>. The specification is a dense list of
  leaves with its Merkle root (\<open>tree_root\<close>) and the map from keys to values it stands for
  (\<open>tree_map\<close>). Soundness is stated up to collisions among explicit finite sets of hashed pairs
  and leaves (\<open>binding\<close>): the pairs the proof hashes and the pairs of the tree.
\<close>

section \<open>Leaves and empty subtrees\<close>

definition TREE_DEPTH :: nat where "TREE_DEPTH = 64"

record tree_leaf =
  tl_key :: b256
  tl_value :: b256
  tl_next :: u64

definition hash_leaf :: "crypto \<Rightarrow> b256 \<Rightarrow> b256 \<Rightarrow> u64 \<Rightarrow> b256" where
  "hash_leaf c key v next_index = cr_blake2s c (bytes32 key @ bytes32 v @ u64_le next_index)"

definition empty_subtree_hashes :: "crypto \<Rightarrow> b256 list" where
  "empty_subtree_hashes c =
     foldl (\<lambda>hashes _. hashes @ [cr_node c (last hashes) (last hashes)])
       [hash_leaf c 0 0 0] [0..<TREE_DEPTH]"

definition empty_subtree_hash :: "crypto \<Rightarrow> nat \<Rightarrow> b256" where
  "empty_subtree_hash c depth = empty_subtree_hashes c ! depth"

section \<open>Proof types\<close>

record slot_proof_entry =
  sp_index :: u64
  sp_value :: b256
  sp_next_index :: u64
  sp_siblings :: "b256 list"

record neighbor_proof_entry =
  np_entry :: slot_proof_entry
  np_leaf_key :: b256

datatype storage_proof =
  Existing slot_proof_entry
| NonExisting (left_neighbor: neighbor_proof_entry) (right_neighbor: neighbor_proof_entry)

datatype proof_error =
  LeftNeighborNotSmaller | RightNeighborNotLarger | NeighborsNotAdjacent | RootMismatch

text \<open>One round of the loop of \<open>recover_root\<close>, on the running hash and index.\<close>

definition sibling_at :: "crypto \<Rightarrow> b256 list \<Rightarrow> nat \<Rightarrow> b256" where
  "sibling_at c siblings depth =
     (if depth < length siblings then siblings ! depth else empty_subtree_hashes c ! depth)"

definition path_pair :: "crypto \<Rightarrow> b256 list \<Rightarrow> nat \<Rightarrow> b256 \<times> nat \<Rightarrow> b256 \<times> b256" where
  "path_pair c siblings depth = (\<lambda>(hash, idx).
     if idx mod 2 = 0 then (hash, sibling_at c siblings depth) else (sibling_at c siblings depth, hash))"

definition recover_step :: "crypto \<Rightarrow> b256 list \<Rightarrow> nat \<Rightarrow> b256 \<times> nat \<Rightarrow> b256 \<times> nat" where
  "recover_step c siblings depth s =
     ((\<lambda>(l, r). cr_node c l r) (path_pair c siblings depth s), snd s div 2)"

definition recover_root :: "crypto \<Rightarrow> slot_proof_entry \<Rightarrow> b256 \<Rightarrow> b256" where
  "recover_root c e leaf_key =
     fst (fold (recover_step c (sp_siblings e)) [0..<TREE_DEPTH]
       (hash_leaf c leaf_key (sp_value e) (sp_next_index e), unat (sp_index e)))"

fun verify :: "crypto \<Rightarrow> storage_proof \<Rightarrow> b256 \<Rightarrow> (proof_error, b256 \<times> b256 option) result" where
  "verify c (Existing e) flat_key = Ok (recover_root c e flat_key, Some (sp_value e))"
| "verify c (NonExisting l r) flat_key =
     (if np_leaf_key l \<ge> flat_key then Err LeftNeighborNotSmaller
      else if flat_key \<ge> np_leaf_key r then Err RightNeighborNotLarger
      else if sp_next_index (np_entry l) \<noteq> sp_index (np_entry r) then Err NeighborsNotAdjacent
      else let root_left = recover_root c (np_entry l) (np_leaf_key l);
               root_right = recover_root c (np_entry r) (np_leaf_key r)
           in if root_left \<noteq> root_right then Err RootMismatch else Ok (root_left, None))"

section \<open>The tree as a dense list of leaves\<close>

definition leaf_hash :: "crypto \<Rightarrow> tree_leaf \<Rightarrow> b256" where
  "leaf_hash c l = hash_leaf c (tl_key l) (tl_value l) (tl_next l)"

definition empty_leaf :: tree_leaf where
  "empty_leaf = \<lparr>tl_key = 0, tl_value = 0, tl_next = 0\<rparr>"

primrec empty_at :: "crypto \<Rightarrow> nat \<Rightarrow> b256" where
  "empty_at c 0 = leaf_hash c empty_leaf"
| "empty_at c (Suc d) = cr_node c (empty_at c d) (empty_at c d)"

fun tree_node :: "crypto \<Rightarrow> tree_leaf list \<Rightarrow> nat \<Rightarrow> nat \<Rightarrow> b256" where
  "tree_node c T 0 i = (if i < length T then leaf_hash c (T ! i) else empty_at c 0)"
| "tree_node c T (Suc d) i =
     (if length T \<le> i * 2 ^ Suc d then empty_at c (Suc d)
      else cr_node c (tree_node c T d (2 * i)) (tree_node c T d (2 * i + 1)))"

definition tree_root :: "crypto \<Rightarrow> tree_leaf list \<Rightarrow> b256" where
  "tree_root c T = tree_node c T TREE_DEPTH 0"

definition tree_map :: "tree_leaf list \<Rightarrow> b256 \<Rightarrow> b256 option" where
  "tree_map T = map_of (map (\<lambda>l. (tl_key l, tl_value l)) T)"

text \<open>
  The invariant of the storage tree: the two guard leaves first, distinct keys, and every leaf
  but the upper guard linked to the leaf with the next larger key.
\<close>

definition linked :: "tree_leaf list \<Rightarrow> nat \<Rightarrow> bool" where
  "linked T i \<longleftrightarrow> unat (tl_next (T ! i)) < length T \<and>
     tl_key (T ! i) < tl_key (T ! unat (tl_next (T ! i))) \<and>
     (\<forall>l \<in> set T. \<not> (tl_key (T ! i) < tl_key l \<and> tl_key l < tl_key (T ! unat (tl_next (T ! i)))))"

definition wf_tree :: "tree_leaf list \<Rightarrow> bool" where
  "wf_tree T \<longleftrightarrow> 2 \<le> length T \<and> length T \<le> 2 ^ TREE_DEPTH \<and>
     tl_key (T ! 0) = 0 \<and> tl_key (T ! 1) = - 1 \<and> distinct (map tl_key T) \<and>
     (\<forall>i < length T. i \<noteq> 1 \<longrightarrow> linked T i)"

definition node_pairs :: "crypto \<Rightarrow> tree_leaf list \<Rightarrow> (b256 \<times> b256) set" where
  "node_pairs c T = {(tree_node c T d (2 * i), tree_node c T d (2 * i + 1)) | d i.
     d < TREE_DEPTH \<and> i < 2 ^ (TREE_DEPTH - Suc d)}"

fun path_pairs :: "crypto \<Rightarrow> b256 list \<Rightarrow> nat list \<Rightarrow> b256 \<times> nat \<Rightarrow> (b256 \<times> b256) list" where
  "path_pairs c siblings [] s = []"
| "path_pairs c siblings (d # ds) s =
     path_pair c siblings d s # path_pairs c siblings ds (recover_step c siblings d s)"

definition entry_leaf :: "slot_proof_entry \<Rightarrow> b256 \<Rightarrow> tree_leaf" where
  "entry_leaf e k = \<lparr>tl_key = k, tl_value = sp_value e, tl_next = sp_next_index e\<rparr>"

definition entry_pairs :: "crypto \<Rightarrow> slot_proof_entry \<Rightarrow> b256 \<Rightarrow> (b256 \<times> b256) list" where
  "entry_pairs c e k =
     path_pairs c (sp_siblings e) [0..<TREE_DEPTH] (leaf_hash c (entry_leaf e k), unat (sp_index e))"

fun proof_pairs :: "crypto \<Rightarrow> storage_proof \<Rightarrow> b256 \<Rightarrow> (b256 \<times> b256) list" where
  "proof_pairs c (Existing e) k = entry_pairs c e k"
| "proof_pairs c (NonExisting l r) k =
     entry_pairs c (np_entry l) (np_leaf_key l) @ entry_pairs c (np_entry r) (np_leaf_key r)"

fun proof_leaves :: "storage_proof \<Rightarrow> b256 \<Rightarrow> tree_leaf list" where
  "proof_leaves (Existing e) k = [entry_leaf e k]"
| "proof_leaves (NonExisting l r) k =
     [entry_leaf (np_entry l) (np_leaf_key l), entry_leaf (np_entry r) (np_leaf_key r)]"

definition binding :: "crypto \<Rightarrow> tree_leaf list \<Rightarrow> (b256 \<times> b256) set \<Rightarrow> tree_leaf set \<Rightarrow> bool" where
  "binding c T P L \<longleftrightarrow>
     inj_on (\<lambda>(l, r). cr_node c l r) (P \<union> node_pairs c T) \<and>
     inj_on (leaf_hash c) (insert empty_leaf (L \<union> set T))"

section \<open>The empty-subtree table\<close>

lemma empty_table_fold:
  "foldl (\<lambda>hashes _. hashes @ [cr_node c (last hashes) (last hashes)]) [hash_leaf c 0 0 0] [0..<n]
     = map (empty_at c) [0..<Suc n]"
  by (induction n) (simp_all add: leaf_hash_def empty_leaf_def)

lemma empty_subtree_hashes_eq: "empty_subtree_hashes c = map (empty_at c) [0..<Suc TREE_DEPTH]"
  by (simp only: empty_subtree_hashes_def empty_table_fold)

lemma empty_subtree_hash_at [simp]: "d \<le> TREE_DEPTH \<Longrightarrow> empty_subtree_hashes c ! d = empty_at c d"
  by (simp add: empty_subtree_hashes_eq nth_append less_Suc_eq_le del: upt_Suc)

section \<open>Nodes of the tree\<close>

lemma tree_node_empty: "length T \<le> i * 2 ^ d \<Longrightarrow> tree_node c T d i = empty_at c d"
  by (cases d) auto

lemma tree_node_Suc:
  "tree_node c T (Suc d) i = cr_node c (tree_node c T d (2 * i)) (tree_node c T d (2 * i + 1))"
proof (cases "length T \<le> i * 2 ^ Suc d")
  case True
  then have "length T \<le> (2 * i) * 2 ^ d" and "length T \<le> (2 * i + 1) * 2 ^ d"
    by (simp_all add: algebra_simps)
  then show ?thesis using True by (simp add: tree_node_empty del: tree_node.simps)
qed simp

declare tree_node.simps(2) [simp del]

definition sibling_index :: "nat \<Rightarrow> nat" where
  "sibling_index i = (if even i then i + 1 else i - 1)"

lemma node_pair_in:
  assumes "d < TREE_DEPTH" and "i < 2 ^ (TREE_DEPTH - d)"
  shows "(if even i then (tree_node c T d i, tree_node c T d (i + 1))
          else (tree_node c T d (i - 1), tree_node c T d i)) \<in> node_pairs c T"
proof -
  have "(2::nat) ^ (TREE_DEPTH - d) = 2 * 2 ^ (TREE_DEPTH - Suc d)"
    using assms(1) by (simp flip: power_Suc)
  then have "i div 2 < 2 ^ (TREE_DEPTH - Suc d)" using assms(2) by auto
  then have mem: "(tree_node c T d (2 * (i div 2)), tree_node c T d (2 * (i div 2) + 1)) \<in> node_pairs c T"
    using assms(1) unfolding node_pairs_def by blast
  show ?thesis
  proof (cases "even i")
    case True
    then have "2 * (i div 2) = i" by simp
    then show ?thesis using mem True by simp
  next
    case False
    then have "2 * (i div 2) = i - 1" and "i - 1 + 1 = i" by (auto elim: oddE)
    then show ?thesis using mem False by simp
  qed
qed

lemma tree_node_parent:
  "tree_node c T (Suc d) (i div 2) =
     (if even i then cr_node c (tree_node c T d i) (tree_node c T d (i + 1))
      else cr_node c (tree_node c T d (i - 1)) (tree_node c T d i))"
  by (auto simp: tree_node_Suc elim!: evenE oddE)

section \<open>Paths\<close>

lemma path_down:
  assumes inj: "inj_on (\<lambda>(l, r). cr_node c l r) (P \<union> node_pairs c T)"
    and "d \<le> TREE_DEPTH" and "i < 2 ^ (TREE_DEPTH - d)"
    and "set (path_pairs c sib [d..<TREE_DEPTH] (h, i)) \<subseteq> P"
    and "fst (fold (recover_step c sib) [d..<TREE_DEPTH] (h, i)) = tree_root c T"
  shows "h = tree_node c T d i"
  using assms(2-)
proof (induction "TREE_DEPTH - d" arbitrary: d h i)
  case 0
  then show ?case by (simp add: tree_root_def)
next
  case (Suc n)
  then have d: "d < TREE_DEPTH" by simp
  then have upt: "[d..<TREE_DEPTH] = d # [Suc d..<TREE_DEPTH]" by (simp add: upt_conv_Cons)
  let ?p = "path_pair c sib d (h, i)"
  let ?q = "if even i then (tree_node c T d i, tree_node c T d (i + 1))
            else (tree_node c T d (i - 1), tree_node c T d i)"
  let ?h = "(\<lambda>(l, r). cr_node c l r) ?p"
  have lt: "i div 2 < 2 ^ (TREE_DEPTH - Suc d)"
  proof -
    have "(2::nat) ^ (TREE_DEPTH - d) = 2 * 2 ^ (TREE_DEPTH - Suc d)"
      using d by (simp flip: power_Suc)
    then show ?thesis using Suc.prems(2) by auto
  qed
  have step: "recover_step c sib d (h, i) = (?h, i div 2)" by (simp add: recover_step_def)
  have "?h = tree_node c T (Suc d) (i div 2)"
  proof (rule Suc.hyps(1))
    show "n = TREE_DEPTH - Suc d" using Suc.hyps(2) by simp
    show "Suc d \<le> TREE_DEPTH" using d by simp
    show "i div 2 < 2 ^ (TREE_DEPTH - Suc d)" by (rule lt)
    show "set (path_pairs c sib [Suc d..<TREE_DEPTH] (?h, i div 2)) \<subseteq> P"
      using Suc.prems(3) by (simp add: upt step)
    show "fst (fold (recover_step c sib) [Suc d..<TREE_DEPTH] (?h, i div 2)) = tree_root c T"
      using Suc.prems(4) by (simp add: upt step)
  qed
  also have "\<dots> = (\<lambda>(l, r). cr_node c l r) ?q" by (simp add: tree_node_parent)
  finally have "(\<lambda>(l, r). cr_node c l r) ?p = (\<lambda>(l, r). cr_node c l r) ?q" .
  moreover have "?p \<in> P \<union> node_pairs c T" using Suc.prems(3) by (simp add: upt)
  moreover have "?q \<in> P \<union> node_pairs c T" using node_pair_in [OF d Suc.prems(2)] by blast
  ultimately have "?p = ?q" using inj_onD [OF inj] by blast
  then show ?case by (auto simp: path_pair_def even_iff_mod_2_eq_zero split: if_splits)
qed

lemma hash_leaf_entry: "hash_leaf c k (sp_value e) (sp_next_index e) = leaf_hash c (entry_leaf e k)"
  by (simp add: leaf_hash_def entry_leaf_def)

lemma unat_u64_lt: "unat (w :: u64) < 2 ^ TREE_DEPTH"
  using unsigned_less [of w] by (simp add: TREE_DEPTH_def)

lemma entry_sound:
  assumes b: "binding c T P L" and "set (entry_pairs c e k) \<subseteq> P" and "entry_leaf e k \<in> L"
    and root: "recover_root c e k = tree_root c T"
  shows "if unat (sp_index e) < length T then T ! unat (sp_index e) = entry_leaf e k
         else entry_leaf e k = empty_leaf"
proof -
  let ?i = "unat (sp_index e)"
  have inj: "inj_on (\<lambda>(l, r). cr_node c l r) (P \<union> node_pairs c T)"
    and linj: "inj_on (leaf_hash c) (insert empty_leaf (L \<union> set T))"
    using b by (auto simp: binding_def)
  have "?i < 2 ^ (TREE_DEPTH - 0)" using unat_u64_lt by simp
  then have h: "leaf_hash c (entry_leaf e k) = tree_node c T 0 ?i"
    using path_down [OF inj _ _ assms(2) [unfolded entry_pairs_def]] root
    by (simp add: recover_root_def hash_leaf_entry)
  show ?thesis
  proof (cases "?i < length T")
    case True
    then have "leaf_hash c (entry_leaf e k) = leaf_hash c (T ! ?i)" using h by simp
    moreover have "T ! ?i \<in> insert empty_leaf (L \<union> set T)" using True by simp
    ultimately have "entry_leaf e k = T ! ?i" using inj_onD [OF linj] assms(3) by blast
    then show ?thesis using True by simp
  next
    case False
    then have "leaf_hash c (entry_leaf e k) = leaf_hash c empty_leaf" using h by simp
    then have "entry_leaf e k = empty_leaf" using inj_onD [OF linj] assms(3) by blast
    then show ?thesis using False by simp
  qed
qed

section \<open>Soundness of storage proofs\<close>

lemma tree_map_nth: "distinct (map tl_key T) \<Longrightarrow> i < length T \<Longrightarrow>
    tree_map T (tl_key (T ! i)) = Some (tl_value (T ! i))"
  unfolding tree_map_def by (rule map_of_is_SomeI) (auto simp: comp_def image_iff)

lemma tree_map_None: "tree_map T k = None \<longleftrightarrow> (\<forall>l \<in> set T. tl_key l \<noteq> k)"
  by (auto simp: tree_map_def map_of_eq_None_iff image_image)

lemma existing_sound:
  assumes "wf_tree T" and "binding c T P L" and "set (entry_pairs c e k) \<subseteq> P"
    and "entry_leaf e k \<in> L" and "recover_root c e k = tree_root c T" and "k \<noteq> 0"
  shows "tree_map T k = Some (sp_value e)"
proof -
  let ?i = "unat (sp_index e)"
  have at: "if ?i < length T then T ! ?i = entry_leaf e k else entry_leaf e k = empty_leaf"
    by (rule entry_sound [OF assms(2-5)])
  have "entry_leaf e k \<noteq> empty_leaf" using assms(6) by (auto simp: entry_leaf_def empty_leaf_def)
  then have i: "?i < length T" and leaf: "T ! ?i = entry_leaf e k" using at by (auto split: if_splits)
  have "tree_map T (tl_key (T ! ?i)) = Some (tl_value (T ! ?i))"
    using assms(1) i by (intro tree_map_nth) (simp_all add: wf_tree_def)
  then show ?thesis by (simp add: leaf entry_leaf_def)
qed

lemma wf_treeD:
  assumes "wf_tree T"
  shows "2 \<le> length T" and "tl_key (T ! 0) = 0" and "tl_key (T ! 1) = - 1"
    and "distinct (map tl_key T)" and "\<And>i. i < length T \<Longrightarrow> i \<noteq> 1 \<Longrightarrow> linked T i"
  using assms by (simp_all add: wf_tree_def)

lemma nonexisting_sound:
  assumes wf: "wf_tree T" and b: "binding c T P L"
    and sub: "set (entry_pairs c (np_entry l) (np_leaf_key l)) \<subseteq> P"
      "set (entry_pairs c (np_entry r) (np_leaf_key r)) \<subseteq> P"
    and mem: "entry_leaf (np_entry l) (np_leaf_key l) \<in> L" "entry_leaf (np_entry r) (np_leaf_key r) \<in> L"
    and roots: "recover_root c (np_entry l) (np_leaf_key l) = tree_root c T"
      "recover_root c (np_entry r) (np_leaf_key r) = tree_root c T"
    and lt: "np_leaf_key l < k" "k < np_leaf_key r"
    and adj: "sp_next_index (np_entry l) = sp_index (np_entry r)"
  shows "tree_map T k = None"
proof -
  let ?i = "unat (sp_index (np_entry l))" and ?j = "unat (sp_index (np_entry r))"
  note d = wf_treeD [OF wf]
  have right: "if ?j < length T then T ! ?j = entry_leaf (np_entry r) (np_leaf_key r)
      else entry_leaf (np_entry r) (np_leaf_key r) = empty_leaf"
    by (rule entry_sound [OF b sub(2) mem(2) roots(2)])
  have "np_leaf_key r \<noteq> 0" using lt by auto
  then have j: "?j < length T" and rj: "T ! ?j = entry_leaf (np_entry r) (np_leaf_key r)"
    using right by (auto simp: entry_leaf_def empty_leaf_def split: if_splits)
  have left: "if ?i < length T then T ! ?i = entry_leaf (np_entry l) (np_leaf_key l)
      else entry_leaf (np_entry l) (np_leaf_key l) = empty_leaf"
    by (rule entry_sound [OF b sub(1) mem(1) roots(1)])
  have "?i < length T"
  proof (rule ccontr)
    assume "\<not> ?i < length T"
    then have "sp_next_index (np_entry l) = 0"
      using left by (simp add: entry_leaf_def empty_leaf_def)
    then have "?j = 0" using adj by simp
    then have "np_leaf_key r = 0" using rj d(2) by (simp add: entry_leaf_def)
    then show False using \<open>np_leaf_key r \<noteq> 0\<close> by simp
  qed
  then have i: "?i < length T" and li: "T ! ?i = entry_leaf (np_entry l) (np_leaf_key l)"
    using left by auto
  have "?i \<noteq> 1"
  proof
    assume "?i = 1"
    then have "np_leaf_key l = - 1" using li d(3) by (simp add: entry_leaf_def)
    then show False using lt(1) by (metis word_order.extremum_strict)
  qed
  then have "linked T ?i" using d(5) i by blast
  then show ?thesis using lt adj li rj by (auto simp: linked_def tree_map_None entry_leaf_def)
qed

lemma verify_sound:
  assumes "wf_tree T" and "binding c T (set (proof_pairs c p k)) (set (proof_leaves p k))"
    and "verify c p k = Ok (tree_root c T, v)" and "k \<noteq> 0"
  shows "tree_map T k = v"
proof (cases p)
  case (Existing e)
  then show ?thesis using assms existing_sound [OF assms(1,2), of e k] by auto
next
  case (NonExisting l r)
  then show ?thesis
    using assms nonexisting_sound [OF assms(1,2), of l r k]
    by (auto simp: Let_def not_le split: if_splits)
qed

section \<open>Completeness of storage proofs\<close>

definition honest_entry :: "crypto \<Rightarrow> tree_leaf list \<Rightarrow> nat \<Rightarrow> slot_proof_entry" where
  "honest_entry c T i =
     \<lparr>sp_index = of_nat i, sp_value = tl_value (T ! i), sp_next_index = tl_next (T ! i),
      sp_siblings = map (\<lambda>d. tree_node c T d (sibling_index (i div 2 ^ d))) [0..<TREE_DEPTH]\<rparr>"

lemma sibling_at_map [simp]:
  "d < n \<Longrightarrow> sibling_at c (map f [0..<n]) d = f d"
  by (simp add: sibling_at_def)

lemma path_up:
  assumes "d \<le> TREE_DEPTH"
  shows "fold (recover_step c (sp_siblings (honest_entry c T i))) [0..<d] (tree_node c T 0 i, i)
    = (tree_node c T d (i div 2 ^ d), i div 2 ^ d)"
  using assms
proof (induction d)
  case (Suc d)
  have "i div 2 ^ Suc d = i div 2 ^ d div 2" by (simp add: mult.commute flip: div_mult2_eq)
  then show ?case using Suc
    by (simp add: recover_step_def path_pair_def honest_entry_def tree_node_parent sibling_index_def
        even_iff_mod_2_eq_zero del: power_Suc tree_node.simps)
qed simp

lemma honest_entry_root:
  assumes "i < length T" and "length T \<le> 2 ^ TREE_DEPTH"
  shows "recover_root c (honest_entry c T i) (tl_key (T ! i)) = tree_root c T"
proof -
  have lt: "i < 2 ^ TREE_DEPTH" using assms by simp
  then have "unat (of_nat i :: u64) = i" by (simp add: unat_of_nat TREE_DEPTH_def)
  moreover have "i div 2 ^ TREE_DEPTH = 0" using lt by simp
  moreover have "leaf_hash c (T ! i) = tree_node c T 0 i" using assms by simp
  ultimately show ?thesis
    using path_up [of TREE_DEPTH c T i]
    by (simp add: recover_root_def tree_root_def leaf_hash_def honest_entry_def)
qed

lemma honest_path_pairs:
  assumes "d \<le> TREE_DEPTH" and "i < 2 ^ TREE_DEPTH"
  shows "set (path_pairs c (sp_siblings (honest_entry c T i)) [d..<TREE_DEPTH] (tree_node c T d (i div 2 ^ d), i div 2 ^ d))
    \<subseteq> node_pairs c T"
  using assms(1)
proof (induction "TREE_DEPTH - d" arbitrary: d)
  case (Suc n)
  then have d: "d < TREE_DEPTH" by simp
  let ?ss = "sp_siblings (honest_entry c T i)" and ?j = "i div 2 ^ d"
  have pair: "path_pair c ?ss d (tree_node c T d ?j, ?j) =
      (if even ?j then (tree_node c T d ?j, tree_node c T d (?j + 1)) else (tree_node c T d (?j - 1), tree_node c T d ?j))"
    using d by (simp add: path_pair_def honest_entry_def sibling_index_def even_iff_mod_2_eq_zero)
  have "(2::nat) ^ d * 2 ^ (TREE_DEPTH - d) = 2 ^ TREE_DEPTH" using d by (simp flip: power_add)
  then have "?j < 2 ^ (TREE_DEPTH - d)" using assms(2) by (simp add: less_mult_imp_div_less mult.commute)
  then have "path_pair c ?ss d (tree_node c T d ?j, ?j) \<in> node_pairs c T" using node_pair_in [OF d] by (simp add: pair)
  moreover have "i div 2 ^ Suc d = ?j div 2" by (simp add: mult.commute flip: div_mult2_eq)
  then have "recover_step c ?ss d (tree_node c T d ?j, ?j) = (tree_node c T (Suc d) (i div 2 ^ Suc d), i div 2 ^ Suc d)"
    by (simp add: recover_step_def pair tree_node_parent del: power_Suc)
  moreover have "set (path_pairs c ?ss [Suc d..<TREE_DEPTH] (tree_node c T (Suc d) (i div 2 ^ Suc d), i div 2 ^ Suc d))
      \<subseteq> node_pairs c T"
    by (rule Suc.hyps(1)) (use Suc.hyps(2) d in simp_all)
  ultimately show ?case using d by (simp add: upt_conv_Cons)
qed simp

lemma honest_entry_pairs:
  assumes "i < length T" and "length T \<le> 2 ^ TREE_DEPTH"
  shows "set (entry_pairs c (honest_entry c T i) (tl_key (T ! i))) \<subseteq> node_pairs c T"
    and "entry_leaf (honest_entry c T i) (tl_key (T ! i)) = T ! i"
proof -
  have lt: "i < 2 ^ TREE_DEPTH" using assms by simp
  then have i: "unat (of_nat i :: u64) = i" by (simp add: unat_of_nat TREE_DEPTH_def)
  show leaf: "entry_leaf (honest_entry c T i) (tl_key (T ! i)) = T ! i"
    by (simp add: entry_leaf_def honest_entry_def)
  have "sp_index (honest_entry c T i) = of_nat i" by (simp add: honest_entry_def)
  then show "set (entry_pairs c (honest_entry c T i) (tl_key (T ! i))) \<subseteq> node_pairs c T"
    using honest_path_pairs [OF le0 lt, of c T] assms(1) by (simp add: entry_pairs_def i leaf)
qed

lemma predecessor_exists:
  assumes wf: "wf_tree T" and k: "\<forall>l \<in> set T. tl_key l \<noteq> k"
  shows "\<exists>i < length T. i \<noteq> 1 \<and> tl_key (T ! i) < k \<and> k < tl_key (T ! unat (tl_next (T ! i)))"
proof -
  note d = wf_treeD [OF wf]
  let ?S = "{i. i < length T \<and> tl_key (T ! i) < k}"
  have "T ! 0 \<in> set T" using d(1) by (intro nth_mem) linarith
  then have "k \<noteq> 0" using k d(2) by auto
  then have "0 \<in> ?S" using d(1,2) by (auto simp: word_gt_0)
  then have ne: "?S \<noteq> {}" and fin: "finite ?S" by auto
  then have "Max ((\<lambda>i. unat (tl_key (T ! i))) ` ?S) \<in> (\<lambda>i. unat (tl_key (T ! i))) ` ?S"
    by (intro Max_in) auto
  then obtain i where i: "i \<in> ?S" "unat (tl_key (T ! i)) = Max ((\<lambda>i. unat (tl_key (T ! i))) ` ?S)"
    by auto
  have is_max: "i \<in> ?S" "\<And>j. j \<in> ?S \<Longrightarrow> unat (tl_key (T ! j)) \<le> unat (tl_key (T ! i))"
    using i fin by (auto simp del: mem_Collect_eq)
  have "i \<noteq> 1" using is_max(1) d(3) by (auto dest: word_order.extremum_strict [THEN notE])
  then have link: "linked T i" using d(5) is_max(1) by blast
  let ?n = "unat (tl_next (T ! i))"
  have "\<not> tl_key (T ! ?n) < k"
  proof
    assume "tl_key (T ! ?n) < k"
    then have "?n \<in> ?S" using link by (simp add: linked_def)
    then show False using is_max(2) link by (fastforce simp: linked_def word_less_nat_alt)
  qed
  moreover have "tl_key (T ! ?n) \<noteq> k" using k link by (simp add: linked_def)
  ultimately show ?thesis using is_max(1) \<open>i \<noteq> 1\<close> by auto
qed

definition honest_neighbor :: "crypto \<Rightarrow> tree_leaf list \<Rightarrow> nat \<Rightarrow> neighbor_proof_entry" where
  "honest_neighbor c T i = \<lparr>np_entry = honest_entry c T i, np_leaf_key = tl_key (T ! i)\<rparr>"

definition honest_proof :: "crypto \<Rightarrow> tree_leaf list \<Rightarrow> b256 \<Rightarrow> storage_proof \<Rightarrow> bool" where
  "honest_proof c T k p \<longleftrightarrow> verify c p k = Ok (tree_root c T, tree_map T k) \<and>
     set (proof_pairs c p k) \<subseteq> node_pairs c T \<and> set (proof_leaves p k) \<subseteq> set T"

lemma honest_existing:
  assumes wf: "wf_tree T" and i: "i < length T" "tl_key (T ! i) = k"
  shows "honest_proof c T k (Existing (honest_entry c T i))"
proof -
  have "recover_root c (honest_entry c T i) k = tree_root c T"
    using honest_entry_root wf i by (auto simp: wf_tree_def)
  moreover have "tree_map T k = Some (tl_value (T ! i))"
    using tree_map_nth [of T i] wf i by (auto simp: wf_tree_def)
  ultimately show ?thesis
    using honest_entry_pairs [OF i(1), of c] wf i
    by (simp add: honest_proof_def wf_tree_def) (simp add: honest_entry_def)
qed

lemma honest_absent:
  assumes wf: "wf_tree T" and k: "\<forall>l \<in> set T. tl_key l \<noteq> k"
    and i: "i < length T" "i \<noteq> 1" "tl_key (T ! i) < k" "k < tl_key (T ! unat (tl_next (T ! i)))"
  shows "honest_proof c T k (NonExisting (honest_neighbor c T i) (honest_neighbor c T (unat (tl_next (T ! i)))))"
proof -
  let ?n = "unat (tl_next (T ! i))"
  have n: "?n < length T" using wf_treeD(5) [OF wf i(1,2)] by (simp add: linked_def)
  have size: "length T \<le> 2 ^ TREE_DEPTH" using wf by (simp add: wf_tree_def)
  have "verify c (NonExisting (honest_neighbor c T i) (honest_neighbor c T ?n)) k = Ok (tree_root c T, None)"
    using i honest_entry_root [OF i(1) size] honest_entry_root [OF n size]
    by (simp add: honest_neighbor_def not_le) (simp add: honest_entry_def)
  moreover have "tree_map T k = None" using k by (simp add: tree_map_None)
  ultimately show ?thesis
    using honest_entry_pairs [OF i(1) size, of c] honest_entry_pairs [OF n size, of c] i(1) n
    by (simp add: honest_proof_def honest_neighbor_def)
qed

lemma binding_honest:
  assumes "binding c T {} {}" and "honest_proof c T k p"
  shows "binding c T (set (proof_pairs c p k)) (set (proof_leaves p k))"
  using assms by (simp add: binding_def honest_proof_def Un_absorb1)

end
