(* ===== verification/Guest_Panic.thy ===== *)
theory Guest_Panic
  imports Zk_Prelude
begin

text \<open>
  The ways the guest stops: one constructor per assertion, \<open>expect\<close>, \<open>panic!\<close> or indexing
  panic of the modelled code, grouped by source file. A panic inside the zkVM means that no proof
  is produced, so an operation that panics rejects its witness.
\<close>

text \<open>\<open>lib/src/executor/tx.rs\<close>\<close>

datatype tx_panic =
    SliceOutOfRange
  | UintConversionOverflow
  | TxHashMismatch
  | TxBuildFailed
  | EnvelopeUndecodable
  | SignerUnrecoverable
  | GasLimitExceedsCap
  | RlpTruncated
  | RlpUnexpectedKind
  | RlpPayloadOutOfBounds
  | RlpBadLength
  | SystemTxTypeMismatch
  | SystemTxTrailingBytes
  | SystemTxToNotAddress
  | SystemTxSaltTooLong
  | SystemTxNotConsumed
  | SelectorMissing
  | ImportWrongTarget
  | SlChainIdWrongTarget
  | InteropFeeWrongTarget
  | UnknownSelector
  | AbiWordOutOfBounds
  | AbiLengthTooLarge

datatype executor_panic =
  \<comment> \<open>\<open>lib/src/executor/evm.rs\<close>\<close>
    BlobTransaction
  | TransactionFailed
  | HeaderHashMissing
  | HeaderHashMismatch
  \<comment> \<open>\<open>lib/src/executor/mod.rs\<close>\<close>
  | WireVersionUnsupported
  | SpecTooNewForWire
  | UnknownSpecId
  | SpecMinorInconsistent
  | ChainConfigFlagTooEarly
  | EmptyBatch
  | MaxTxGasLimitTooLow
  | UnknownPubdataContent
  | BlockZeroNotExecutable
  | BlockGasLimitTooLarge
  | TxGasLimitTooLarge
  | FirstBlockNumberMismatch
  | FirstBlockTimestampDecreases
  | BlockNumbersNotConsecutive
  | BlockTimestampsDecrease
  | ForeignTreeRoot
  | IntraBatchHashMismatch
  | RingNotAuthenticated
  | IntraBatchHashMissing
  | UpgradeHashMismatch
  | TooManyUpgradeTxs
  | UpgradeHashInconsistent
  | InteropProofsMissing
  | CommitmentTreeProofsMissing
  | UnsupportedDaScheme

datatype panic =
  \<comment> \<open>\<open>lib/src/merkle.rs\<close>\<close>
    LeavesNotIncreasing
  | LeafBeyondCount
  | UpdateIndexMissing
  | UpdateKeyMismatch
  | PrevIndexMissing
  | PredecessorNotSmaller
  | SuccessorMissing
  | SuccessorNotLarger
  | OriginalLeafMissing
  | RanOutOfHashes
  | HashesNotConsumed
  | WalkNotSingleRoot
  | OldRootMismatch
  \<comment> \<open>\<open>lib/src/commitment.rs\<close>, \<open>lib/src/block_roots.rs\<close>\<close>
  | LeafCountExceedsCapacity
  | EmptyHashTableMissing
  \<comment> \<open>\<open>lib/src/executor/proven_db.rs\<close>\<close>
  | MerkleProofFailed
  | ProofRootMismatch
  | BytecodeHashMismatch
  | PreimageWithoutProof
  | PreimageHashMismatch
  | PreimageUndecodable
  | WitnessBlockHashMismatch
  \<comment> \<open>\<open>lib/src/executor/stream.rs\<close>\<close>
  | BlockProofRootsDiffer
  \<comment> \<open>\<open>lib/src/executor/interop.rs\<close>\<close>
  | InteropProofFailed
  | InteropRootMismatch
  | SlChainIdExceedsU64
  \<comment> \<open>\<open>lib/src/executor/eip2935.rs\<close>\<close>
  | HistoryBlockZero
  | HistoryAccountUnproven
  | HistorySlotUnproven
  | HistoryInsertFailed
  \<comment> \<open>\<open>lib/src/executor/verify.rs\<close>\<close>
  | PostStateCodeUnavailable
  | AfterPreimageUndecodable
  | AfterPreimageNotExecuted
  | AfterPreimageNonceMismatch
  | AfterPreimageBalanceMismatch
  | AfterPreimageCodeMismatch
  | DestroyedNeverExisted
  | DestroyedNotZeroed
  | NonEvmEnvironment
  | AfterPreimageMissing
  | OperationCountMismatch
  | DuplicateEntryKeys
  | WriteCountMismatch
  | EntryNotComputed
  | EntryValueMismatch
  | LeafCountMismatch
  | WritesWithoutTreeUpdate
  \<comment> \<open>the two groups above\<close>
  | TxPanic tx_panic
  | ExecutorPanic executor_panic

end
