(* ===== verification/Merkle_Update.thy ===== *)
theory Merkle_Update
  imports Merkle_Proof Guest_Panic
begin

text \<open>
  The batch tree update of \<open>lib/src/merkle.rs\<close>: the position checks, the write application and
  the single-pass walk that recomputes the old and the new root together. Tree positions are
  \<open>u64\<close> words in the witness; inside the walk they are read as naturals, on which the loop's
  parity, halving and neighbour arithmetic is exact, and the one operation that can lose bits,
  the shift of \<open>resolve_offpath_sibling\<close>, is written modulo \<open>2 ^ 64\<close>. The specification is the
  same sequence of writes on the dense leaf list (\<open>tree_writes\<close>).
\<close>

section \<open>The witness\<close>

datatype write_op = Update u64 | Insert u64

record batch_tree_update =
  bu_operations :: "write_op list"
  bu_entries :: "(b256 \<times> b256) list"
  bu_sorted_leaves :: "(u64 \<times> tree_leaf) list"
  bu_intermediate_hashes :: "b256 list"
  bu_leaf_count_before :: u64

section \<open>Position checks\<close>

definition windows2 :: "'a list \<Rightarrow> ('a \<times> 'a) list" where
  "windows2 xs = zip xs (tl xs)"

definition assert_leaves_name_distinct_old_positions :: "batch_tree_update \<Rightarrow> (panic, unit) result" where
  "assert_leaves_name_distinct_old_positions u =
     rbind (checkR (\<lambda>(a, b). ensure (fst a < fst b) LeavesNotIncreasing) (windows2 (bu_sorted_leaves u)))
       (\<lambda>_. checkR (\<lambda>(index, _). ensure (index < bu_leaf_count_before u) LeafBeyondCount)
              (bu_sorted_leaves u))"

section \<open>Write application\<close>

record write_state =
  ws_leaves :: "(u64 \<times> tree_leaf) list"
  ws_pos_of :: "u64 \<rightharpoonup> nat"
  ws_next_tree_index :: u64

definition initial_write_state :: "batch_tree_update \<Rightarrow> write_state" where
  "initial_write_state u =
     \<lparr>ws_leaves = bu_sorted_leaves u,
      ws_pos_of = map_of (rev (zip (map fst (bu_sorted_leaves u)) [0..<length (bu_sorted_leaves u)])),
      ws_next_tree_index = bu_leaf_count_before u\<rparr>"

definition leaf_at :: "write_state \<Rightarrow> nat \<Rightarrow> tree_leaf" where
  "leaf_at s pos = snd (ws_leaves s ! pos)"

definition set_leaf :: "nat \<Rightarrow> tree_leaf \<Rightarrow> (u64 \<times> tree_leaf) list \<Rightarrow> (u64 \<times> tree_leaf) list" where
  "set_leaf pos l leaves = leaves[pos := (fst (leaves ! pos), l)]"

fun apply_op :: "write_op \<times> (b256 \<times> b256) \<Rightarrow> write_state \<Rightarrow> (panic, write_state) result" where
  "apply_op (Update index, (key, new_value)) s =
     rbind (ok_or (ws_pos_of s index) UpdateIndexMissing) (\<lambda>pos.
     rbind (ensure (tl_key (leaf_at s pos) = key) UpdateKeyMismatch) (\<lambda>_.
     Ok (s\<lparr>ws_leaves := set_leaf pos ((leaf_at s pos)\<lparr>tl_value := new_value\<rparr>) (ws_leaves s)\<rparr>)))"
| "apply_op (Insert prev_index, (key, new_value)) s =
     (let this_index = ws_next_tree_index s;
          next_tree_index = ws_next_tree_index s + 1
      in rbind (ok_or (ws_pos_of s prev_index) PrevIndexMissing) (\<lambda>prev_pos.
         let old_next = tl_next (leaf_at s prev_pos)
         in rbind (ensure (tl_key (leaf_at s prev_pos) < key) PredecessorNotSmaller) (\<lambda>_.
            rbind (ok_or (ws_pos_of s old_next) SuccessorMissing) (\<lambda>next_pos.
            rbind (ensure (key < tl_key (leaf_at s next_pos)) SuccessorNotLarger) (\<lambda>_.
            let new_pos = length (ws_leaves s);
                pushed = ws_leaves s @
                  [(this_index, \<lparr>tl_key = key, tl_value = new_value, tl_next = old_next\<rparr>)]
            in Ok (s\<lparr>ws_leaves := set_leaf prev_pos ((leaf_at s prev_pos)\<lparr>tl_next := this_index\<rparr>) pushed,
                     ws_pos_of := (ws_pos_of s)(this_index \<mapsto> new_pos),
                     ws_next_tree_index := next_tree_index\<rparr>))))))"

definition apply_writes :: "batch_tree_update \<Rightarrow> (panic, (u64 \<times> tree_leaf) list \<times> u64) result" where
  "apply_writes u =
     rbind (foldR apply_op (zip (bu_operations u) (bu_entries u)) (initial_write_state u))
       (\<lambda>s. Ok (sort_key fst (ws_leaves s), ws_next_tree_index s))"

section \<open>The walk\<close>

type_synonym walk_node = "nat \<times> b256 \<times> b256"
type_synonym walk_pair = "nat \<times> (b256 \<times> b256) \<times> (b256 \<times> b256)"

definition resolve_offpath_sibling ::
  "crypto \<Rightarrow> u64 \<Rightarrow> nat \<Rightarrow> nat \<Rightarrow> b256 list \<Rightarrow> (panic, b256 \<times> b256 list) result" where
  "resolve_offpath_sibling c leaf_count_before depth sib_idx hashes =
     (let subtree_start = (sib_idx * 2 ^ depth) mod 2 ^ 64
      in if unat leaf_count_before \<le> subtree_start then Ok (empty_subtree_hashes c ! depth, hashes)
         else case hashes of [] \<Rightarrow> Err RanOutOfHashes | h # hs \<Rightarrow> Ok (h, hs))"

definition paired_with_next :: "nat \<Rightarrow> walk_node list \<Rightarrow> bool" where
  "paired_with_next idx rest = (case rest of [] \<Rightarrow> False | (nidx, _, _) # _ \<Rightarrow> nidx = idx + 1)"

text \<open>
  The inner loop at one depth: the children of every parent node, on the old and on the new side.
  \<open>hash_pair\<close> compresses both; \<open>walk_level\<close> is the loop body of the outer loop.
\<close>

fun level_pairs ::
  "crypto \<Rightarrow> u64 \<Rightarrow> nat \<Rightarrow> walk_node list \<Rightarrow> b256 list \<Rightarrow> (panic, walk_pair list \<times> b256 list) result" where
  "level_pairs c n depth [] hs = Ok ([], hs)"
| "level_pairs c n depth ((idx, old_h, new_h) # rest) hs =
     (if idx mod 2 = 1 then
        rbind (resolve_offpath_sibling c n depth (idx - 1) hs) (\<lambda>(sib, hs').
        rbind (level_pairs c n depth rest hs') (\<lambda>(parents, hs'').
        Ok ((idx div 2, (sib, old_h), (sib, new_h)) # parents, hs'')))
      else if paired_with_next idx rest then
        (let (_, rold, rnew) = hd rest
         in rbind (level_pairs c n depth (tl rest) hs) (\<lambda>(parents, hs').
            Ok ((idx div 2, (old_h, rold), (new_h, rnew)) # parents, hs')))
      else
        rbind (resolve_offpath_sibling c n depth (idx + 1) hs) (\<lambda>(sib, hs').
        rbind (level_pairs c n depth rest hs') (\<lambda>(parents, hs'').
        Ok ((idx div 2, (old_h, sib), (new_h, sib)) # parents, hs''))))"

definition hash_pair :: "crypto \<Rightarrow> walk_pair \<Rightarrow> walk_node" where
  "hash_pair c = (\<lambda>(idx, (lo, ro), (ln, rn)). (idx, cr_node c lo ro, cr_node c ln rn))"

definition walk_level ::
  "crypto \<Rightarrow> u64 \<Rightarrow> nat \<Rightarrow> walk_node list \<times> b256 list \<Rightarrow> (panic, walk_node list \<times> b256 list) result" where
  "walk_level c n depth s =
     rbind (level_pairs c n depth (fst s) (snd s)) (\<lambda>(ps, hs). Ok (map (hash_pair c) ps, hs))"

definition initial_level ::
  "crypto \<Rightarrow> batch_tree_update \<Rightarrow> (u64 \<times> tree_leaf) list \<Rightarrow> (panic, walk_node list) result" where
  "initial_level c u new_leaves =
     (let orig_by_idx = map_of (rev (bu_sorted_leaves u))
      in mapR (\<lambda>(idx, new_leaf).
           let new_hash = leaf_hash c new_leaf
           in if idx < bu_leaf_count_before u then
                rbind (ok_or (orig_by_idx idx) OriginalLeafMissing)
                  (\<lambda>orig. Ok (unat idx, leaf_hash c orig, new_hash))
              else Ok (unat idx, empty_subtree_hashes c ! 0, new_hash)) new_leaves)"

definition walk_old_and_new ::
  "crypto \<Rightarrow> batch_tree_update \<Rightarrow> (u64 \<times> tree_leaf) list \<Rightarrow> (panic, b256 \<times> b256) result" where
  "walk_old_and_new c u new_leaves =
     rbind (initial_level c u new_leaves) (\<lambda>level0.
     rbind (foldR (walk_level c (bu_leaf_count_before u)) [0..<TREE_DEPTH]
              (level0, bu_intermediate_hashes u)) (\<lambda>(level, hashes).
     rbind (ensure (hashes = []) HashesNotConsumed) (\<lambda>_.
     rbind (ensure (length level = 1) WalkNotSingleRoot) (\<lambda>_.
     Ok (fst (snd (hd level)), snd (snd (hd level)))))))"

definition apply_update :: "crypto \<Rightarrow> batch_tree_update \<Rightarrow> b256 \<Rightarrow> (panic, b256 \<times> u64) result" where
  "apply_update c u expected_old_root =
     rbind (assert_leaves_name_distinct_old_positions u) (\<lambda>_.
     rbind (apply_writes u) (\<lambda>(new_leaves, next_tree_index).
     rbind (walk_old_and_new c u new_leaves) (\<lambda>(old_root, new_root).
     rbind (ensure (old_root = expected_old_root) OldRootMismatch) (\<lambda>_.
     Ok (new_root, next_tree_index)))))"

section \<open>The specification\<close>

fun tree_write :: "write_op \<times> (b256 \<times> b256) \<Rightarrow> tree_leaf list \<Rightarrow> tree_leaf list" where
  "tree_write (Update i, (k, v)) T = T[unat i := (T ! unat i)\<lparr>tl_value := v\<rparr>]"
| "tree_write (Insert p, (k, v)) T =
     T[unat p := (T ! unat p)\<lparr>tl_next := of_nat (length T)\<rparr>]
       @ [\<lparr>tl_key = k, tl_value = v, tl_next = tl_next (T ! unat p)\<rparr>]"

definition tree_writes :: "batch_tree_update \<Rightarrow> tree_leaf list \<Rightarrow> tree_leaf list" where
  "tree_writes u T = fold tree_write (zip (bu_operations u) (bu_entries u)) T"

text \<open>What a single write must find in the tree: the leaf to update, or the two neighbours.\<close>

fun write_ok :: "write_op \<times> (b256 \<times> b256) \<Rightarrow> tree_leaf list \<Rightarrow> bool" where
  "write_ok (Update i, (k, v)) T \<longleftrightarrow> unat i < length T \<and> tl_key (T ! unat i) = k"
| "write_ok (Insert p, (k, v)) T \<longleftrightarrow> unat p < length T \<and> tl_key (T ! unat p) < k \<and>
     unat (tl_next (T ! unat p)) < length T \<and> k < tl_key (T ! unat (tl_next (T ! unat p)))"

text \<open>The old-side pairs the walk hashes.\<close>

fun walk_trace :: "crypto \<Rightarrow> u64 \<Rightarrow> nat list \<Rightarrow> walk_node list \<times> b256 list \<Rightarrow> (b256 \<times> b256) list" where
  "walk_trace c n [] s = []"
| "walk_trace c n (d # ds) s =
     (case level_pairs c n d (fst s) (snd s) of
        Err e \<Rightarrow> []
      | Ok (ps, hs) \<Rightarrow> map (fst \<circ> snd) ps @ walk_trace c n ds (map (hash_pair c) ps, hs))"

definition update_pairs :: "crypto \<Rightarrow> batch_tree_update \<Rightarrow> (b256 \<times> b256) list" where
  "update_pairs c u =
     (case rbind (apply_writes u) (\<lambda>(leaves, _). initial_level c u leaves) of
        Err e \<Rightarrow> []
      | Ok level0 \<Rightarrow> walk_trace c (bu_leaf_count_before u) [0..<TREE_DEPTH]
                       (level0, bu_intermediate_hashes u))"

section \<open>Writes keep the linked list\<close>

lemma linked_keys:
  "linked T i \<longleftrightarrow> unat (tl_next (T ! i)) < length T \<and>
     tl_key (T ! i) < tl_key (T ! unat (tl_next (T ! i))) \<and>
     (\<forall>x \<in> tl_key ` set T. \<not> (tl_key (T ! i) < x \<and> x < tl_key (T ! unat (tl_next (T ! i)))))"
  by (simp add: linked_def)

lemma write_update_nth:
  shows "tl_key (tree_write (Update i, (k, v)) T ! j) = tl_key (T ! j)"
    and "tl_next (tree_write (Update i, (k, v)) T ! j) = tl_next (T ! j)"
    and "j < length T \<Longrightarrow> tl_value (tree_write (Update i, (k, v)) T ! j)
       = (if j = unat i then v else tl_value (T ! j))"
    and "length (tree_write (Update i, (k, v)) T) = length T"
  by (cases "j = unat i"; cases "unat i < length T"; simp add: list_update_beyond)+

lemma write_update_wf:
  assumes wf: "wf_tree T" and "write_ok (Update i, (k, v)) T"
  shows "wf_tree (tree_write (Update i, (k, v)) T)"
proof -
  define T' where "T' = tree_write (Update i, (k, v)) T"
  note nth = write_update_nth [where i = i and k = k and v = v and T = T, folded T'_def]
  have keys: "map tl_key T' = map tl_key T" by (rule nth_equalityI) (simp_all add: nth)
  then have "tl_key ` set T' = tl_key ` set T" by (metis list.set_map)
  then have "linked T' j = linked T j" for j unfolding linked_keys nth by simp
  then show ?thesis using wf unfolding T'_def [symmetric] wf_tree_def nth keys by simp
qed

lemma write_update_map:
  assumes wf: "wf_tree T" and "write_ok (Update i, (k, v)) T"
  shows "tree_map (tree_write (Update i, (k, v)) T) = (tree_map T)(k \<mapsto> v)"
proof
  define T' where "T' = tree_write (Update i, (k, v)) T"
  note nth = write_update_nth [where i = i and k = k and v = v and T = T, folded T'_def]
  have wf': "wf_tree T'" unfolding T'_def by (rule write_update_wf [OF assms])
  have i: "unat i < length T" and ki: "tl_key (T ! unat i) = k" using assms(2) by auto
  fix x
  show "tree_map T' x = ((tree_map T)(k \<mapsto> v)) x"
  proof (cases "\<exists>j < length T. tl_key (T ! j) = x")
    case True
    then obtain j where j: "j < length T" "tl_key (T ! j) = x" by blast
    have "j = unat i \<longleftrightarrow> x = k"
      using j i ki wf_treeD(4) [OF wf] by (auto simp: distinct_conv_nth)
    moreover have "tree_map T' (tl_key (T' ! j)) = Some (tl_value (T' ! j))"
      using j wf' by (intro tree_map_nth) (auto simp: wf_tree_def nth)
    moreover have "tree_map T (tl_key (T ! j)) = Some (tl_value (T ! j))"
      using j wf by (intro tree_map_nth) (auto simp: wf_tree_def)
    ultimately show ?thesis using j by (simp add: nth)
  next
    case False
    then have "tree_map T x = None" and "x \<noteq> k"
      unfolding tree_map_None using i ki by (metis in_set_conv_nth, blast)
    moreover have "tree_map T' x = None"
      unfolding tree_map_None using False nth(1,4) by (metis in_set_conv_nth)
    ultimately show ?thesis by simp
  qed
qed

lemma insert_fresh:
  assumes "wf_tree T" and "write_ok (Insert p, (k, v)) T"
  shows "linked T (unat p)" and "\<forall>l \<in> set T. tl_key l \<noteq> k"
proof -
  have "unat p \<noteq> 1"
    using assms wf_treeD(3) [OF assms(1)] by (auto dest: word_order.extremum_strict [THEN notE])
  then show "linked T (unat p)" using wf_treeD(5) assms by auto
  then show "\<forall>l \<in> set T. tl_key l \<noteq> k" using assms(2) by (auto simp: linked_def)
qed

lemma insert_linked_other:
  assumes wf: "wf_tree T" and ok: "write_ok (Insert p, (k, v)) T"
    and "j < length T" and "j \<noteq> 1" and "j \<noteq> unat p"
  shows "\<not> (tl_key (T ! j) < k \<and> k < tl_key (T ! unat (tl_next (T ! j))))"
proof
  assume between: "tl_key (T ! j) < k \<and> k < tl_key (T ! unat (tl_next (T ! j)))"
  have lp: "linked T (unat p)" and lj: "linked T j"
    using insert_fresh [OF wf ok] wf_treeD(5) [OF wf] assms(3,4) by blast+
  have p: "unat p < length T" "tl_key (T ! unat p) < k"
      "k < tl_key (T ! unat (tl_next (T ! unat p)))" using ok by auto
  have "tl_key (T ! j) \<noteq> tl_key (T ! unat p)"
    using wf_treeD(4) [OF wf] assms(3,5) p(1) by (auto simp: distinct_conv_nth)
  then consider "tl_key (T ! j) < tl_key (T ! unat p)" | "tl_key (T ! unat p) < tl_key (T ! j)"
    by fastforce
  then show False
  proof cases
    case 1
    then show ?thesis using lj between p by (auto simp: linked_def)
  next
    case 2
    have "tl_key (T ! j) < tl_key (T ! unat (tl_next (T ! unat p)))" using less_trans [OF conjunct1 [OF between] p(3)] .
    then show ?thesis using lp 2 assms(3) by (auto simp: linked_def)
  qed
qed

lemma write_insert_nth:
  assumes "j < length T"
  shows "tl_key (tree_write (Insert p, (k, v)) T ! j) = tl_key (T ! j)"
    and "tl_next (tree_write (Insert p, (k, v)) T ! j)
       = (if j = unat p then of_nat (length T) else tl_next (T ! j))"
    and "tl_value (tree_write (Insert p, (k, v)) T ! j) = tl_value (T ! j)"
  using assms by (cases "j = unat p"; simp add: nth_append)+

lemma write_insert_last:
  "tree_write (Insert p, (k, v)) T ! length T =
     \<lparr>tl_key = k, tl_value = v, tl_next = tl_next (T ! unat p)\<rparr>"
  by (simp add: nth_append)

lemma length_write_insert: "length (tree_write (Insert p, (k, v)) T) = Suc (length T)"
  by simp

declare tree_write.simps [simp del]

lemma write_insert_keys: "map tl_key (tree_write (Insert p, (k, v)) T) = map tl_key T @ [k]"
proof (rule nth_equalityI)
  fix j assume "j < length (map tl_key (tree_write (Insert p, (k, v)) T))"
  then consider "j < length T" | "j = length T" by (fastforce simp: length_write_insert)
  then show "map tl_key (tree_write (Insert p, (k, v)) T) ! j = (map tl_key T @ [k]) ! j"
    by cases (simp_all add: nth_append length_write_insert write_insert_nth write_insert_last)
qed (simp add: length_write_insert)

lemma write_insert_wf:
  assumes wf: "wf_tree T" and ok: "write_ok (Insert p, (k, v)) T" and len: "length T < 2 ^ TREE_DEPTH"
  shows "wf_tree (tree_write (Insert p, (k, v)) T)"
proof -
  let ?T = "tree_write (Insert p, (k, v)) T"
  note d = wf_treeD [OF wf] and fresh = insert_fresh [OF wf ok]
  have lenT: "length ?T = Suc (length T)" by (rule length_write_insert)
  have idx: "unat (of_nat (length T) :: u64) = length T"
    using len by (simp add: unat_of_nat TREE_DEPTH_def)
  have set_keys: "tl_key ` set ?T = insert k (tl_key ` set T)"
    using arg_cong [OF write_insert_keys, of set] by simp
  have linked_iff: "linked ?T j \<longleftrightarrow> unat (tl_next (?T ! j)) < Suc (length T) \<and>
      tl_key (?T ! j) < tl_key (?T ! unat (tl_next (?T ! j))) \<and>
      (\<forall>x \<in> insert k (tl_key ` set T).
         \<not> (tl_key (?T ! j) < x \<and> x < tl_key (?T ! unat (tl_next (?T ! j)))))" for j
    unfolding linked_keys lenT set_keys [symmetric] ..
  have q: "unat (tl_next (T ! unat p)) < length T" using ok by auto
  have "linked ?T j" if j: "j < length ?T" "j \<noteq> 1" for j
  proof -
    consider (new) "j = length T" | (prev) "j < length T" "j = unat p"
      | (other) "j < length T" "j \<noteq> unat p" using j lenT by linarith
    then show ?thesis
    proof cases
      case new
      then show ?thesis
        using q ok fresh(1) unfolding linked_iff new write_insert_last
        by (auto simp: write_insert_nth linked_def)
    next
      case prev
      have "tl_key (?T ! length T) = k" by (simp only: write_insert_last) simp
      then show ?thesis
        using prev q ok fresh(1) unfolding linked_iff write_insert_nth(1,2) [OF prev(1)]
        by (auto simp: idx linked_def)
    next
      case other
      have l: "linked T j" using d(5) other j(2) by blast
      then have n: "unat (tl_next (T ! j)) < length T" by (simp add: linked_def)
      show ?thesis
        using l insert_linked_other [OF wf ok other(1) j(2) other(2)] n other(2)
        unfolding linked_iff by (auto simp: write_insert_nth other(1) linked_def)
    qed
  qed
  moreover have "tl_key (?T ! 0) = 0" "tl_key (?T ! 1) = - 1"
    using d(1,2,3) by (subst write_insert_nth, linarith, simp)+
  moreover have "distinct (map tl_key ?T)"
    using d(4) fresh(2) by (simp only: write_insert_keys) auto
  ultimately show ?thesis using len d(1) lenT unfolding wf_tree_def by simp
qed

lemma write_insert_map:
  assumes wf: "wf_tree T" and ok: "write_ok (Insert p, (k, v)) T"
  shows "tree_map (tree_write (Insert p, (k, v)) T) = (tree_map T)(k \<mapsto> v)"
proof -
  have "map (\<lambda>l. (tl_key l, tl_value l)) (tree_write (Insert p, (k, v)) T)
      = map (\<lambda>l. (tl_key l, tl_value l)) T @ [(k, v)]"
    (is "?l = ?r")
  proof (rule nth_equalityI)
    fix j assume "j < length ?l"
    then consider "j < length T" | "j = length T" by (fastforce simp: length_write_insert)
    then show "?l ! j = ?r ! j"
      by cases (simp_all add: nth_append length_write_insert write_insert_nth write_insert_last)
  qed (simp add: length_write_insert)
  then have m: "tree_map (tree_write (Insert p, (k, v)) T) = [k \<mapsto> v] ++ tree_map T"
    by (simp add: tree_map_def)
  have "tree_map T k = None" using insert_fresh(2) [OF wf ok] by (simp add: tree_map_None)
  then show ?thesis by (auto simp: m map_add_def fun_eq_iff split: option.splits)
qed

lemma tree_write_wf:
  assumes "wf_tree T" and "write_ok w T" and "length T < 2 ^ TREE_DEPTH"
  shows "wf_tree (tree_write w T)"
    and "tree_map (tree_write w T) = (tree_map T)(fst (snd w) \<mapsto> snd (snd w))"
proof -
  obtain op k v where w: "w = (op, (k, v))" by (metis prod.exhaust)
  show "wf_tree (tree_write w T)"
    using assms by (cases op) (simp_all only: w write_update_wf write_insert_wf)
  show "tree_map (tree_write w T) = (tree_map T)(fst (snd w) \<mapsto> snd (snd w))"
    using assms by (cases op) (simp_all only: w write_update_map write_insert_map fst_conv snd_conv)
qed

end
