(* ===== verification/Merkle_Update_Sound.thy ===== *)
theory Merkle_Update_Sound
  imports Merkle_Update
begin

text \<open>
  Soundness of the batch tree update. The write application on the witness leaves simulates
  \<open>tree_writes\<close> on the whole tree, and the walk, once its old side has recovered the root of a
  tree, computes on its new side the root of that tree after the writes.
\<close>

section \<open>The write application simulates the tree writes\<close>

definition touched :: "write_state \<Rightarrow> nat set" where
  "touched s = unat ` fst ` set (ws_leaves s)"

definition sim :: "write_state \<Rightarrow> tree_leaf list \<Rightarrow> bool" where
  "sim s T \<longleftrightarrow> distinct (map fst (ws_leaves s)) \<and>
     (\<forall>(i, l) \<in> set (ws_leaves s). unat i < length T \<and> T ! unat i = l) \<and>
     (\<forall>i p. ws_pos_of s i = Some p \<longrightarrow> p < length (ws_leaves s) \<and> fst (ws_leaves s ! p) = i) \<and>
     unat (ws_next_tree_index s) = length T"

lemma sim_leaf:
  assumes "sim s T" and "ws_pos_of s i = Some p"
  shows "p < length (ws_leaves s)" and "ws_leaves s ! p = (i, leaf_at s p)"
    and "unat i < length T" and "T ! unat i = leaf_at s p" and "unat i \<in> touched s"
proof -
  show p: "p < length (ws_leaves s)" and pair: "ws_leaves s ! p = (i, leaf_at s p)"
    using assms by (auto simp: sim_def leaf_at_def prod_eq_iff)
  then have mem: "(i, leaf_at s p) \<in> set (ws_leaves s)" by (metis nth_mem)
  then show "unat i < length T" "T ! unat i = leaf_at s p" using assms by (auto simp: sim_def)
  show "unat i \<in> touched s" using mem by (force simp: touched_def)
qed

lemma length_set_leaf [simp]: "length (set_leaf p l xs) = length xs"
  by (simp add: set_leaf_def)

lemma fst_set_leaf [simp]: "q < length xs \<Longrightarrow> fst (set_leaf p l xs ! q) = fst (xs ! q)"
  by (cases "q = p") (simp_all add: set_leaf_def)

lemma map_fst_set_leaf [simp]: "map fst (set_leaf p l xs) = map fst xs"
  by (rule nth_equalityI) simp_all

lemma fst_image_set_leaf [simp]: "fst ` set (set_leaf p l xs) = fst ` set xs"
  by (metis list.set_map map_fst_set_leaf)

lemma set_set_leaf:
  assumes "distinct (map fst xs)" and "p < length xs" and "(i, l') \<in> set (set_leaf p l xs)"
  shows "if i = fst (xs ! p) then l' = l else (i, l') \<in> set xs"
proof -
  obtain q where q: "q < length xs" "set_leaf p l xs ! q = (i, l')"
    using assms(3) by (metis in_set_conv_nth length_set_leaf)
  show ?thesis
  proof (cases "q = p")
    case True
    then show ?thesis using q assms(2) by (auto simp: set_leaf_def)
  next
    case False
    then have "xs ! q = (i, l')" using q by (simp add: set_leaf_def)
    moreover have "fst (xs ! q) \<noteq> fst (xs ! p)"
      using False assms(1,2) q(1) by (auto simp: distinct_conv_nth)
    ultimately show ?thesis using q(1) by (auto simp: in_set_conv_nth)
  qed
qed

lemma sim_update:
  assumes sim: "sim s T" and ok: "apply_op (Update i, (k, v)) s = Ok s'"
  shows "write_ok (Update i, (k, v)) T" and "sim s' (tree_write (Update i, (k, v)) T)"
    and "touched s' = touched s" and "unat i \<in> touched s"
proof -
  obtain p where p: "ws_pos_of s i = Some p" "tl_key (leaf_at s p) = k"
    and s': "s' = s\<lparr>ws_leaves := set_leaf p ((leaf_at s p)\<lparr>tl_value := v\<rparr>) (ws_leaves s)\<rparr>"
    using ok by auto
  note leaf = sim_leaf [OF sim p(1)]
  show "write_ok (Update i, (k, v)) T" using leaf p(2) by simp
  show "unat i \<in> touched s" by (rule leaf(5))
  show "touched s' = touched s"
    unfolding touched_def s' by simp
  have dist: "distinct (map fst (ws_leaves s))" using sim by (simp add: sim_def)
  have "unat j < length T \<and> tree_write (Update i, (k, v)) T ! unat j = l"
    if mem: "(j, l) \<in> set (ws_leaves s')" for j l
  proof -
    have at: "if j = i then l = (leaf_at s p)\<lparr>tl_value := v\<rparr> else (j, l) \<in> set (ws_leaves s)"
      using set_set_leaf [OF dist leaf(1), where i = j and l' = l
          and l = "(leaf_at s p)\<lparr>tl_value := v\<rparr>"] mem by (simp add: s' leaf(2))
    show ?thesis
    proof (cases "j = i")
      case True
      then show ?thesis using at leaf(3,4) by (simp add: tree_write.simps)
    next
      case False
      then have "unat j < length T" "T ! unat j = l" "unat i \<noteq> unat j"
        using at sim by (auto simp: sim_def word_unat_eq_iff)
      then show ?thesis by (simp add: tree_write.simps)
    qed
  qed
  then show "sim s' (tree_write (Update i, (k, v)) T)"
    using sim by (auto simp: sim_def s' write_update_nth)
qed

lemma sim_insert:
  assumes sim: "sim s T" and ok: "apply_op (Insert p, (k, v)) s = Ok s'"
    and len: "Suc (length T) < 2 ^ 64"
  shows "write_ok (Insert p, (k, v)) T" and "sim s' (tree_write (Insert p, (k, v)) T)"
    and "touched s' = insert (length T) (touched s)" and "unat p \<in> touched s"
proof -
  obtain pp np where pp: "ws_pos_of s p = Some pp" "tl_key (leaf_at s pp) < k"
    and np: "ws_pos_of s (tl_next (leaf_at s pp)) = Some np" "k < tl_key (leaf_at s np)"
    and s': "s' = s\<lparr>ws_leaves := set_leaf pp ((leaf_at s pp)\<lparr>tl_next := ws_next_tree_index s\<rparr>)
               (ws_leaves s @ [(ws_next_tree_index s,
                  \<lparr>tl_key = k, tl_value = v, tl_next = tl_next (leaf_at s pp)\<rparr>)]),
             ws_pos_of := (ws_pos_of s)(ws_next_tree_index s \<mapsto> length (ws_leaves s)),
             ws_next_tree_index := ws_next_tree_index s + 1\<rparr>"
    using ok by (auto simp: Let_def)
  note leaf = sim_leaf [OF sim pp(1)] and nleaf = sim_leaf [OF sim np(1)]
  have nxt: "unat (ws_next_tree_index s) = length T" using sim by (simp add: sim_def)
  then have next_word: "ws_next_tree_index s = of_nat (length T)" by (metis of_nat_unat ucast_id)
  have succ: "unat (ws_next_tree_index s + 1) = Suc (length T)"
    using len nxt by (subst unat_add_lem [THEN iffD1]) auto
  show "write_ok (Insert p, (k, v)) T" using leaf nleaf pp np by simp
  show "unat p \<in> touched s" by (rule leaf(5))
  let ?new = "(ws_next_tree_index s, \<lparr>tl_key = k, tl_value = v, tl_next = tl_next (leaf_at s pp)\<rparr>)"
  show "touched s' = insert (length T) (touched s)"
    unfolding touched_def s' using nxt by simp
  have fresh: "ws_next_tree_index s \<notin> fst ` set (ws_leaves s)"
    using sim nxt by (fastforce simp: sim_def)
  have dist: "distinct (map fst (ws_leaves s @ [?new]))"
    using sim fresh by (simp add: sim_def)
  have pos: "pp < length (ws_leaves s @ [?new])" and at: "(ws_leaves s @ [?new]) ! pp = (p, leaf_at s pp)"
    using leaf(1,2) by (simp_all add: nth_append)
  have "unat j < Suc (length T) \<and> tree_write (Insert p, (k, v)) T ! unat j = l"
    if mem: "(j, l) \<in> set (ws_leaves s')" for j l
  proof -
    have "if j = p then l = (leaf_at s pp)\<lparr>tl_next := ws_next_tree_index s\<rparr>
        else (j, l) \<in> set (ws_leaves s @ [?new])"
      using set_set_leaf [OF dist pos, where i = j and l' = l
          and l = "(leaf_at s pp)\<lparr>tl_next := ws_next_tree_index s\<rparr>"] mem by (simp add: s' at)
    then consider "j = p" "l = (leaf_at s pp)\<lparr>tl_next := ws_next_tree_index s\<rparr>"
      | "j \<noteq> p" "(j, l) \<in> set (ws_leaves s)" | "(j, l) = ?new" by (auto split: if_splits)
    then show ?thesis
    proof cases
      case 1
      then show ?thesis using leaf(3,4) next_word by (simp add: tree_write.simps nth_append)
    next
      case 2
      then have "unat j < length T" "T ! unat j = l" "unat p \<noteq> unat j"
        using sim by (auto simp: sim_def word_unat_eq_iff)
      then show ?thesis by (simp add: tree_write.simps nth_append)
    next
      case 3
      then show ?thesis using leaf(4) nxt by (simp add: tree_write.simps nth_append)
    qed
  qed
  moreover have "q < Suc (length (ws_leaves s)) \<and> fst (ws_leaves s' ! q) = j"
    if "ws_pos_of s' j = Some q" for j q
    using that sim by (auto simp: s' sim_def nth_append less_Suc_eq split: if_splits)
  moreover have "distinct (map fst (ws_leaves s'))" using dist by (simp add: s')
  moreover have "length (ws_leaves s') = Suc (length (ws_leaves s))"
    "unat (ws_next_tree_index s') = Suc (length T)" using succ by (simp_all add: s')
  ultimately show "sim s' (tree_write (Insert p, (k, v)) T)"
    unfolding sim_def length_write_insert by auto
qed

definition frame :: "nat set \<Rightarrow> tree_leaf list \<Rightarrow> tree_leaf list \<Rightarrow> bool" where
  "frame A T T' \<longleftrightarrow> (\<forall>j. j \<notin> A \<longrightarrow> (j < length T' \<longleftrightarrow> j < length T) \<and> (j < length T \<longrightarrow> T' ! j = T ! j))"

lemma frame_update: "unat i \<in> A \<Longrightarrow> frame A T (tree_write (Update i, (k, v)) T)"
  unfolding frame_def tree_write.simps by (metis length_list_update nth_list_update_neq)

lemma frame_insert:
  assumes "unat p \<in> A" and "length T \<in> A"
  shows "frame A T (tree_write (Insert p, (k, v)) T)"
  unfolding frame_def
proof (intro allI impI)
  fix j assume "j \<notin> A"
  then have "unat p \<noteq> j" "j \<noteq> length T" using assms by auto
  then show "(j < length (tree_write (Insert p, (k, v)) T) \<longleftrightarrow> j < length T) \<and>
      (j < length T \<longrightarrow> tree_write (Insert p, (k, v)) T ! j = T ! j)"
    by (auto simp: tree_write.simps nth_append)
qed

lemma sim_step:
  assumes "sim s T" and "apply_op w s = Ok s'" and "Suc (length T) < 2 ^ 64"
  shows "write_ok w T" and "sim s' (tree_write w T)" and "touched s \<subseteq> touched s'"
    and "frame (touched s') T (tree_write w T)" and "length (tree_write w T) \<le> Suc (length T)"
proof -
  obtain op k v where w: "w = (op, (k, v))" by (metis prod.exhaust)
  consider (u) i where "op = Update i" | (i) p where "op = Insert p" by (cases op) auto
  then have "write_ok w T \<and> sim s' (tree_write w T) \<and> touched s \<subseteq> touched s' \<and>
      frame (touched s') T (tree_write w T) \<and> length (tree_write w T) \<le> Suc (length T)"
  proof cases
    case u
    then show ?thesis
      using sim_update [OF assms(1), of i k v s'] assms(2)
      by (simp add: w frame_update write_update_nth del: apply_op.simps write_ok.simps)
  next
    case i
    then show ?thesis
      using sim_insert [OF assms(1) _ assms(3), of p k v s'] assms(2)
      by (auto simp: w frame_insert length_write_insert simp del: apply_op.simps write_ok.simps)
  qed
  then show "write_ok w T" "sim s' (tree_write w T)" "touched s \<subseteq> touched s'"
    "frame (touched s') T (tree_write w T)" "length (tree_write w T) \<le> Suc (length T)" by blast+
qed

lemma frame_trans: "frame A T U \<Longrightarrow> A \<subseteq> B \<Longrightarrow> frame B U V \<Longrightarrow> frame B T V"
  by (auto simp: frame_def)

lemma sim_fold:
  assumes "foldR apply_op ws s = Ok s'" and "sim s T" and "length T + length ws < 2 ^ 64"
  shows "sim s' (fold tree_write ws T) \<and> touched s \<subseteq> touched s' \<and>
    frame (touched s') T (fold tree_write ws T)"
  using assms
proof (induction ws arbitrary: s T)
  case Nil
  then show ?case by (simp add: frame_def)
next
  case (Cons w ws)
  then obtain s1 where s1: "apply_op w s = Ok s1" "foldR apply_op ws s1 = Ok s'" by auto
  have len: "Suc (length T) < 2 ^ 64" using Cons.prems(3) by simp
  note st = sim_step [OF Cons.prems(2) s1(1) len]
  have ih: "sim s' (fold tree_write ws (tree_write w T)) \<and> touched s1 \<subseteq> touched s' \<and>
      frame (touched s') (tree_write w T) (fold tree_write ws (tree_write w T))"
    using Cons.IH [OF s1(2) st(2)] st(5) Cons.prems(3) by simp
  then have "frame (touched s') T (fold tree_write ws (tree_write w T))"
    using frame_trans [OF st(4)] by blast
  then show ?case using ih st(3) by auto
qed

lemma sim_fold_wf:
  assumes "foldR apply_op ws s = Ok s'" and "sim s T" and "length T + length ws < 2 ^ 64" and "wf_tree T"
  shows "wf_tree (fold tree_write ws T) \<and>
    tree_map (fold tree_write ws T) = tree_map T ++ map_of (rev (map snd ws))"
  using assms
proof (induction ws arbitrary: s T)
  case (Cons w ws)
  then obtain s1 where s1: "apply_op w s = Ok s1" "foldR apply_op ws s1 = Ok s'" by auto
  have len: "Suc (length T) < 2 ^ 64" using Cons.prems(3) by simp
  note st = sim_step [OF Cons.prems(2) s1(1) len]
  have "length T < 2 ^ TREE_DEPTH" using len by (simp add: TREE_DEPTH_def)
  note wr = tree_write_wf [OF Cons.prems(4) st(1) this]
  have ih: "wf_tree (fold tree_write ws (tree_write w T)) \<and>
    tree_map (fold tree_write ws (tree_write w T)) =
      tree_map (tree_write w T) ++ map_of (rev (map snd ws))"
    using Cons.IH [OF s1(2) st(2) _ wr(1)] st(5) Cons.prems(3) by simp
  moreover have "tree_map (tree_write w T) ++ map_of (rev (map snd ws)) =
      tree_map T ++ map_of (rev (map snd (w # ws)))"
    unfolding wr(2) by (rule ext, cases "snd w") (simp add: map_add_def split: option.splits)
  ultimately show ?case by simp
qed simp

section \<open>One level of the walk\<close>

definition child :: "walk_node list \<Rightarrow> nat \<Rightarrow> b256 \<Rightarrow> b256 \<Rightarrow> bool" where
  "child level i h h' \<longleftrightarrow> (i, h, h') \<in> set level \<or> i \<notin> fst ` set level \<and> h = h'"

text \<open>
  What the inner loop promises: one pair per parent of the level, in increasing order, whose
  children are the nodes of the level or an off-path hash shared by the two sides.
\<close>

definition paired_up :: "walk_node list \<Rightarrow> walk_pair list \<Rightarrow> bool" where
  "paired_up level ps \<longleftrightarrow> sorted_wrt (<) (map fst ps) \<and>
     fst ` set ps = (\<lambda>i. i div 2) ` fst ` set level \<and>
     (\<forall>(j, (lo, ro), (ln, rn)) \<in> set ps. child level (2 * j) lo ln \<and> child level (2 * j + 1) ro rn)"

lemma child_append:
  "i \<notin> fst ` set grp \<Longrightarrow> child (grp @ rest) i h h' \<longleftrightarrow> child rest i h h'"
  "i \<notin> fst ` set rest \<Longrightarrow> child (grp @ rest) i h h' \<longleftrightarrow> child grp i h h'"
  by (force simp: child_def)+

lemma paired_up_group:
  assumes rest: "paired_up rest ps" and "\<And>i. i \<in> fst ` set rest \<Longrightarrow> j < i div 2"
    and grp: "(\<lambda>i. i div 2) ` fst ` set grp = {j}"
    and "child grp (2 * j) lo ln" and "child grp (2 * j + 1) ro rn"
  shows "paired_up (grp @ rest) ((j, (lo, ro), (ln, rn)) # ps)"
proof -
  have idx: "fst ` set ps = (\<lambda>i. i div 2) ` fst ` set rest" using rest by (simp add: paired_up_def)
  have above: "j < j'" if "j' \<in> fst ` set ps" for j' using that assms(2) unfolding idx by auto
  have "2 * j \<notin> fst ` set rest" "2 * j + 1 \<notin> fst ` set rest" using assms(2) by fastforce+
  then have "child (grp @ rest) (2 * j) lo ln" "child (grp @ rest) (2 * j + 1) ro rn"
    using assms(4,5) by (simp_all add: child_append)
  moreover have "child (grp @ rest) (2 * j') lo' ln' \<and> child (grp @ rest) (2 * j' + 1) ro' rn'"
    if mem: "(j', (lo', ro'), (ln', rn')) \<in> set ps" for j' lo' ro' ln' rn'
  proof -
    have "j < j'" using above mem by force
    moreover have "i div 2 = j" if "i \<in> fst ` set grp" for i using grp that by (metis imageI singletonD)
    ultimately have "2 * j' \<notin> fst ` set grp" "2 * j' + 1 \<notin> fst ` set grp" by fastforce+
    then show ?thesis using rest mem by (auto simp: paired_up_def child_append)
  qed
  moreover have "sorted_wrt (<) (map fst ((j, (lo, ro), (ln, rn)) # ps))"
    using rest above by (auto simp: paired_up_def)
  moreover have "fst ` set ((j, (lo, ro), (ln, rn)) # ps) = (\<lambda>i. i div 2) ` fst ` set (grp @ rest)"
    using idx grp by (simp add: image_Un)
  ultimately show ?thesis unfolding paired_up_def by auto
qed

lemma level_pairs_paired_up:
  assumes "level_pairs c n d level hs = Ok (ps, hs')" and "sorted_wrt (<) (map fst level)"
  shows "paired_up level ps"
  using assms
proof (induction c n d level hs arbitrary: ps hs' rule: level_pairs.induct)
  case (1 c n d hs)
  then show ?case by (simp add: paired_up_def)
next
  case (2 c n d i h h' rest hs)
  have above: "i < i'" if "i' \<in> fst ` set rest" for i' using that 2(5) by auto
  have single: "paired_up ((i, h, h') # rest) ((i div 2, (lo, ro), (ln, rn)) # qs)"
    if "paired_up rest qs" and "\<And>i'. i' \<in> fst ` set rest \<Longrightarrow> i div 2 < i' div 2"
      and "child [(i, h, h')] (2 * (i div 2)) lo ln" and "child [(i, h, h')] (2 * (i div 2) + 1) ro rn"
    for lo ro ln rn qs
    using paired_up_group [OF that(1,2), of "[(i, h, h')]"] that(3,4) by simp
  consider (odd) "i mod 2 = 1" | (pair) "i mod 2 \<noteq> 1" "paired_with_next i rest"
    | (even) "i mod 2 \<noteq> 1" "\<not> paired_with_next i rest" by blast
  then show ?case
  proof cases
    case odd
    then obtain sib hs1 qs where step: "resolve_offpath_sibling c n d (i - 1) hs = Ok (sib, hs1)"
        "level_pairs c n d rest hs1 = Ok (qs, hs')" and ps: "ps = (i div 2, (sib, h), (sib, h')) # qs"
      using 2(4) by auto
    have "paired_up rest qs" using 2(1) [OF odd step(2)] 2(5) by simp
    moreover have "i div 2 < i' div 2" if "i' \<in> fst ` set rest" for i'
      using above [OF that] odd by presburger
    moreover have "2 * (i div 2) \<noteq> i" "2 * (i div 2) + 1 = i" using odd by presburger+
    ultimately show ?thesis unfolding ps by (intro single) (auto simp: child_def)
  next
    case pair
    then obtain rh rh' more where rest: "rest = (i + 1, rh, rh') # more"
      by (auto simp: paired_with_next_def split: list.splits)
    obtain qs where step: "level_pairs c n d more hs = Ok (qs, hs')"
      and ps: "ps = (i div 2, (h, rh), (h', rh')) # qs" using 2(4) pair by (auto simp: rest)
    have "paired_up more qs"
      using 2(2) [OF pair, of "(i + 1, rh, rh')"] step 2(5) by (simp add: rest)
    moreover have "i div 2 < i' div 2" if "i' \<in> fst ` set more" for i'
    proof -
      have "i + 1 < i'" using that 2(5) by (auto simp: rest)
      then show ?thesis using pair(1) by presburger
    qed
    moreover have "2 * (i div 2) = i" "(i + 1) div 2 = i div 2" using pair(1) by presburger+
    ultimately have "paired_up ([(i, h, h'), (i + 1, rh, rh')] @ more) ps"
      unfolding ps by (intro paired_up_group) (auto simp: child_def)
    then show ?thesis by (simp add: rest)
  next
    case even
    then obtain sib hs1 qs where step: "resolve_offpath_sibling c n d (i + 1) hs = Ok (sib, hs1)"
        "level_pairs c n d rest hs1 = Ok (qs, hs')" and ps: "ps = (i div 2, (h, sib), (h', sib)) # qs"
      using 2(4) by auto
    have "paired_up rest qs" using 2(3) [OF even step(2)] 2(5) by simp
    moreover have "i div 2 < i' div 2" if "i' \<in> fst ` set rest" for i'
    proof -
      have "i + 1 < i'" using above [OF that] even(2) that 2(5)
        by (cases rest) (fastforce simp: paired_with_next_def)+
      then show ?thesis using even(1) by presburger
    qed
    moreover have "2 * (i div 2) = i" using even(1) by presburger
    ultimately show ?thesis unfolding ps by (intro single) (auto simp: child_def)
  qed
qed

section \<open>The whole walk\<close>

lemma div_pow_Suc: "(j::nat) div 2 ^ d div 2 = j div 2 ^ Suc d"
  by (simp add: mult.commute flip: div_mult2_eq)

lemma frame_node:
  assumes "frame A T T'" and "\<And>j. j \<in> A \<Longrightarrow> j div 2 ^ d \<noteq> i"
  shows "tree_node c T' d i = tree_node c T d i"
  using assms(2)
proof (induction d arbitrary: i)
  case 0
  then have "i \<notin> A" by auto
  then show ?case using assms(1) by (simp add: frame_def)
next
  case (Suc d)
  have "j div 2 ^ d \<noteq> 2 * i \<and> j div 2 ^ d \<noteq> 2 * i + 1" if "j \<in> A" for j
  proof -
    have "j div 2 ^ d div 2 \<noteq> i" using Suc.prems [OF that] by (simp only: div_pow_Suc not_False_eq_True)
    then show ?thesis by auto
  qed
  then show ?case using Suc.IH by (simp add: tree_node_Suc)
qed

definition olds_ok :: "crypto \<Rightarrow> tree_leaf list \<Rightarrow> nat \<Rightarrow> walk_node list \<Rightarrow> bool" where
  "olds_ok c T d level \<longleftrightarrow> (\<forall>(i, h, h') \<in> set level. h = tree_node c T d i)"

definition news_ok :: "crypto \<Rightarrow> tree_leaf list \<Rightarrow> nat \<Rightarrow> walk_node list \<Rightarrow> bool" where
  "news_ok c T d level \<longleftrightarrow> (\<forall>(i, h, h') \<in> set level. h' = tree_node c T d i)"

lemma paired_up_olds:
  assumes pu: "paired_up level ps" and dist: "distinct (map fst level)"
    and old: "olds_ok c T (Suc d) (map (hash_pair c) ps)"
    and inj: "inj_on (\<lambda>(l, r). cr_node c l r) (P \<union> node_pairs c T)"
    and sub: "fst ` snd ` set ps \<subseteq> P" and d: "d < TREE_DEPTH"
    and range: "\<And>j. j \<in> fst ` set ps \<Longrightarrow> j < 2 ^ (TREE_DEPTH - Suc d)"
  shows "\<And>j lo ro ln rn. (j, (lo, ro), (ln, rn)) \<in> set ps \<Longrightarrow>
      lo = tree_node c T d (2 * j) \<and> ro = tree_node c T d (2 * j + 1)"
    and "olds_ok c T d level"
proof -
  show pair: "lo = tree_node c T d (2 * j) \<and> ro = tree_node c T d (2 * j + 1)"
    if mem: "(j, (lo, ro), (ln, rn)) \<in> set ps" for j lo ro ln rn
  proof -
    let ?q = "(tree_node c T d (2 * j), tree_node c T d (2 * j + 1))"
    have "(j, cr_node c lo ro, cr_node c ln rn) \<in> set (map (hash_pair c) ps)"
      using mem by (force simp: hash_pair_def)
    then have "cr_node c lo ro = tree_node c T (Suc d) j" using old by (auto simp: olds_ok_def)
    then have "(\<lambda>(l, r). cr_node c l r) (lo, ro) = (\<lambda>(l, r). cr_node c l r) ?q"
      by (simp add: tree_node_Suc)
    moreover have "(lo, ro) \<in> P" using sub mem by force
    moreover have "?q \<in> node_pairs c T"
      using d range [of j] mem unfolding node_pairs_def by force
    ultimately have "(lo, ro) = ?q" using inj_onD [OF inj] by blast
    then show ?thesis by simp
  qed
  show "olds_ok c T d level"
    unfolding olds_ok_def
  proof clarify
    fix i h h' assume mem: "(i, h, h') \<in> set level"
    have same: "h = x" if "(i, x, y) \<in> set level" for x y
      using that mem dist by (auto dest: eq_key_imp_eq_value)
    have "i div 2 \<in> fst ` set ps" using pu mem by (force simp: paired_up_def)
    then obtain lo ro ln rn where q: "(i div 2, (lo, ro), (ln, rn)) \<in> set ps" by auto
    then have ch: "child level (2 * (i div 2)) lo ln" "child level (2 * (i div 2) + 1) ro rn"
      using pu by (auto simp: paired_up_def)
    have "i \<in> fst ` set level" using mem by force
    then show "h = tree_node c T d i"
      using pair [OF q] ch same by (cases "even i") (auto simp: child_def elim!: evenE oddE)
  qed
qed

lemma paired_up_news:
  assumes pu: "paired_up level ps" and new: "news_ok c T' d level" and "frame A T T'"
    and idx: "fst ` set level = (\<lambda>i. i div 2 ^ d) ` A"
    and pair: "\<And>j lo ro ln rn. (j, (lo, ro), (ln, rn)) \<in> set ps \<Longrightarrow>
      lo = tree_node c T d (2 * j) \<and> ro = tree_node c T d (2 * j + 1)"
  shows "news_ok c T' (Suc d) (map (hash_pair c) ps)"
proof -
  have side: "hn = tree_node c T' d i" if "child level i ho hn" and "ho = tree_node c T d i" for i ho hn
  proof (cases "i \<in> fst ` set level")
    case True
    then show ?thesis using that new by (auto simp: child_def news_ok_def)
  next
    case False
    then have "j div 2 ^ d \<noteq> i" if "j \<in> A" for j using that unfolding idx by blast
    then have "tree_node c T' d i = tree_node c T d i" by (rule frame_node [OF assms(3)])
    moreover have "ho = hn" using False that(1) by (force simp: child_def)
    ultimately show ?thesis using that(2) by simp
  qed
  have "cr_node c ln rn = tree_node c T' (Suc d) j" if "(j, (lo, ro), (ln, rn)) \<in> set ps" for j lo ro ln rn
  proof -
    have "child level (2 * j) lo ln" "child level (2 * j + 1) ro rn"
      using pu that by (auto simp: paired_up_def)
    then show ?thesis using side pair [OF that] by (simp add: tree_node_Suc)
  qed
  then show ?thesis by (auto simp: news_ok_def hash_pair_def)
qed

lemma fst_hash_pair [simp]: "fst (hash_pair c p) = fst p"
  by (simp add: hash_pair_def split: prod.splits)

lemma walk_sound:
  assumes inj: "inj_on (\<lambda>(l, r). cr_node c l r) (P \<union> node_pairs c T)" and fr: "frame A T T'"
    and "d \<le> TREE_DEPTH" and "sorted_wrt (<) (map fst level)"
    and "fst ` set level = (\<lambda>i. i div 2 ^ d) ` A" and "\<And>i. i \<in> fst ` set level \<Longrightarrow> i < 2 ^ (TREE_DEPTH - d)"
    and "foldR (walk_level c n) [d..<TREE_DEPTH] (level, hs) = Ok ([(r, ro, rn)], hs')"
    and "set (walk_trace c n [d..<TREE_DEPTH] (level, hs)) \<subseteq> P" and "ro = tree_root c T"
  shows "olds_ok c T d level \<and> (news_ok c T' d level \<longrightarrow> rn = tree_root c T')"
  using assms(3-)
proof (induction "TREE_DEPTH - d" arbitrary: d level hs)
  case 0
  then have d: "d = TREE_DEPTH" and level: "level = [(r, ro, rn)]" by simp_all
  have "r = 0" using 0(5) [of r] by (simp add: d level)
  then show ?case using 0(8) by (simp add: olds_ok_def news_ok_def tree_root_def d level)
next
  case (Suc m)
  then have d: "d < TREE_DEPTH" by simp
  then have upt: "[d..<TREE_DEPTH] = d # [Suc d..<TREE_DEPTH]" by (simp add: upt_conv_Cons)
  obtain ps hs1 where ps: "level_pairs c n d level hs = Ok (ps, hs1)"
    and rest: "foldR (walk_level c n) [Suc d..<TREE_DEPTH] (map (hash_pair c) ps, hs1) = Ok ([(r, ro, rn)], hs')"
    using Suc.prems(5) unfolding upt by (auto simp: walk_level_def)
  have pu: "paired_up level ps" by (rule level_pairs_paired_up [OF ps Suc.prems(2)])
  then have par: "fst ` set ps = (\<lambda>i. i div 2) ` fst ` set level" and srt: "sorted_wrt (<) (map fst ps)"
    by (simp_all add: paired_up_def)
  let ?next = "map (hash_pair c) ps"
  have fsts: "map fst ?next = map fst ps" by simp
  then have fst_set: "fst ` set ?next = fst ` set ps" by (metis list.set_map)
  have idx: "fst ` set ps = (\<lambda>i. i div 2 ^ Suc d) ` A"
    unfolding par Suc.prems(3) image_image div_pow_Suc ..
  have range: "j < 2 ^ (TREE_DEPTH - Suc d)" if "j \<in> fst ` set ps" for j
  proof -
    have "j \<in> (\<lambda>i. i div 2) ` (fst ` set level)" using that by (simp only: par)
    then obtain i where i: "j = i div 2" "i \<in> fst ` set level" by (rule imageE)
    have "(2::nat) ^ (TREE_DEPTH - d) = 2 * 2 ^ (TREE_DEPTH - Suc d)" using d by (simp flip: power_Suc)
    then show ?thesis using Suc.prems(4) [OF i(2)] i(1) by simp
  qed
  have tr: "fst ` snd ` set ps \<subseteq> P" "set (walk_trace c n [Suc d..<TREE_DEPTH] (?next, hs1)) \<subseteq> P"
    using Suc.prems(6) unfolding upt by (auto simp: ps)
  have ih: "olds_ok c T (Suc d) ?next \<and> (news_ok c T' (Suc d) ?next \<longrightarrow> rn = tree_root c T')"
    using Suc.hyps(1) [of "Suc d" ?next hs1] Suc.hyps(2) d srt rest tr(2) range Suc.prems(7)
    by (simp only: fsts fst_set idx) auto
  have dist: "distinct (map fst level)" using Suc.prems(2) strict_sorted_iff by blast
  have pairs: "lo = tree_node c T d (2 * j) \<and> ro = tree_node c T d (2 * j + 1)"
    if "(j, (lo, ro), (ln, rn)) \<in> set ps" for j lo ro ln rn
    by (rule paired_up_olds(1) [OF pu dist conjunct1 [OF ih] inj tr(1) d]) (use range that in auto)
  have "olds_ok c T d level"
    by (rule paired_up_olds(2) [OF pu dist conjunct1 [OF ih] inj tr(1) d]) (use range in auto)
  moreover have "news_ok c T' (Suc d) ?next" if "news_ok c T' d level"
    by (rule paired_up_news [OF pu that fr Suc.prems(3)]) (use pairs in blast)
  ultimately show ?case using ih by blast
qed

section \<open>The update\<close>

lemma asserted_positions:
  assumes "assert_leaves_name_distinct_old_positions u = Ok ()"
  shows "distinct (map fst (bu_sorted_leaves u))"
    and "\<And>i l. (i, l) \<in> set (bu_sorted_leaves u) \<Longrightarrow> i < bu_leaf_count_before u"
proof -
  let ?L = "bu_sorted_leaves u"
  have "sorted_wrt (<) (map fst ?L)"
  proof (rule sorted_wrt_iff_nth_Suc_transp [THEN iffD2])
    show "transp ((<) :: u64 \<Rightarrow> u64 \<Rightarrow> bool)" by simp
    show "\<forall>i. Suc i < length (map fst ?L) \<longrightarrow> map fst ?L ! i < map fst ?L ! Suc i"
    proof (intro allI impI)
      fix i assume i: "Suc i < length (map fst ?L)"
      then have "(?L ! i, ?L ! Suc i) \<in> set (windows2 ?L)"
        by (auto simp: windows2_def set_zip nth_tl intro!: exI [of _ i])
      then show "map fst ?L ! i < map fst ?L ! Suc i"
        using assms(1) i by (fastforce simp: assert_leaves_name_distinct_old_positions_def)
    qed
  qed
  then show "distinct (map fst ?L)" using strict_sorted_iff by blast
  show "\<And>i l. (i, l) \<in> set ?L \<Longrightarrow> i < bu_leaf_count_before u"
    using assms(1) by (auto simp: assert_leaves_name_distinct_old_positions_def)
qed

lemma initial_sim:
  assumes ok: "assert_leaves_name_distinct_old_positions u = Ok ()"
    and leaves: "\<And>i l. (i, l) \<in> set (bu_sorted_leaves u) \<Longrightarrow> T ! unat i = l"
    and len: "length T = unat (bu_leaf_count_before u)"
  shows "sim (initial_write_state u) T"
proof -
  let ?L = "bu_sorted_leaves u"
  note pos = asserted_positions [OF ok]
  have "unat i < length T" if "(i, l) \<in> set ?L" for i l
    using pos(2) [OF that] by (simp add: len word_less_nat_alt)
  moreover have "p < length ?L \<and> fst (?L ! p) = i"
    if "map_of (rev (zip (map fst ?L) [0..<length ?L])) i = Some p" for i p
    using map_of_SomeD [OF that] by (auto simp: set_zip)
  ultimately show ?thesis
    using pos(1) leaves len by (auto simp: sim_def initial_write_state_def)
qed

lemma initial_level_nodes:
  assumes "initial_level c u leaves = Ok level"
  shows "map fst level = map (unat \<circ> fst) leaves"
    and "\<And>w l. (w, l) \<in> set leaves \<Longrightarrow> \<exists>h. (unat w, h, leaf_hash c l) \<in> set level \<and>
      (if w < bu_leaf_count_before u
       then \<exists>l'. map_of (rev (bu_sorted_leaves u)) w = Some l' \<and> h = leaf_hash c l'
       else h = empty_at c 0)"
    and "\<And>i h h'. (i, h, h') \<in> set level \<Longrightarrow> \<exists>w l. (w, l) \<in> set leaves \<and> i = unat w \<and> h' = leaf_hash c l"
proof -
  let ?R = "\<lambda>(w, l) (i, h, h'). i = unat w \<and> h' = leaf_hash c l \<and>
      (if w < bu_leaf_count_before u
       then \<exists>l'. map_of (rev (bu_sorted_leaves u)) w = Some l' \<and> h = leaf_hash c l'
       else h = empty_at c 0)"
  have rel: "list_all2 ?R leaves level"
    using assms unfolding initial_level_def Let_def mapR_Ok_iff
    by (rule list_all2_mono) (auto split: if_splits prod.splits)
  show "map fst level = map (unat \<circ> fst) leaves"
    using rel by (induction rule: list_all2_induct) auto
  show "\<exists>h. (unat w, h, leaf_hash c l) \<in> set level \<and>
      (if w < bu_leaf_count_before u
       then \<exists>l'. map_of (rev (bu_sorted_leaves u)) w = Some l' \<and> h = leaf_hash c l'
       else h = empty_at c 0)" if "(w, l) \<in> set leaves" for w l
    using rel that by (induction rule: list_all2_induct) (auto split: if_splits)
  show "\<exists>w l. (w, l) \<in> set leaves \<and> i = unat w \<and> h' = leaf_hash c l" if "(i, h, h') \<in> set level" for i h h'
    using rel that by (induction rule: list_all2_induct) fastforce+
qed

lemma sorted_leaves_positions:
  assumes "distinct (map fst (xs :: (u64 \<times> tree_leaf) list))"
  shows "sorted_wrt (<) (map (unat \<circ> fst) (sort_key fst xs))"
proof -
  have "distinct (map fst (sort_key fst xs))" using assms by (simp add: distinct_map)
  then have "sorted_wrt (<) (map fst (sort_key fst xs))" by (simp add: strict_sorted_iff)
  then show ?thesis unfolding sorted_wrt_map by (rule sorted_wrt_mono_rel [rotated]) (simp add: word_less_nat_alt)
qed

text \<open>
  The witness leaves are authenticated after the fact: the write application runs on claimed
  leaves, and it is the old root that shows they are the leaves of the tree. Its positions do
  not depend on the contents, so they are first read off a tree holding the claimed leaves.
\<close>

definition claimed_tree :: "batch_tree_update \<Rightarrow> tree_leaf list" where
  "claimed_tree u = map (\<lambda>i. case map_of (bu_sorted_leaves u) (of_nat i) of
     Some l \<Rightarrow> l | None \<Rightarrow> empty_leaf) [0..<unat (bu_leaf_count_before u)]"

lemma claimed_tree_sim:
  assumes "assert_leaves_name_distinct_old_positions u = Ok ()"
  shows "sim (initial_write_state u) (claimed_tree u)"
    and "length (claimed_tree u) = unat (bu_leaf_count_before u)"
proof -
  show len: "length (claimed_tree u) = unat (bu_leaf_count_before u)" by (simp add: claimed_tree_def)
  show "sim (initial_write_state u) (claimed_tree u)"
  proof (rule initial_sim [OF assms _ len])
    fix i l assume il: "(i, l) \<in> set (bu_sorted_leaves u)"
    note pos = asserted_positions [OF assms]
    have "unat i < unat (bu_leaf_count_before u)" using pos(2) [OF il] by (simp add: word_less_nat_alt)
    then show "claimed_tree u ! unat i = l" using pos(1) il by (simp add: claimed_tree_def)
  qed
qed

lemma apply_update_cases:
  assumes "apply_update c u r = Ok (r', n')"
  obtains s level top hs where
    "assert_leaves_name_distinct_old_positions u = Ok ()"
    "foldR apply_op (zip (bu_operations u) (bu_entries u)) (initial_write_state u) = Ok s"
    "n' = ws_next_tree_index s"
    "initial_level c u (sort_key fst (ws_leaves s)) = Ok level"
    "foldR (walk_level c (bu_leaf_count_before u)) [0..<TREE_DEPTH] (level, bu_intermediate_hashes u)
       = Ok ([(top, r, r')], [])"
    "update_pairs c u = walk_trace c (bu_leaf_count_before u) [0..<TREE_DEPTH]
       (level, bu_intermediate_hashes u)"
proof -
  obtain s level lv where
    a: "assert_leaves_name_distinct_old_positions u = Ok ()" and
    s: "foldR apply_op (zip (bu_operations u) (bu_entries u)) (initial_write_state u) = Ok s"
    "n' = ws_next_tree_index s" and
    l: "initial_level c u (sort_key fst (ws_leaves s)) = Ok level" and
    w: "foldR (walk_level c (bu_leaf_count_before u)) [0..<TREE_DEPTH] (level, bu_intermediate_hashes u)
       = Ok (lv, [])" "length lv = 1" "fst (snd (hd lv)) = r" "snd (snd (hd lv)) = r'"
    using assms by (auto simp: apply_update_def apply_writes_def walk_old_and_new_def)
  obtain top where "lv = [(top, r, r')]" using w(2-4) by (cases lv) auto
  moreover have "update_pairs c u = walk_trace c (bu_leaf_count_before u) [0..<TREE_DEPTH]
       (level, bu_intermediate_hashes u)"
    by (simp add: update_pairs_def apply_writes_def s(1) l)
  ultimately show ?thesis using that a s l w(1) by blast
qed

lemma apply_update_authenticates:
  assumes "binding c T (set (update_pairs c u)) (snd ` set (bu_sorted_leaves u))"
    and len: "length T = unat (bu_leaf_count_before u)"
    and bound: "length T + length (bu_operations u) < 2 ^ 64"
    and ok: "assert_leaves_name_distinct_old_positions u = Ok ()"
      "foldR apply_op (zip (bu_operations u) (bu_entries u)) (initial_write_state u) = Ok s"
      "initial_level c u (sort_key fst (ws_leaves s)) = Ok level"
    and olds: "olds_ok c T 0 level"
  shows "\<And>i l. (i, l) \<in> set (bu_sorted_leaves u) \<Longrightarrow> T ! unat i = l"
proof -
  fix i l assume il: "(i, l) \<in> set (bu_sorted_leaves u)"
  note claimed = claimed_tree_sim [OF ok(1)]
  note nodes = initial_level_nodes [OF ok(3)]
  have dist: "distinct (map fst (bu_sorted_leaves u))" and lt: "i < bu_leaf_count_before u"
    using asserted_positions [OF ok(1)] il by blast+
  have bound': "length (claimed_tree u) + length (zip (bu_operations u) (bu_entries u)) < 2 ^ 64"
    using bound claimed(2) len by simp
  have "unat i \<in> touched s"
    using sim_fold [OF ok(2) claimed(1) bound'] il
    by (force simp: touched_def initial_write_state_def)
  then obtain w l0 where "(w, l0) \<in> set (ws_leaves s)" "unat w = unat i"
    by (auto simp: touched_def)
  then have mem: "(i, l0) \<in> set (sort_key fst (ws_leaves s))" by (metis set_sort word_unat_eq_iff)
  obtain h l' where h: "(unat i, h, leaf_hash c l0) \<in> set level"
      "map_of (rev (bu_sorted_leaves u)) i = Some l'" "h = leaf_hash c l'"
    using nodes(2) [OF mem] lt by auto
  have "map_of (rev (bu_sorted_leaves u)) i = Some l"
    using il dist by (intro map_of_is_SomeI) (auto simp: rev_map [symmetric])
  then have "leaf_hash c l = tree_node c T 0 (unat i)" using h olds by (auto simp: olds_ok_def)
  moreover have i: "unat i < length T" using lt len by (simp add: word_less_nat_alt)
  ultimately have "leaf_hash c l = leaf_hash c (T ! unat i)" by simp
  moreover have "l \<in> snd ` set (bu_sorted_leaves u)" using il by force
  moreover have "T ! unat i \<in> set T" using i by simp
  moreover have "inj_on (leaf_hash c) (insert empty_leaf (snd ` set (bu_sorted_leaves u) \<union> set T))"
    using assms(1) by (simp only: binding_def)
  ultimately show "T ! unat i = l" by (metis UnCI inj_onD insertCI)
qed

lemma touched_lt: "sim s T \<Longrightarrow> i \<in> touched s \<Longrightarrow> i < length T"
  by (auto simp: sim_def touched_def)

lemma level_positions:
  assumes "initial_level c u (sort_key fst (ws_leaves s)) = Ok level" and "sim s T"
  shows "sorted_wrt (<) (map fst level)" and "fst ` set level = (\<lambda>i. i div 2 ^ 0) ` touched s"
    and "\<And>i. i \<in> fst ` set level \<Longrightarrow> i < length T"
proof -
  note fsts = initial_level_nodes(1) [OF assms(1)]
  show "sorted_wrt (<) (map fst level)"
    unfolding fsts using assms(2) by (intro sorted_leaves_positions) (simp add: sim_def)
  have "fst ` set level = (unat \<circ> fst) ` set (sort_key fst (ws_leaves s))"
    using arg_cong [OF fsts, of set] by (simp only: set_map)
  then have idx: "fst ` set level = touched s" by (simp add: touched_def image_comp)
  then show "fst ` set level = (\<lambda>i. i div 2 ^ 0) ` touched s" by simp
  show "\<And>i. i \<in> fst ` set level \<Longrightarrow> i < length T"
    unfolding idx using touched_lt [OF assms(2)] .
qed

lemma frame_refl: "frame A T T"
  by (simp add: frame_def)

lemma news_ok_initial:
  assumes "initial_level c u (sort_key fst (ws_leaves s)) = Ok level" and "sim s T"
  shows "news_ok c T 0 level"
proof -
  have "h' = tree_node c T 0 i" if mem: "(i, h, h') \<in> set level" for i h h'
  proof -
    obtain w l where "(w, l) \<in> set (ws_leaves s)" "i = unat w" "h' = leaf_hash c l"
      using initial_level_nodes(3) [OF assms(1) mem] by auto
    then show ?thesis using assms(2) by (auto simp: sim_def)
  qed
  then show ?thesis by (auto simp: news_ok_def)
qed

lemma apply_update_refines:
  assumes wf: "wf_tree T" and b: "binding c T (set (update_pairs c u)) (snd ` set (bu_sorted_leaves u))"
    and len: "length T = unat (bu_leaf_count_before u)"
    and bound: "length T + length (bu_operations u) < 2 ^ 64"
    and ok: "apply_update c u (tree_root c T) = Ok (r', n')"
  shows "wf_tree (tree_writes u T)" and "r' = tree_root c (tree_writes u T)"
    and "unat n' = length (tree_writes u T)"
    and "tree_map (tree_writes u T)
      = tree_map T ++ map_of (rev (map snd (zip (bu_operations u) (bu_entries u))))"
proof -
  let ?ws = "zip (bu_operations u) (bu_entries u)"
  obtain s level top hs where st: "assert_leaves_name_distinct_old_positions u = Ok ()"
    "foldR apply_op ?ws (initial_write_state u) = Ok s" "n' = ws_next_tree_index s"
    "initial_level c u (sort_key fst (ws_leaves s)) = Ok level"
    "foldR (walk_level c (bu_leaf_count_before u)) [0..<TREE_DEPTH] (level, bu_intermediate_hashes u)
       = Ok ([(top, tree_root c T, r')], [])"
    "update_pairs c u = walk_trace c (bu_leaf_count_before u) [0..<TREE_DEPTH]
       (level, bu_intermediate_hashes u)" by (rule apply_update_cases [OF ok])
  have bound': "length T + length ?ws < 2 ^ 64" using bound by simp
  have inj: "inj_on (\<lambda>(l, r). cr_node c l r) (set (update_pairs c u) \<union> node_pairs c T)"
    using b by (simp add: binding_def)
  have "length (claimed_tree u) + length ?ws < 2 ^ 64"
    using bound' claimed_tree_sim(2) [OF st(1)] len by simp
  then have "sim s (fold tree_write ?ws (claimed_tree u))"
    using sim_fold [OF st(2) claimed_tree_sim(1) [OF st(1)]] by blast
  note pos = level_positions [OF st(4) this]
  have idx: "i < 2 ^ (TREE_DEPTH - 0)" if "i \<in> fst ` set level" for i
    using that unat_u64_lt by (auto simp: pos(2) touched_def)
  note walk = walk_sound [OF inj _ _ pos(1,2) idx st(5) _ HOL.refl]
  have "olds_ok c T 0 level" using walk [OF frame_refl] st(6) by simp
  then have leaves: "\<And>i l. (i, l) \<in> set (bu_sorted_leaves u) \<Longrightarrow> T ! unat i = l"
    by (rule apply_update_authenticates [OF b len bound st(1,2,4)])
  have sim0: "sim (initial_write_state u) T" by (rule initial_sim [OF st(1) leaves len])
  note fold = sim_fold [OF st(2) sim0 bound', folded tree_writes_def]
    and wfs = sim_fold_wf [OF st(2) sim0 bound' wf, folded tree_writes_def]
  show "wf_tree (tree_writes u T)" and "tree_map (tree_writes u T)
      = tree_map T ++ map_of (rev (map snd ?ws))" using wfs by blast+
  show "unat n' = length (tree_writes u T)" using fold st(3) by (simp add: sim_def)
  have "news_ok c (tree_writes u T) 0 level" using news_ok_initial [OF st(4)] fold by blast
  then show "r' = tree_root c (tree_writes u T)" using walk [of "tree_writes u T"] fold st(6) by simp
qed

end
