(* ===== verification/Merkle_Claims.thy ===== *)
theory Merkle_Claims
  imports Merkle_Update_Sound
begin

text \<open>
  The claims about the Merkle code of \<open>lib/src/merkle.rs\<close>, with a sample tree of three leaves and
  a sample update of two writes on which their hypotheses hold. The sample hash functions are
  injective on the sample tree, as the collision hypotheses ask, and cheap enough to evaluate
  through all sixty-four levels.
\<close>

section \<open>The sample tree\<close>

text \<open>
  A leaf (72 bytes) hashes to a multiple of a thousand, a flat storage key (64 bytes) is five
  more than the low byte of its slot, and every other
  message hashes to 7; the Keccak of the sample is constant.
\<close>

definition sample_digest :: "bytes \<Rightarrow> b256" where
  "sample_digest bs =
     (if length bs = 72 then of_nat (1000 * (unat (bs ! 64) + 256 * (unat (bs ! 31) + 256 * unat (bs ! 63))))
      else if length bs = 64 then ucast (bs ! 63) + 5 else 7)"

definition sample_crypto :: crypto where
  "sample_crypto = \<lparr>cr_node = \<lambda>l r. l + 1, cr_blake2s = sample_digest, cr_keccak256 = \<lambda>_. 0\<rparr>"

definition sample_tree :: "tree_leaf list" where
  "sample_tree = [\<lparr>tl_key = 0, tl_value = 0, tl_next = 2\<rparr>, \<lparr>tl_key = - 1, tl_value = 0, tl_next = 1\<rparr>,
     \<lparr>tl_key = 5, tl_value = 7, tl_next = 1\<rparr>]"

lemma sample_cr_node [simp]: "cr_node sample_crypto l r = l + 1"
  by (simp add: sample_crypto_def)

lemma low_bytes: "length a = 32 \<Longrightarrow> length b = 32 \<Longrightarrow> length e = 8 \<Longrightarrow> 
   (a @ b @ e) ! 31 = a ! 31 \<and> (a @ b @ e) ! 63 = b ! 31 \<and> (a @ b @ e) ! 64 = e ! 0"
  by (simp add: nth_append)

lemma bytes32_low: "bytes32 w ! 31 = ucast w"
  by (simp add: be_bytes_def rev_nth) (simp add: le_bytes_def)

lemma sample_leaf_hash:
  "leaf_hash sample_crypto l = of_nat (1000 * (unat (ucast (tl_next l) :: u8) +
     256 * (unat (ucast (tl_key l) :: u8) + 256 * unat (ucast (tl_value l) :: u8))))"
  by (simp add: leaf_hash_def hash_leaf_def sample_crypto_def sample_digest_def low_bytes bytes32_low)
     (simp add: le_bytes_def)

lemma sample_leaf_hashes:
  "leaf_hash sample_crypto (sample_tree ! 0) = 2000"
  "leaf_hash sample_crypto (sample_tree ! 1) = 65281000"
  "leaf_hash sample_crypto (sample_tree ! 2) = 460033000"
  "leaf_hash sample_crypto empty_leaf = 0"
  unfolding sample_leaf_hash by (simp_all add: sample_tree_def empty_leaf_def, code_simp+)

lemma sample_empty: "empty_at sample_crypto d = of_nat d"
  by (induction d) (simp_all add: sample_leaf_hashes add.commute)

lemma sample_node:
  "tree_node sample_crypto sample_tree d i = of_nat d +
     (if i * 2 ^ d < 3 then leaf_hash sample_crypto (sample_tree ! (i * 2 ^ d)) else 0)"
proof (induction d arbitrary: i)
  case 0
  then show ?case by (simp add: sample_leaf_hashes) (simp add: sample_tree_def)
next
  case (Suc d)
  have "length sample_tree = 3" by (simp add: sample_tree_def)
  then show ?case using Suc [of "2 * i"] by (auto simp: sample_empty tree_node.simps algebra_simps)
qed

lemma sample_tree_wf: "wf_tree sample_tree"
proof -
  have max: "(5 :: b256) < - 1" "\<not> - 1 < (5 :: b256)" by code_simp+
  have "linked sample_tree i" if "i < 3" "i \<noteq> 1" for i
    using that max by (auto simp: linked_def sample_tree_def less_Suc_eq numeral_3_eq_3)
  then show ?thesis by (simp add: wf_tree_def TREE_DEPTH_def) (simp add: sample_tree_def)
qed


text \<open>All pairs of the sample tree hash to different nodes.\<close>

definition sample_weight :: "nat \<Rightarrow> nat" where
  "sample_weight j = (if j = 0 then 2 else if j = 1 then 65281 else if j = 2 then 460033 else 0)"

lemma sample_weight_inject: "sample_weight j = sample_weight k \<Longrightarrow> j = k \<or> 3 \<le> j \<and> 3 \<le> k"
  by (auto simp: sample_weight_def split: if_splits)

lemma sample_weight_beyond: "3 \<le> j \<Longrightarrow> sample_weight j = 0"
  by (auto simp: sample_weight_def)

lemma sample_position: "(if j < 3 then leaf_hash sample_crypto (sample_tree ! j) else 0) = of_nat (1000 * sample_weight j)"
proof -
  consider "j = 0" | "j = 1" | "j = 2" | "3 \<le> j" by linarith
  then show ?thesis by cases (simp_all only: sample_leaf_hashes, simp_all add: sample_weight_def)
qed

lemma sample_node_weight: "tree_node sample_crypto sample_tree d i = of_nat (1000 * sample_weight (i * 2 ^ d) + d)"
  unfolding sample_node sample_position by simp

lemma of_nat_b256_inject: "a < 2 ^ 256 \<Longrightarrow> b < 2 ^ 256 \<Longrightarrow> (of_nat a :: b256) = of_nat b \<longleftrightarrow> a = b"
  by (simp add: word_unat_eq_iff unat_of_nat)

lemma thousands:
  fixes a b d e :: nat
  assumes "1000 * a + d = 1000 * b + e" and "d < 1000" and "e < 1000"
  shows "d = e" and "a = b"
proof -
  have "(1000 * a + d) mod 1000 = (1000 * b + e) mod 1000" by (simp only: assms(1))
  then show "d = e" using assms(2,3) by simp
  then show "a = b" using assms(1) by simp
qed

lemma sample_binding: "binding sample_crypto sample_tree {} {}"
proof -
  have "inj_on (\<lambda>(l, r). cr_node sample_crypto l r) (node_pairs sample_crypto sample_tree)"
  proof (rule inj_onI)
    fix x y assume "x \<in> node_pairs sample_crypto sample_tree" "y \<in> node_pairs sample_crypto sample_tree"
      and eq: "(\<lambda>(l, r). cr_node sample_crypto l r) x = (\<lambda>(l, r). cr_node sample_crypto l r) y"
    then obtain d i d' i' where x: "x = (tree_node sample_crypto sample_tree d (2 * i), tree_node sample_crypto sample_tree d (2 * i + 1))"
      and y: "y = (tree_node sample_crypto sample_tree d' (2 * i'), tree_node sample_crypto sample_tree d' (2 * i' + 1))"
      and lt: "d < TREE_DEPTH" "d' < TREE_DEPTH" unfolding node_pairs_def by blast
    let ?w = "\<lambda>d i. 1000 * sample_weight (2 * i * 2 ^ d) + d"
    have small: "?w e k < 2 ^ 256" if "e < 64" for e k
    proof -
      have "?w e k \<le> 1000 * 460033 + 64" using that by (simp add: sample_weight_def)
      also have "\<dots> < 2 ^ 256" by simp
      finally show ?thesis .
    qed
    have "(of_nat (?w d i) :: b256) = of_nat (?w d' i')" using eq by (simp add: x y sample_node_weight)
    then have w: "?w d i = ?w d' i'"
      using of_nat_b256_inject [OF small [of d i] small [of d' i']] lt unfolding TREE_DEPTH_def by blast
    have d: "d' = d" and "sample_weight (2 * i * 2 ^ d) = sample_weight (2 * i' * 2 ^ d')"
      using thousands [OF w] lt by (simp_all add: TREE_DEPTH_def)
    then consider "2 * i * 2 ^ d = 2 * i' * 2 ^ d" | "3 \<le> 2 * i * 2 ^ d" "3 \<le> 2 * i' * 2 ^ d"
      using sample_weight_inject by metis
    then show "x = y"
    proof cases
      case 1
      then show ?thesis by (simp add: x y d)
    next
      case 2
      have "sample_weight (2 * j * 2 ^ d) = 0 \<and> sample_weight ((2 * j + 1) * 2 ^ d) = 0" if "3 \<le> 2 * j * 2 ^ d" for j
        using that by (intro conjI sample_weight_beyond) (simp_all add: algebra_simps)
      then show ?thesis using 2 unfolding x y d sample_node_weight by simp
    qed
  qed
  moreover have "inj_on (leaf_hash sample_crypto) (insert empty_leaf (set sample_tree))"
  proof -
    have s: "set sample_tree = {sample_tree ! 0, sample_tree ! 1, sample_tree ! 2}" by (simp add: sample_tree_def)
    show ?thesis unfolding s inj_on_def using sample_leaf_hashes by auto
  qed
  ultimately show ?thesis by (simp add: binding_def)
qed

section \<open>The sample update\<close>

definition sample_update :: batch_tree_update where
  "sample_update = \<lparr>bu_operations = [Update 2, Insert 0], bu_entries = [(5, 8), (3, 11)],
     bu_sorted_leaves = [(0, sample_tree ! 0), (2, sample_tree ! 2)],
     bu_intermediate_hashes = [65281000], bu_leaf_count_before = 3\<rparr>"

lemma sample_positions: "assert_leaves_name_distinct_old_positions sample_update = Ok ()"
  by (simp add: assert_leaves_name_distinct_old_positions_def sample_update_def windows2_def)

lemma sample_writes:
  "apply_writes sample_update = Ok ([(0, \<lparr>tl_key = 0, tl_value = 0, tl_next = 3\<rparr>), (2, \<lparr>tl_key = 5, tl_value = 8, tl_next = 1\<rparr>), (3, \<lparr>tl_key = 3, tl_value = 11, tl_next = 2\<rparr>)], 4)"
  by (simp add: apply_writes_def sample_update_def initial_write_state_def sample_tree_def leaf_at_def set_leaf_def upt_rec)

lemma sample_update_sel:
  "bu_sorted_leaves sample_update = [(0, sample_tree ! 0), (2, sample_tree ! 2)]"
  "bu_intermediate_hashes sample_update = [65281000]" "bu_leaf_count_before sample_update = 3"
  "bu_operations sample_update = [Update 2, Insert 0]" "bu_entries sample_update = [(5, 8), (3, 11)]"
  by (simp_all add: sample_update_def)

lemma sample_new_hashes:
  "leaf_hash sample_crypto \<lparr>tl_key = 0, tl_value = 0, tl_next = 3\<rparr> = 3000"
  "leaf_hash sample_crypto \<lparr>tl_key = 5, tl_value = 8, tl_next = 1\<rparr> = 525569000"
  "leaf_hash sample_crypto \<lparr>tl_key = 3, tl_value = 11, tl_next = 2\<rparr> = 721666000"
  unfolding sample_leaf_hash by simp_all

lemma sample_level0:
  "initial_level sample_crypto sample_update [(0, \<lparr>tl_key = 0, tl_value = 0, tl_next = 3\<rparr>),
      (2, \<lparr>tl_key = 5, tl_value = 8, tl_next = 1\<rparr>), (3, \<lparr>tl_key = 3, tl_value = 11, tl_next = 2\<rparr>)] =
     Ok [(0, 2000, 3000), (2, 460033000, 525569000), (3, 0, 721666000)]"
  by (simp add: initial_level_def sample_update_sel sample_leaf_hashes sample_empty sample_new_hashes)

text \<open>The walk: two levels with pairs, then one node up to the root.\<close>

definition sample_level :: "nat \<Rightarrow> walk_node list" where
  "sample_level d = [(0, of_nat (2000 + d), of_nat (3000 + d))]"

lemma sample_low_levels:
  "level_pairs sample_crypto 3 0 [(0, 2000, 3000), (2, 460033000, 525569000), (3, 0, 721666000)] [65281000] =
     Ok ([(0, (2000, 65281000), (3000, 65281000)), (1, (460033000, 0), (525569000, 721666000))], [])"
  "level_pairs sample_crypto 3 1 [(0, 2001, 3001), (1, 460033001, 525569001)] [] =
     Ok ([(0, (2001, 460033001), (3001, 525569001))], [])"
  by (simp_all add: paired_with_next_def resolve_offpath_sibling_def)

lemma sample_high_level:
  assumes "2 \<le> d" and "d < TREE_DEPTH"
  shows "level_pairs sample_crypto 3 d (sample_level d) [] =
    Ok ([(0, (of_nat (2000 + d), of_nat d), (of_nat (3000 + d), of_nat d))], [])"
proof -
  have "(4::nat) \<le> 2 ^ d" using power_increasing [OF assms(1), of "2::nat"] by simp
  moreover have "(2::nat) ^ d < 2 ^ 64"
    using power_strict_increasing [OF assms(2), of "2::nat"] by (simp add: TREE_DEPTH_def)
  ultimately have "unat (3 :: u64) \<le> 2 ^ d mod 2 ^ 64" by simp
  then show ?thesis using assms(2)
    by (simp add: sample_level_def paired_with_next_def resolve_offpath_sibling_def sample_empty)
qed

lemma sample_walk:
  assumes "2 \<le> d" and "d \<le> TREE_DEPTH"
  shows "foldR (walk_level sample_crypto 3) [d..<TREE_DEPTH] (sample_level d, []) = Ok (sample_level TREE_DEPTH, []) \<and>
    set (walk_trace sample_crypto 3 [d..<TREE_DEPTH] (sample_level d, [])) \<subseteq> node_pairs sample_crypto sample_tree"
  using assms
proof (induction "TREE_DEPTH - d" arbitrary: d)
  case (Suc n)
  then have d: "d < TREE_DEPTH" by simp
  note step = sample_high_level [OF Suc.prems(1) d]
  have up: "[d..<TREE_DEPTH] = d # [Suc d..<TREE_DEPTH]" using d by (simp add: upt_conv_Cons)
  have hp: "map (hash_pair sample_crypto) [(0, (of_nat (2000 + d), of_nat d), (of_nat (3000 + d), of_nat d))] = sample_level (Suc d)"
    by (simp add: hash_pair_def sample_level_def algebra_simps)
  have "3 \<le> (0 + 1) * (2::nat) ^ d" using power_increasing [OF Suc.prems(1), of "2::nat"] by simp
  then have "tree_node sample_crypto sample_tree d (0 + 1) = of_nat d"
    using sample_node_weight [of d "0 + 1"] by (simp only: sample_weight_beyond mult_0_right add_0)
  moreover have "tree_node sample_crypto sample_tree d 0 = of_nat (2000 + d)"
    using sample_node_weight [of d 0] by (simp add: sample_weight_def)
  ultimately have "(of_nat (2000 + d), of_nat d) \<in> node_pairs sample_crypto sample_tree"
    using node_pair_in [OF d, of 0 sample_crypto sample_tree] by simp
  moreover have "foldR (walk_level sample_crypto 3) [Suc d..<TREE_DEPTH] (sample_level (Suc d), []) = Ok (sample_level TREE_DEPTH, []) \<and>
    set (walk_trace sample_crypto 3 [Suc d..<TREE_DEPTH] (sample_level (Suc d), [])) \<subseteq> node_pairs sample_crypto sample_tree"
    by (rule Suc.hyps(1)) (use Suc d in simp_all)
  ultimately show ?case unfolding up foldR.simps walk_trace.simps walk_level_def fst_conv snd_conv step
    by (simp only: rbind.simps prod.case result.case hp fst_conv snd_conv) simp
qed simp

lemma two_levels: "[0..<TREE_DEPTH] = 0 # 1 # [2..<TREE_DEPTH]"
  by (simp add: TREE_DEPTH_def upt_conv_Cons numeral_2_eq_2)

lemma sample_low_hashes:
  "map (hash_pair sample_crypto) [(0, (2000, 65281000), (3000, 65281000)), (1, (460033000, 0), (525569000, 721666000))] =
     [(0, 2001, 3001), (1, 460033001, 525569001)]"
  "map (hash_pair sample_crypto) [(0, (2001, 460033001), (3001, 525569001))] = sample_level 2"
  by (simp_all add: hash_pair_def sample_level_def)

lemma sample_low_pairs:
  "{(2000, 65281000), (460033000, 0), (2001, 460033001)} \<subseteq> node_pairs sample_crypto sample_tree"
  using node_pair_in [of 0 0 sample_crypto sample_tree] node_pair_in [of 0 2 sample_crypto sample_tree]
    node_pair_in [of 1 0 sample_crypto sample_tree]
  unfolding sample_node_weight by (simp add: TREE_DEPTH_def sample_weight_def)

lemma sample_low_walk:
  "walk_level sample_crypto 3 0 ([(0, 2000, 3000), (2, 460033000, 525569000), (3, 0, 721666000)], [65281000]) =
     Ok ([(0, 2001, 3001), (1, 460033001, 525569001)], [])"
  "walk_level sample_crypto 3 1 ([(0, 2001, 3001), (1, 460033001, 525569001)], []) = Ok (sample_level 2, [])"
  unfolding walk_level_def fst_conv snd_conv sample_low_levels rbind.simps prod.case sample_low_hashes by (rule refl)+

lemma two_le: "2 \<le> TREE_DEPTH"
  by (simp add: TREE_DEPTH_def)

lemmas sample_walk_up = sample_walk [OF le_refl two_le]

lemma sample_walk_all:
  "foldR (walk_level sample_crypto 3) [0..<TREE_DEPTH]
     ([(0, 2000, 3000), (2, 460033000, 525569000), (3, 0, 721666000)], [65281000]) = Ok (sample_level TREE_DEPTH, [])"
  unfolding two_levels foldR.simps sample_low_walk rbind.simps using sample_walk_up by (rule conjunct1)

lemma sample_update_pairs: "set (update_pairs sample_crypto sample_update) \<subseteq> node_pairs sample_crypto sample_tree"
proof -
  have "update_pairs sample_crypto sample_update =
      map (fst \<circ> snd) [(0 :: nat, (2000, 65281000), (3000 :: b256, 65281000 :: b256)), (1, (460033000, 0), (525569000, 721666000))] @
      map (fst \<circ> snd) [(0 :: nat, (2001, 460033001), (3001 :: b256, 525569001 :: b256))] @
      walk_trace sample_crypto 3 [2..<TREE_DEPTH] (sample_level 2, [])"
    unfolding update_pairs_def sample_writes rbind.simps prod.case sample_level0 result.case two_levels walk_trace.simps
      sample_update_sel fst_conv snd_conv sample_low_levels sample_low_hashes by (rule refl)
  then have "set (update_pairs sample_crypto sample_update) = {(2000, 65281000), (460033000, 0), (2001, 460033001)} \<union>
      set (walk_trace sample_crypto 3 [2..<TREE_DEPTH] (sample_level 2, []))" by (simp only: set_append) (simp, blast)
  then show ?thesis using sample_walk_up sample_low_pairs by blast
qed

lemma sample_root: "tree_root sample_crypto sample_tree = 2064"
  unfolding tree_root_def sample_node_weight by (simp add: TREE_DEPTH_def sample_weight_def)

lemma sample_apply: "apply_update sample_crypto sample_update (tree_root sample_crypto sample_tree) = Ok (3064, 4)"
  unfolding apply_update_def sample_positions sample_writes walk_old_and_new_def sample_level0 rbind.simps prod.case
    sample_update_sel sample_walk_all sample_root
  by (simp add: sample_level_def TREE_DEPTH_def)

lemma sample_update_binding:
  "binding sample_crypto sample_tree (set (update_pairs sample_crypto sample_update)) (snd ` set (bu_sorted_leaves sample_update))"
proof -
  have "snd ` set (bu_sorted_leaves sample_update) \<subseteq> set sample_tree"
    by (simp add: sample_update_sel) (simp add: sample_tree_def)
  then show ?thesis using sample_binding sample_update_pairs by (simp add: binding_def Un_absorb1)
qed
section \<open>Claims\<close>

text \<open>
  C2. Soundness of \<open>StorageProof::verify\<close>: a proof that recovers the root of a well-formed tree
  reports the value the tree has for the key, and absence when it has none, unless two of the
  hashed pairs or leaves collide. The key zero is the lower guard and is excluded.
\<close>

theorem storage_proof_sound:
  assumes "wf_tree T" and "binding c T (set (proof_pairs c p k)) (set (proof_leaves p k))"
    and "verify c p k = Ok (tree_root c T, v)" and "k \<noteq> 0"
  shows "v = tree_map T k"
  using verify_sound [OF assms] by simp

theorem storage_proof_sound_witness: "Some 7 = tree_map sample_tree 5"
proof -
  have p: "honest_proof sample_crypto sample_tree 5 (Existing (honest_entry sample_crypto sample_tree 2))"
    by (rule honest_existing [OF sample_tree_wf]) (simp_all add: sample_tree_def)
  have "verify sample_crypto (Existing (honest_entry sample_crypto sample_tree 2)) 5 =
      Ok (tree_root sample_crypto sample_tree, Some 7)"
    using p by (simp add: honest_proof_def) (simp add: honest_entry_def sample_tree_def)
  then show ?thesis
    by (rule storage_proof_sound [OF sample_tree_wf binding_honest [OF sample_binding p]]) simp
qed

text \<open>
  C3. Completeness of \<open>StorageProof::verify\<close>: for every key of a well-formed tree there is a proof
  that verifies to its root and to the value it has for the key, and that hashes only pairs and
  leaves of the tree itself.
\<close>

theorem storage_proof_complete:
  assumes wf: "wf_tree T"
  shows "\<exists>p. honest_proof c T k p"
proof (cases "\<exists>i < length T. tl_key (T ! i) = k")
  case True
  then show ?thesis using honest_existing [OF wf] by blast
next
  case False
  then have "\<forall>l \<in> set T. tl_key l \<noteq> k" by (auto simp: in_set_conv_nth)
  then show ?thesis using predecessor_exists [OF wf, of k] honest_absent [OF wf] by blast
qed

theorem storage_proof_complete_witness: "\<exists>p. honest_proof sample_crypto sample_tree 6 p"
  by (rule storage_proof_complete [OF sample_tree_wf])

text \<open>
  C4. \<open>BatchTreeUpdate::apply\<close> refines the sequence of writes on the leaf list. If it accepts an
  update against the root of a well-formed tree, then the root and the leaf count it returns are
  those of the tree after the writes, which is again well-formed, and the map of that tree is the
  old map overridden by the written entries.
\<close>

theorem tree_update_refines:
  assumes "wf_tree T" and "binding c T (set (update_pairs c u)) (snd ` set (bu_sorted_leaves u))"
    and "length T = unat (bu_leaf_count_before u)" and "length T + length (bu_operations u) < 2 ^ 64"
    and "apply_update c u (tree_root c T) = Ok (r', n')"
  shows "wf_tree (tree_writes u T) \<and> r' = tree_root c (tree_writes u T) \<and> unat n' = length (tree_writes u T) \<and>
    tree_map (tree_writes u T) = tree_map T ++ map_of (rev (map snd (zip (bu_operations u) (bu_entries u))))"
  using apply_update_refines [OF assms] by blast

theorem tree_update_refines_witness:
  "wf_tree (tree_writes sample_update sample_tree) \<and>
   3064 = tree_root sample_crypto (tree_writes sample_update sample_tree) \<and>
   tree_map (tree_writes sample_update sample_tree) = tree_map sample_tree ++ [5 \<mapsto> 8, 3 \<mapsto> 11]"
proof -
  have "length sample_tree = unat (bu_leaf_count_before sample_update)"
    and "length sample_tree + length (bu_operations sample_update) < 2 ^ 64"
    by (simp_all add: sample_update_sel sample_tree_def)
  note up = tree_update_refines [OF sample_tree_wf sample_update_binding this sample_apply]
  moreover have "map_of (rev (map snd (zip (bu_operations sample_update) (bu_entries sample_update)))) = [5 \<mapsto> 8, 3 \<mapsto> 11]"
    by (simp add: sample_update_sel)
  ultimately show ?thesis by simp
qed

end
