(* ===== verification/Batch_Types.thy ===== *)
theory Batch_Types
  imports Merkle_Update
begin

text \<open>
  The batch input and output types of \<open>lib/src/types.rs\<close>, field for field, and the 88-byte
  encoding of an L2 to L1 log, which is injective.
\<close>

definition BATCH_INPUT_VERSION :: u32 where "BATCH_INPUT_VERSION = 6"

section \<open>Interop proofs\<close>

record interop_commitment_tree_proofs =
  ict_height_begin :: storage_proof
  ict_root_begin :: storage_proof
  ict_height_end :: storage_proof
  ict_root_end :: storage_proof

record interop_slot_proofs =
  isp_sl_chain_id :: storage_proof
  isp_multichain_height :: storage_proof
  isp_multichain_root :: storage_proof
  isp_commitment_tree :: "interop_commitment_tree_proofs option"

definition PUBDATA_CONTENT_FULL :: u8 where "PUBDATA_CONTENT_FULL = 0"
definition PUBDATA_CONTENT_LOGS_ONLY :: u8 where "PUBDATA_CONTENT_LOGS_ONLY = 1"

section \<open>Transactions and logs\<close>

datatype tx_auth =
  L1 (auth_tx_hash: b256) (abi_encoded: bytes)
| Upgrade (auth_tx_hash: b256) (abi_encoded: bytes)
| L2 (signed_bytes: bytes)
| System (auth_tx_hash: b256) (encoded_2718: bytes)

record tx_input =
  ti_chain_id :: "u64 option"
  ti_gas_used_override :: "u64 option"
  ti_force_fail :: bool
  ti_auth :: tx_auth

record l2_to_l1_log_entry =
  le_l2_shard_id :: u8
  le_is_service :: bool
  le_tx_number_in_block :: u16
  le_sender :: address
  le_key :: b256
  le_value :: b256

definition log_encode :: "l2_to_l1_log_entry \<Rightarrow> bytes" where
  "log_encode l = [le_l2_shard_id l] @ [if le_is_service l then 1 else 0] @
     be_bytes 2 (le_tx_number_in_block l) @ bytes20 (le_sender l) @ bytes32 (le_key l) @ bytes32 (le_value l)"

section \<open>Blocks and batches\<close>

record block_input =
  bi_number :: u64
  bi_timestamp :: u64
  bi_base_fee :: u64
  bi_gas_limit :: u64
  bi_coinbase :: address
  bi_prev_randao :: b256
  bi_transactions :: "tx_input list"
  bi_account_preimages :: "(address \<times> bytes) list"
  bi_block_hashes :: "(u64 \<times> b256) list"
  bi_storage_proofs :: "(b256 \<times> storage_proof) list"
  bi_block_header_hash :: b256
  bi_l2_to_l1_logs :: "l2_to_l1_log_entry list"
  bi_expected_tree_root :: b256

record batch_meta =
  bm_tree_root_before :: b256
  bm_leaf_count_before :: u64
  bm_block_number_before :: u64
  bm_last_block_timestamp_before :: u64
  bm_block_hashes_blake_before :: b256
  bm_previous_block_hashes :: "b256 list"
  bm_upgrade_tx_hash :: b256
  bm_da_commitment_scheme :: u8
  bm_pubdata :: bytes
  bm_multichain_root :: b256
  bm_sl_chain_id :: u64
  bm_blob_versioned_hashes :: "b256 list"
  bm_tree_update :: "batch_tree_update option"
  bm_account_preimages_after :: "(address \<times> bytes) list"
  bm_fri_proof_verification_enabled :: bool
  bm_max_tx_gas_limit :: u64
  bm_pubdata_content :: u8
  bm_l1_tx_filtering_enabled :: bool
  bm_large_contracts_enabled :: bool
  bm_interop_proofs :: "interop_slot_proofs option"

record batch_input =
  in_version :: u32
  in_chain_id :: u64
  in_spec_id :: u8
  in_protocol_version_minor :: u32
  in_blocks :: "block_input list"
  in_batch_meta :: batch_meta
  in_bytecodes :: "(b256 \<times> bytes) list"

record tx_output =
  to_success :: bool
  to_gas_used :: u64
  to_output :: bytes

record block_result =
  br_block_number :: u64
  br_computed_block_header_hash :: b256
  br_tx_results :: "tx_output list"
  br_l2_to_l1_logs :: "l2_to_l1_log_entry list"

record batch_output =
  bo_chain_id :: u64
  bo_block_results :: "block_result list"

section \<open>Log records\<close>

lemma length_log_encode [simp]: "length (log_encode l) = 88"
  by (simp add: log_encode_def)

lemma log_encode_inject: "log_encode l = log_encode m \<longleftrightarrow> l = m"
proof
  assume eq: "log_encode l = log_encode m"
  have "be_bytes 2 (le_tx_number_in_block l) = be_bytes 2 (le_tx_number_in_block m)"
    using eq by (simp add: log_encode_def)
  then have "le_tx_number_in_block l = le_tx_number_in_block m" by (simp add: be_bytes_inject)
  then show "l = m" using eq by (simp add: log_encode_def split: if_splits)
qed simp

end
