(* ===== verification/Account_Props.thy ===== *)
theory Account_Props
  imports Hash_Backend
begin

text \<open>
  Account properties: the 124-byte blob and its decoder, the flat storage keys (both of
  \<open>lib/src/merkle.rs\<close>) and the derivation of every code-dependent field from the deployed code
  (\<open>lib/src/account_props.rs\<close>). The specification side has the encoder, the opcode positions of
  a code and the facts that make the derivation canonical: one code, one leaf.
\<close>

section \<open>The blob\<close>

record account_properties =
  ap_versioning :: u64
  ap_nonce :: u64
  ap_balance :: b256
  ap_bytecode_hash :: b256
  ap_unpadded_code_len :: u32
  ap_artifacts_len :: u32
  ap_observable_bytecode_hash :: b256
  ap_observable_bytecode_len :: u32

datatype account_properties_decode_error = WrongLength (wl_expected: nat) (wl_actual: nat)

definition ENCODED_SIZE :: nat where "ENCODED_SIZE = 124"

definition read_account_properties_field ::
  "nat \<Rightarrow> bytes \<Rightarrow> nat \<Rightarrow> (account_properties_decode_error, bytes) result" where
  "read_account_properties_field n data offset =
     (if offset + n \<le> length data then Ok (take n (drop offset data))
      else Err (WrongLength ENCODED_SIZE (length data)))"

definition ap_decode :: "bytes \<Rightarrow> (account_properties_decode_error, account_properties) result" where
  "ap_decode data =
     (if length data \<noteq> ENCODED_SIZE then Err (WrongLength ENCODED_SIZE (length data))
      else
        rbind (read_account_properties_field 8 data 0) (\<lambda>v.
        rbind (read_account_properties_field 8 data 8) (\<lambda>n.
        rbind (read_account_properties_field 32 data 16) (\<lambda>b.
        rbind (read_account_properties_field 32 data 48) (\<lambda>bh.
        rbind (read_account_properties_field 4 data 80) (\<lambda>cl.
        rbind (read_account_properties_field 4 data 84) (\<lambda>al.
        rbind (read_account_properties_field 32 data 88) (\<lambda>oh.
        rbind (read_account_properties_field 4 data 120) (\<lambda>ol.
        Ok \<lparr>ap_versioning = of_be_bytes v, ap_nonce = of_be_bytes n, ap_balance = of_be_bytes b,
            ap_bytecode_hash = of_be_bytes bh, ap_unpadded_code_len = of_be_bytes cl,
            ap_artifacts_len = of_be_bytes al, ap_observable_bytecode_hash = of_be_bytes oh,
            ap_observable_bytecode_len = of_be_bytes ol\<rparr>)))))))))"

definition ap_hash :: "crypto \<Rightarrow> bytes \<Rightarrow> b256" where
  "ap_hash c encoded = cr_blake2s c encoded"

definition derive_flat_storage_key :: "crypto \<Rightarrow> address \<Rightarrow> b256 \<Rightarrow> b256" where
  "derive_flat_storage_key c addr slot = cr_blake2s c (zeros 12 @ bytes20 addr @ bytes32 slot)"

definition ACCOUNT_PROPERTIES_ADDRESS :: address where
  "ACCOUNT_PROPERTIES_ADDRESS = 0x8003"

definition derive_account_properties_key :: "crypto \<Rightarrow> address \<Rightarrow> b256" where
  "derive_account_properties_key c account =
     derive_flat_storage_key c ACCOUNT_PROPERTIES_ADDRESS (ucast account)"

section \<open>Code fields\<close>

definition EVM_EE_BYTE :: u8 where "EVM_EE_BYTE = 1"
definition DEPLOYED_STATUS_BYTE :: u8 where "DEPLOYED_STATUS_BYTE = 1"
definition DELEGATED_STATUS_BYTE :: u8 where "DELEGATED_STATUS_BYTE = 2"
definition ARTIFACTS_CACHING_CODE_VERSION :: u8 where "ARTIFACTS_CACHING_CODE_VERSION = 1"
definition EIP7702_DELEGATION_MARKER :: bytes where "EIP7702_DELEGATION_MARKER = [0xef, 0x01, 0x00]"
definition BYTECODE_ALIGNMENT :: nat where "BYTECODE_ALIGNMENT = 8"
definition JUMPDEST :: u8 where "JUMPDEST = 0x5b"
definition PUSH1 :: u8 where "PUSH1 = 0x60"
definition PUSH32 :: u8 where "PUSH32 = 0x7f"

record code_fields =
  cf_versioning :: u64
  cf_bytecode_hash :: b256
  cf_unpadded_code_len :: u32
  cf_artifacts_len :: u32
  cf_observable_bytecode_hash :: b256
  cf_observable_bytecode_len :: u32

definition code_fields_empty :: code_fields where
  "code_fields_empty =
     \<lparr>cf_versioning = 0, cf_bytecode_hash = 0, cf_unpadded_code_len = 0, cf_artifacts_len = 0,
      cf_observable_bytecode_hash = 0, cf_observable_bytecode_len = 0\<rparr>"

definition code_fields_of :: "account_properties \<Rightarrow> code_fields" where
  "code_fields_of p =
     \<lparr>cf_versioning = ap_versioning p, cf_bytecode_hash = ap_bytecode_hash p,
      cf_unpadded_code_len = ap_unpadded_code_len p, cf_artifacts_len = ap_artifacts_len p,
      cf_observable_bytecode_hash = ap_observable_bytecode_hash p,
      cf_observable_bytecode_len = ap_observable_bytecode_len p\<rparr>"

text \<open>The index step of the analysis loop: a push skips its immediate bytes.\<close>

definition op_size :: "u8 \<Rightarrow> nat" where
  "op_size opc = (if opc = JUMPDEST then 1
     else if PUSH1 \<le> opc \<and> opc \<le> PUSH32 then 1 + unat (opc - PUSH1 + 1) else 1)"

definition set_bitmap_bit :: "bytes \<Rightarrow> nat \<Rightarrow> bytes" where
  "set_bitmap_bit bitmap i = bitmap[i div 8 := (bitmap ! (i div 8)) OR push_bit (i mod 8) 1]"

lemma op_size_pos: "0 < op_size opc"
  by (simp add: op_size_def)

function jumpdest_loop :: "bytes \<Rightarrow> nat \<Rightarrow> bytes \<Rightarrow> bytes" where
  "jumpdest_loop code i bitmap =
     (if i < length code then
        jumpdest_loop code (i + op_size (code ! i))
          (if code ! i = JUMPDEST then set_bitmap_bit bitmap i else bitmap)
      else bitmap)"
  by pat_completeness auto
termination
  by (relation "measure (\<lambda>(code, i, _). length code - i)") (auto simp: op_size_pos diff_less_mono2)

definition div_ceil :: "nat \<Rightarrow> nat \<Rightarrow> nat" where
  "div_ceil a b = (if a mod b = 0 then a div b else a div b + 1)"

definition evm_jumpdest_bitmap :: "bytes \<Rightarrow> bytes" where
  "evm_jumpdest_bitmap code = jumpdest_loop code 0 (zeros (div_ceil (length code) 64 * 8))"

definition versioning :: "u8 \<Rightarrow> u8 \<Rightarrow> u64" where
  "versioning status code_version =
     push_bit 56 (ucast status) OR push_bit 48 (ucast EVM_EE_BYTE) OR push_bit 40 (ucast code_version)"

definition is_delegation :: "bytes \<Rightarrow> bool" where
  "is_delegation code \<longleftrightarrow> length code = 23 \<and> take 3 code = EIP7702_DELEGATION_MARKER"

definition code_artifacts :: "bytes \<Rightarrow> bytes" where
  "code_artifacts code = (if is_delegation code then [] else evm_jumpdest_bitmap code)"

definition padding_len :: "bytes \<Rightarrow> nat" where
  "padding_len code =
     (BYTECODE_ALIGNMENT - length code mod BYTECODE_ALIGNMENT) mod BYTECODE_ALIGNMENT"

definition evm_code_fields :: "crypto \<Rightarrow> bytes \<Rightarrow> code_fields" where
  "evm_code_fields c code =
     (let artifacts = code_artifacts code;
          status = (if is_delegation code then DELEGATED_STATUS_BYTE else DEPLOYED_STATUS_BYTE)
      in \<lparr>cf_versioning = versioning status ARTIFACTS_CACHING_CODE_VERSION,
          cf_bytecode_hash = cr_blake2s c (code @ zeros (padding_len code) @ artifacts),
          cf_unpadded_code_len = of_nat (length code),
          cf_artifacts_len = of_nat (length artifacts),
          cf_observable_bytecode_hash = cr_keccak256 c code,
          cf_observable_bytecode_len = of_nat (length code)\<rparr>)"

definition no_code_fields_valid :: "crypto \<Rightarrow> account_properties \<Rightarrow> bool" where
  "no_code_fields_valid c p \<longleftrightarrow>
     code_fields_of p = code_fields_empty \<or> code_fields_of p = evm_code_fields c []"

definition is_zeroed_account :: "account_properties \<Rightarrow> bool" where
  "is_zeroed_account p \<longleftrightarrow>
     ap_nonce p = 0 \<and> ap_balance p = 0 \<and> code_fields_of p = code_fields_empty"

definition evm_bytecode_preimage :: "bytes \<Rightarrow> bytes" where
  "evm_bytecode_preimage code = code @ zeros (padding_len code) @ code_artifacts code"

section \<open>Specification\<close>

definition ap_encode :: "account_properties \<Rightarrow> bytes" where
  "ap_encode p = u64_be (ap_versioning p) @ u64_be (ap_nonce p) @ bytes32 (ap_balance p) @
     bytes32 (ap_bytecode_hash p) @ u32_be (ap_unpadded_code_len p) @ u32_be (ap_artifacts_len p) @
     bytes32 (ap_observable_bytecode_hash p) @ u32_be (ap_observable_bytecode_len p)"

text \<open>Position \<open>k\<close> starts an instruction when the code is read from position \<open>i\<close> on.\<close>

inductive opcode_at :: "bytes \<Rightarrow> nat \<Rightarrow> nat \<Rightarrow> bool" where
  here: "opcode_at code i i"
| skip: "i < length code \<Longrightarrow> opcode_at code (i + op_size (code ! i)) k \<Longrightarrow> opcode_at code i k"

inductive_cases opcode_atE: "opcode_at code i k"

definition bitmap_bit :: "bytes \<Rightarrow> nat \<Rightarrow> bool" where
  "bitmap_bit bm k \<longleftrightarrow> k div 8 < length bm \<and> bit (bm ! (k div 8)) (k mod 8)"

section \<open>Round trip of the blob\<close>

lemma length_ap_encode [simp]: "length (ap_encode p) = 124"
  by (simp add: ap_encode_def)

lemma decode_encode: "ap_decode (ap_encode p) = Ok p"
  by (simp add: ap_decode_def read_account_properties_field_def ENCODED_SIZE_def)
     (simp add: ap_encode_def)

lemma encode_decode:
  assumes "ap_decode data = Ok p"
  shows "ap_encode p = data"
proof -
  have len: "length data = 124" using assms by (auto simp: ap_decode_def ENCODED_SIZE_def split: if_splits)
  have field: "be_bytes n (of_be_bytes (take n (drop k data)) :: 'a::len word) = take n (drop k data)"
    if "k + n \<le> 124" and "8 * n \<le> LENGTH('a)" for n k
    by (rule be_of_be_bytes) (use that len in simp_all)
  have join: "take m (drop k data) @ drop (k + m) data = drop k data" for m k
    by (metis add.commute append_take_drop_id drop_drop)
  have ends: "u64_be (of_be_bytes (take 8 data)) = take 8 data"
    "u32_be (of_be_bytes (drop 120 data)) = drop 120 data"
    by (rule be_of_be_bytes; simp add: len)+
  show ?thesis
    using assms len join [of 8 8] join [of 32 16] join [of 32 48] join [of 4 80] join [of 4 84]
      join [of 32 88]
    by (simp add: ap_decode_def read_account_properties_field_def ENCODED_SIZE_def, simp add: ap_encode_def)
       (auto simp: field ends)
qed

lemma zeroed_account_blob: "is_zeroed_account p \<longleftrightarrow> ap_encode p = zeros 124"
proof
  assume "is_zeroed_account p"
  then show "ap_encode p = zeros 124"
    by (simp add: is_zeroed_account_def code_fields_of_def code_fields_empty_def ap_encode_def zeros_def
        flip: replicate_add)
next
  let ?z = "\<lparr>ap_versioning = 0, ap_nonce = 0, ap_balance = 0, ap_bytecode_hash = 0,
    ap_unpadded_code_len = 0, ap_artifacts_len = 0, ap_observable_bytecode_hash = 0,
    ap_observable_bytecode_len = 0\<rparr>"
  assume "ap_encode p = zeros 124"
  also have "zeros 124 = ap_encode ?z" by (simp add: ap_encode_def zeros_def flip: replicate_add)
  finally have "p = ?z" using decode_encode by (metis result.inject(2))
  then show "is_zeroed_account p"
    by (simp add: is_zeroed_account_def code_fields_of_def code_fields_empty_def)
qed

section \<open>The jump destination bitmap\<close>

lemma length_jumpdest_loop [simp]: "length (jumpdest_loop code i bm) = length bm"
  by (induction code i bm rule: jumpdest_loop.induct)
     (subst jumpdest_loop.simps, simp add: set_bitmap_bit_def del: jumpdest_loop.simps)

declare jumpdest_loop.simps [simp del]

lemma bitmap_bit_set:
  assumes "i div 8 < length bm"
  shows "bitmap_bit (set_bitmap_bit bm i) k \<longleftrightarrow> k = i \<or> bitmap_bit bm k"
proof (cases "k div 8 = i div 8")
  case True
  then have "k = i \<longleftrightarrow> k mod 8 = i mod 8" by (metis div_mult_mod_eq)
  then show ?thesis
    using True assms by (auto simp: bitmap_bit_def set_bitmap_bit_def bit_simps)
next
  case False
  then show ?thesis by (auto simp: bitmap_bit_def set_bitmap_bit_def)
qed

lemma opcode_at_step:
  "i < length code \<Longrightarrow> opcode_at code i k \<longleftrightarrow> k = i \<or> opcode_at code (i + op_size (code ! i)) k"
  by (auto intro: opcode_at.intros elim: opcode_atE)

lemma opcode_at_end: "\<not> i < length code \<Longrightarrow> opcode_at code i k \<Longrightarrow> k = i"
  by (auto elim: opcode_atE)

lemma jumpdest_loop_bits:
  assumes "length code \<le> 8 * length bm"
  shows "bitmap_bit (jumpdest_loop code i bm) k \<longleftrightarrow>
    bitmap_bit bm k \<or> k < length code \<and> opcode_at code i k \<and> code ! k = JUMPDEST"
  using assms
proof (induction code i bm rule: jumpdest_loop.induct)
  case (1 code i bm)
  show ?case
  proof (cases "i < length code")
    case True
    let ?bm = "if code ! i = JUMPDEST then set_bitmap_bit bm i else bm"
    have "i div 8 < length bm" using True 1(2) by auto
    then have bm: "bitmap_bit ?bm k \<longleftrightarrow> bitmap_bit bm k \<or> k = i \<and> code ! i = JUMPDEST"
      by (auto simp: bitmap_bit_set)
    have "length code \<le> 8 * length ?bm" using 1(2) by (simp add: set_bitmap_bit_def)
    then have "bitmap_bit (jumpdest_loop code (i + op_size (code ! i)) ?bm) k \<longleftrightarrow> bitmap_bit ?bm k \<or>
        k < length code \<and> opcode_at code (i + op_size (code ! i)) k \<and> code ! k = JUMPDEST"
      by (rule 1(1) [OF True])
    then show ?thesis
      using True by (subst jumpdest_loop.simps) (auto simp: bm opcode_at_step)
  next
    case False
    then show ?thesis by (subst jumpdest_loop.simps) (auto dest: opcode_at_end)
  qed
qed

lemma div_ceil_bounds:
  assumes "0 < b"
  shows "a \<le> div_ceil a b * b \<and> div_ceil a b * b < a + b"
proof (cases "a mod b = 0")
  case True
  then have "a div b * b = a" by auto
  then show ?thesis using True assms by (simp add: div_ceil_def)
next
  case False
  have "b * (a div b) + a mod b = a" by (rule mult_div_mod_eq)
  moreover have "a mod b < b" using assms by (rule mod_less_divisor)
  moreover have "div_ceil a b * b = b * (a div b) + b" using False by (simp add: div_ceil_def)
  ultimately show ?thesis using False by linarith
qed

lemma bitmap_bit_zeros [simp]: "\<not> bitmap_bit (zeros n) k"
  by (auto simp: bitmap_bit_def zeros_def)

lemma jumpdest_bitmap_bits:
  "bitmap_bit (evm_jumpdest_bitmap code) k \<longleftrightarrow>
     k < length code \<and> opcode_at code 0 k \<and> code ! k = JUMPDEST"
  using div_ceil_bounds [of 64 "length code"]
  by (simp add: evm_jumpdest_bitmap_def jumpdest_loop_bits)

lemma length_jumpdest_bitmap: "length (evm_jumpdest_bitmap code) = 8 * div_ceil (length code) 64"
  by (simp add: evm_jumpdest_bitmap_def)

section \<open>Canonical leaves\<close>

lemma padding_aligns: "BYTECODE_ALIGNMENT dvd length code + padding_len code"
proof (cases "length code mod 8 = 0")
  case True
  then show ?thesis by (simp add: padding_len_def BYTECODE_ALIGNMENT_def dvd_eq_mod_eq_0)
next
  case False
  then have pad: "padding_len code = 8 - length code mod 8"
    by (simp add: padding_len_def BYTECODE_ALIGNMENT_def)
  have "8 * (length code div 8) + length code mod 8 = length code" by (rule mult_div_mod_eq)
  moreover have "length code mod 8 < 8" by (rule mod_less_divisor) simp
  ultimately have "length code + padding_len code = 8 * (length code div 8) + 8"
    unfolding pad by linarith
  then show ?thesis by (simp add: BYTECODE_ALIGNMENT_def)
qed

lemma preimage_aligned: "BYTECODE_ALIGNMENT dvd length (evm_bytecode_preimage code)"
proof -
  have "BYTECODE_ALIGNMENT dvd length (code_artifacts code)"
    by (simp add: code_artifacts_def length_jumpdest_bitmap BYTECODE_ALIGNMENT_def)
  then have "BYTECODE_ALIGNMENT dvd (length code + padding_len code) + length (code_artifacts code)"
    by (rule dvd_add [OF padding_aligns])
  then show ?thesis by (simp add: evm_bytecode_preimage_def add.assoc)
qed

lemma code_fields_never_empty: "evm_code_fields c code \<noteq> code_fields_empty"
proof -
  have "versioning DELEGATED_STATUS_BYTE ARTIFACTS_CACHING_CODE_VERSION \<noteq> 0"
    and "versioning DEPLOYED_STATUS_BYTE ARTIFACTS_CACHING_CODE_VERSION \<noteq> 0"
    by (simp_all add: versioning_def DELEGATED_STATUS_BYTE_def DEPLOYED_STATUS_BYTE_def EVM_EE_BYTE_def
        ARTIFACTS_CACHING_CODE_VERSION_def push_bit_eq_mult)
  then show ?thesis by (simp add: evm_code_fields_def code_fields_empty_def Let_def)
qed

section \<open>Claims\<close>

text \<open>
  The account properties decoder accepts exactly the 124-byte encodings, returns the encoded
  properties, and reports the wrong length of everything else.
\<close>

theorem account_properties_codec:
  "(ap_decode data = Ok p \<longleftrightarrow> data = ap_encode p) \<and>
   (ap_decode data = Err e \<longleftrightarrow> length data \<noteq> 124 \<and> e = WrongLength 124 (length data))"
proof
  show "ap_decode data = Ok p \<longleftrightarrow> data = ap_encode p" using decode_encode encode_decode by auto
  show "ap_decode data = Err e \<longleftrightarrow> length data \<noteq> 124 \<and> e = WrongLength 124 (length data)"
    by (auto simp: ap_decode_def read_account_properties_field_def ENCODED_SIZE_def)
qed



end
