(* ===== verification/Fixed_Height_Tree.thy ===== *)
theory Fixed_Height_Tree
  imports Hash_Backend
begin

text \<open>
  The in-place level fold that \<open>commitment.rs\<close> (\<open>fixed_height_keccak_root\<close>) and
  \<open>block_roots.rs\<close> (\<open>merkle_root\<close>) share up to the node hash: the array is overwritten from the
  left while it is read, and a missing right sibling is the empty subtree of the level. The
  locale \<open>padded_tree\<close> states what both rely on, a table of empty-subtree hashes under the
  recurrence of the node hash, and proves the fold equal to the root of the complete tree whose
  leaves are padded with the empty leaf, and binding for the padded leaves.
\<close>

section \<open>The loops\<close>

definition fold_pair ::
  "(b256 \<Rightarrow> b256 \<Rightarrow> b256) \<Rightarrow> b256 \<Rightarrow> nat \<Rightarrow> nat \<Rightarrow> b256 list \<Rightarrow> b256 list" where
  "fold_pair f empty_hash count i nodes =
     nodes[i := f (nodes ! (i * 2)) (if i * 2 + 1 < count then nodes ! (i * 2 + 1) else empty_hash)]"

definition fold_level ::
  "(b256 \<Rightarrow> b256 \<Rightarrow> b256) \<Rightarrow> b256 list \<Rightarrow> nat \<Rightarrow> b256 list \<times> nat \<Rightarrow> b256 list \<times> nat" where
  "fold_level f empties level = (\<lambda>(nodes, count).
     let pairs = (count + 1) div 2
     in (fold (fold_pair f (empties ! level) count) [0..<pairs] nodes, pairs))"

definition fold_levels :: "(b256 \<Rightarrow> b256 \<Rightarrow> b256) \<Rightarrow> b256 list \<Rightarrow> nat \<Rightarrow> b256 list \<Rightarrow> b256 list \<times> nat" where
  "fold_levels f empties height leaves =
     fold (fold_level f empties) [0..<height] (leaves, length leaves)"

definition empties_table :: "(b256 \<Rightarrow> b256 \<Rightarrow> b256) \<Rightarrow> b256 \<Rightarrow> nat \<Rightarrow> b256 list" where
  "empties_table f empty_leaf height =
     fold (\<lambda>level hashes. hashes @ [f (hashes ! (level - 1)) (hashes ! (level - 1))])
       [1..<height + 1] [empty_leaf]"

section \<open>The complete tree\<close>

fun padded_node :: "(b256 \<Rightarrow> b256 \<Rightarrow> b256) \<Rightarrow> b256 \<Rightarrow> b256 list \<Rightarrow> nat \<Rightarrow> nat \<Rightarrow> b256" where
  "padded_node f e leaves 0 i = (if i < length leaves then leaves ! i else e)"
| "padded_node f e leaves (Suc d) i =
     f (padded_node f e leaves d (2 * i)) (padded_node f e leaves d (2 * i + 1))"

definition padded_root :: "(b256 \<Rightarrow> b256 \<Rightarrow> b256) \<Rightarrow> b256 \<Rightarrow> nat \<Rightarrow> b256 list \<Rightarrow> b256" where
  "padded_root f e height leaves = padded_node f e leaves height 0"

definition padded_pairs ::
  "(b256 \<Rightarrow> b256 \<Rightarrow> b256) \<Rightarrow> b256 \<Rightarrow> nat \<Rightarrow> b256 list \<Rightarrow> (b256 \<times> b256) set" where
  "padded_pairs f e height leaves =
     {(padded_node f e leaves d (2 * i), padded_node f e leaves d (2 * i + 1)) | d i.
        d < height \<and> i < 2 ^ (height - Suc d)}"

section \<open>One level in place\<close>

lemma fold_pairs_prefix:
  assumes "2 * k \<le> count + 1" and "count \<le> length nodes"
  shows "fold (fold_pair f e count) [0..<k] nodes =
    map (\<lambda>j. if j < k then f (nodes ! (j * 2)) (if j * 2 + 1 < count then nodes ! (j * 2 + 1) else e)
             else nodes ! j) [0..<length nodes]"
  using assms(1)
proof (induction k)
  case 0
  then show ?case by (simp add: map_nth)
next
  case (Suc k)
  then have "2 * k < length nodes" using assms(2) by simp
  then show ?case using Suc assms(2)
    by (intro nth_equalityI) (auto simp: fold_pair_def nth_list_update less_Suc_eq)
qed

lemma fold_level_nodes:
  assumes "0 < count" and "count \<le> length nodes" and "fold_level f es d (nodes, count) = (nodes', count')"
  shows "count' = (count + 1) div 2" and "0 < count'" and "count' \<le> length nodes'"
    and "\<And>j. j < count' \<Longrightarrow>
      nodes' ! j = f (nodes ! (j * 2)) (if j * 2 + 1 < count then nodes ! (j * 2 + 1) else es ! d)"
proof -
  have k: "2 * ((count + 1) div 2) \<le> count + 1" by simp
  show c': "count' = (count + 1) div 2" using assms(3) by (auto simp: fold_level_def Let_def)
  have n': "nodes' = map (\<lambda>j. if j < count' then f (nodes ! (j * 2))
        (if j * 2 + 1 < count then nodes ! (j * 2 + 1) else es ! d) else nodes ! j) [0..<length nodes]"
    using assms(3) fold_pairs_prefix [OF k assms(2)] by (auto simp: fold_level_def Let_def c')
  show "0 < count'" "count' \<le> length nodes'" using assms(1,2) by (auto simp: c' n')
  then show "nodes' ! j = f (nodes ! (j * 2)) (if j * 2 + 1 < count then nodes ! (j * 2 + 1) else es ! d)"
    if "j < count'" for j using that by (simp add: n')
qed

section \<open>The contract of the empty-subtree table\<close>

locale padded_tree =
  fixes compress :: "b256 \<Rightarrow> b256 \<Rightarrow> b256" and empties :: "b256 list"
  assumes nonempty: "empties \<noteq> []"
    and recurrence: "Suc i < length empties \<Longrightarrow> empties ! Suc i = compress (empties ! i) (empties ! i)"
begin

lemma node_beyond:
  assumes "d < length empties" and "length leaves \<le> i * 2 ^ d"
  shows "padded_node compress (empties ! 0) leaves d i = empties ! d"
  using assms
proof (induction d arbitrary: i)
  case (Suc d)
  have "length leaves \<le> (2 * i) * 2 ^ d" "length leaves \<le> (2 * i + 1) * 2 ^ d"
    using Suc.prems(2) by (simp_all add: algebra_simps)
  then show ?case using Suc by (simp add: recurrence)
qed simp

lemma fold_levels_nodes:
  assumes "leaves \<noteq> []" and "d < length empties"
  shows "\<exists>nodes count. fold_levels compress empties d leaves = (nodes, count) \<and>
    0 < count \<and> count \<le> length nodes \<and>
    (\<forall>j < count. nodes ! j = padded_node compress (empties ! 0) leaves d j) \<and>
    (\<forall>j \<ge> count. padded_node compress (empties ! 0) leaves d j = empties ! d)"
  using assms(2)
proof (induction d)
  case 0
  then show ?case using assms(1) by (auto simp: fold_levels_def)
next
  case (Suc d)
  then obtain nodes count where st: "fold_levels compress empties d leaves = (nodes, count)"
      "0 < count" "count \<le> length nodes"
      "\<And>j. j < count \<Longrightarrow> nodes ! j = padded_node compress (empties ! 0) leaves d j"
      "\<And>j. count \<le> j \<Longrightarrow> padded_node compress (empties ! 0) leaves d j = empties ! d" by auto
  obtain nodes' count' where l: "fold_level compress empties d (nodes, count) = (nodes', count')"
    by fastforce
  note lv = fold_level_nodes [OF st(2,3) l]
  have "fold_levels compress empties (Suc d) leaves = (nodes', count')"
    using st(1) l by (simp add: fold_levels_def)
  moreover have "nodes' ! j = padded_node compress (empties ! 0) leaves (Suc d) j" if "j < count'" for j
  proof -
    have "j * 2 < count" using that lv(1) by linarith
    then show ?thesis using lv(4) [OF that] st(4,5) by (simp add: mult.commute)
  qed
  moreover have "padded_node compress (empties ! 0) leaves (Suc d) j = empties ! Suc d" if "count' \<le> j" for j
    using that lv(1) st(5) Suc.prems by (simp add: recurrence)
  ultimately show ?case using lv(2,3) by blast
qed

lemma fold_levels_root:
  assumes "leaves \<noteq> []"
  shows "fst (fold_levels compress empties (length empties - 1) leaves) ! 0
    = padded_root compress (empties ! 0) (length empties - 1) leaves"
proof -
  have "length empties - 1 < length empties" using nonempty by simp
  then show ?thesis using fold_levels_nodes [OF assms] by (force simp: padded_root_def)
qed

lemma empty_root: "empties ! (length empties - 1) = padded_root compress (empties ! 0) (length empties - 1) []"
  using nonempty by (simp add: padded_root_def node_beyond)

end

text \<open>Equal roots of two padded trees have equal padded leaves, up to a collision.\<close>

lemma padded_down:
  assumes inj: "inj_on (\<lambda>(l, r). f l r) (padded_pairs f e h xs \<union> padded_pairs f e h ys)"
    and root: "padded_root f e h xs = padded_root f e h ys" and "d \<le> h" and "i < 2 ^ (h - d)"
  shows "padded_node f e xs d i = padded_node f e ys d i"
  using assms(3,4)
proof (induction "h - d" arbitrary: d i)
  case 0
  then show ?case using root by (simp add: padded_root_def)
next
  case (Suc n)
  then have d: "d < h" by simp
  have "(2::nat) ^ (h - d) = 2 * 2 ^ (h - Suc d)" using d by (simp flip: power_Suc)
  then have j: "i div 2 < 2 ^ (h - Suc d)" using Suc.prems(2) by auto
  let ?p = "\<lambda>zs. (padded_node f e zs d (2 * (i div 2)), padded_node f e zs d (2 * (i div 2) + 1))"
  have "(\<lambda>(l, r). f l r) (?p xs) = (\<lambda>(l, r). f l r) (?p ys)"
    using Suc.hyps(1) [of "Suc d" "i div 2"] Suc.hyps(2) d j by simp
  moreover have "?p xs \<in> padded_pairs f e h xs" "?p ys \<in> padded_pairs f e h ys"
    using d j by (auto simp: padded_pairs_def)
  ultimately have "?p xs = ?p ys" using inj_onD [OF inj] by blast
  then show ?case by (cases "even i") (auto elim!: evenE oddE)
qed

lemma padded_root_binds:
  assumes "inj_on (\<lambda>(l, r). f l r) (padded_pairs f e h xs \<union> padded_pairs f e h ys)"
    and "padded_root f e h xs = padded_root f e h ys"
    and len: "length xs \<le> 2 ^ h" "length ys \<le> 2 ^ h"
  shows "xs @ replicate (2 ^ h - length xs) e = ys @ replicate (2 ^ h - length ys) e"
proof (rule nth_equalityI)
  fix i assume "i < length (xs @ replicate (2 ^ h - length xs) e)"
  then have i: "i < 2 ^ h" using len by simp
  have at: "(zs @ replicate (2 ^ h - length zs) e) ! i = padded_node f e zs 0 i" if "length zs \<le> 2 ^ h" for zs
    using i that by (simp add: nth_append)
  show "(xs @ replicate (2 ^ h - length xs) e) ! i = (ys @ replicate (2 ^ h - length ys) e) ! i"
    unfolding at [OF len(1)] at [OF len(2)]
    by (rule padded_down [OF assms(1,2)]) (use i in simp_all)
qed (use len in simp)

section \<open>The table\<close>

lemma empties_table_Suc:
  "empties_table f e (Suc h) = empties_table f e h @ [f (empties_table f e h ! h) (empties_table f e h ! h)]"
proof -
  have "[1..<Suc h + 1] = [1..<h + 1] @ [Suc h]" by simp
  then show ?thesis by (simp add: empties_table_def del: upt_Suc)
qed

lemma empties_table_zero: "empties_table f e 0 = [e]"
  by (simp add: empties_table_def)

lemma length_empties_table [simp]: "length (empties_table f e h) = Suc h"
  by (induction h) (simp_all add: empties_table_Suc empties_table_zero)

lemma empties_table_ne [simp]: "empties_table f e h \<noteq> []"
  using length_empties_table [of f e h] by (metis list.size(3) nat.distinct(1))

lemma empties_table_0 [simp]: "empties_table f e h ! 0 = e"
  by (induction h) (simp_all add: empties_table_Suc empties_table_zero nth_append)

lemma empties_table_nth: "Suc i < Suc h \<Longrightarrow>
    empties_table f e h ! Suc i = f (empties_table f e h ! i) (empties_table f e h ! i)"
  by (induction h) (auto simp: empties_table_Suc nth_append less_Suc_eq)

lemma empties_table_padded: "padded_tree f (empties_table f e h)"
  by unfold_locales (use length_empties_table [of f e h] in \<open>fastforce simp: empties_table_nth\<close>)+

end
