(* ===== verification/Commitment.thy ===== *)
theory Commitment
  imports Fixed_Height_Tree Batch_Types
begin

text \<open>
  Batch commitments (\<open>lib/src/commitment.rs\<close>): the state commitment, the L2 to L1 log tree, the
  chain batch root, the batch output, chain config and public input preimages, the priority
  operation hash, the log-only pubdata and the DA commitments. Every hash is split into the
  preimage the code assembles and the hash of it, so that the lemmas below can say which fields a
  commitment pins: each preimage is injective in the fields of its layout.
\<close>

section \<open>Node hashes and state commitment\<close>

definition keccak_compress :: "crypto \<Rightarrow> b256 \<Rightarrow> b256 \<Rightarrow> b256" where
  "keccak_compress c l r = cr_keccak256 c (bytes32 l @ bytes32 r)"

definition keccak_two :: "crypto \<Rightarrow> b256 \<Rightarrow> b256 \<Rightarrow> b256" where
  "keccak_two c a b = keccak_compress c a b"

definition state_commitment_preimage :: "b256 \<Rightarrow> u64 \<Rightarrow> u64 \<Rightarrow> b256 \<Rightarrow> u64 \<Rightarrow> bytes" where
  "state_commitment_preimage tree_root_hash leaf_count block_number hashes_blake last_block_timestamp =
     bytes32 tree_root_hash @ u64_be leaf_count @ u64_be block_number @ bytes32 hashes_blake @
     u64_be last_block_timestamp"

definition state_commitment_hash :: "crypto \<Rightarrow> b256 \<Rightarrow> u64 \<Rightarrow> u64 \<Rightarrow> b256 \<Rightarrow> u64 \<Rightarrow> b256" where
  "state_commitment_hash c tree_root_hash leaf_count block_number hashes_blake last_block_timestamp =
     cr_blake2s c (state_commitment_preimage tree_root_hash leaf_count block_number hashes_blake
       last_block_timestamp)"

definition ring_preimage :: "b256 list \<Rightarrow> b256 \<Rightarrow> bytes" where
  "ring_preimage previous_255_hashes current_block_hash =
     concat (map bytes32 previous_255_hashes) @ bytes32 current_block_hash"

definition block_hashes_blake :: "crypto \<Rightarrow> b256 list \<Rightarrow> b256 \<Rightarrow> b256" where
  "block_hashes_blake c previous_255_hashes current_block_hash =
     cr_blake2s c (ring_preimage previous_255_hashes current_block_hash)"

section \<open>Log tree and chain batch root\<close>

definition L2_TO_L1_LOG_SIZE :: nat where "L2_TO_L1_LOG_SIZE = 88"
definition L2_TO_L1_TREE_HEIGHT :: nat where "L2_TO_L1_TREE_HEIGHT = 14"

definition fixed_height_keccak_root :: "crypto \<Rightarrow> b256 list \<Rightarrow> b256 list \<Rightarrow> (panic, b256) result" where
  "fixed_height_keccak_root c leaves empties =
     (let height = length empties - 1
      in rbind (ensure (length leaves \<le> 2 ^ height) LeafCountExceedsCapacity) (\<lambda>_.
         if leaves = [] then Ok (empties ! height)
         else Ok (fst (fold_levels (keccak_compress c) empties height leaves) ! 0)))"

definition keccak_empty_subtree_hashes :: "crypto \<Rightarrow> b256 \<Rightarrow> nat \<Rightarrow> b256 list" where
  "keccak_empty_subtree_hashes c empty_leaf_hash height =
     empties_table (keccak_compress c) empty_leaf_hash height"

definition l2_to_l1_logs_root :: "crypto \<Rightarrow> bytes list \<Rightarrow> (panic, b256) result" where
  "l2_to_l1_logs_root c encoded_logs =
     (let empty_hashes = keccak_empty_subtree_hashes c (cr_keccak256 c (zeros L2_TO_L1_LOG_SIZE))
            L2_TO_L1_TREE_HEIGHT;
          leaves = map (cr_keccak256 c) encoded_logs
      in fixed_height_keccak_root c leaves empty_hashes)"

definition CHAIN_BATCH_ROOT_EMPTY_SUBTREE_HASHES :: "b256 list" where
  "CHAIN_BATCH_ROOT_EMPTY_SUBTREE_HASHES =
     [0,
      0xad3228b676f7d3cd4284a5443f17f1962b36e491b30a40b2405849e597ba5fb5,
      0xb4c11951957c6f8f642c4af61cd6b24640fec6dc7fc607ee8206a99e92410d30,
      0x21ddb9a356815c3fac1026b6dec5df3124afbadb485c9ba5a3e3398a04b7ba85]"

datatype chain_batch_root_layout = TwoPreimageKeccak | HeightThreeMerkle

fun chain_batch_root ::
  "crypto \<Rightarrow> chain_batch_root_layout \<Rightarrow> b256 \<Rightarrow> b256 \<Rightarrow> b256 \<Rightarrow> b256 \<Rightarrow> (panic, b256) result" where
  "chain_batch_root c TwoPreimageKeccak l2_logs_root multichain_root_hash ct_begin ct_end =
     Ok (keccak_compress c l2_logs_root multichain_root_hash)"
| "chain_batch_root c HeightThreeMerkle l2_logs_root multichain_root_hash ct_begin ct_end =
     fixed_height_keccak_root c [l2_logs_root, multichain_root_hash, ct_begin, ct_end]
       CHAIN_BATCH_ROOT_EMPTY_SUBTREE_HASHES"

section \<open>Batch output\<close>

datatype batch_output_layout = BO_V30 | BO_V31 | BO_AtlasV4

record batch_output_args =
  oa_chain_id :: u64
  oa_first_block_timestamp :: u64
  oa_last_block_timestamp :: u64
  oa_da_commitment_scheme :: u8
  oa_da_commitment :: b256
  oa_number_of_layer1_txs :: u64
  oa_number_of_layer2_txs :: u64
  oa_priority_operations_hash :: b256
  oa_l2_to_l1_logs_root_hash :: b256
  oa_upgrade_tx_hash :: b256
  oa_interop_roots_rolling_hash :: b256
  oa_settlement_layer_chain_id :: u64

definition batch_output_preimage :: "batch_output_layout \<Rightarrow> batch_output_args \<Rightarrow> bytes" where
  "batch_output_preimage layout a =
     (let v31_tail = (layout \<noteq> BO_V30)
      in (if layout \<noteq> BO_AtlasV4 then zeros 24 @ u64_be (oa_chain_id a) else []) @
         u64_be (oa_first_block_timestamp a) @ u64_be (oa_last_block_timestamp a) @
         zeros 31 @ [oa_da_commitment_scheme a] @ bytes32 (oa_da_commitment a) @
         zeros 24 @ u64_be (oa_number_of_layer1_txs a) @
         (if v31_tail then zeros 24 @ u64_be (oa_number_of_layer2_txs a) else []) @
         bytes32 (oa_priority_operations_hash a) @ bytes32 (oa_l2_to_l1_logs_root_hash a) @
         bytes32 (oa_upgrade_tx_hash a) @ bytes32 (oa_interop_roots_rolling_hash a) @
         (if v31_tail then zeros 24 @ u64_be (oa_settlement_layer_chain_id a) else []))"

definition batch_output_hash_native :: "crypto \<Rightarrow> batch_output_layout \<Rightarrow> batch_output_args \<Rightarrow> b256" where
  "batch_output_hash_native c layout a = cr_keccak256 c (batch_output_preimage layout a)"

section \<open>Chain config\<close>

datatype chain_config_layout = CC_AtlasV4 | CC_AtlasV5

record chain_config =
  cc_chain_id :: u64
  cc_fri_proof_verification_enabled :: bool
  cc_max_tx_gas_limit :: u64
  cc_pubdata_content :: u8
  cc_l1_tx_filtering_enabled :: bool
  cc_large_contracts_enabled :: bool

definition chain_config_of_batch :: "batch_input \<Rightarrow> chain_config" where
  "chain_config_of_batch inp =
     (let meta = in_batch_meta inp
      in \<lparr>cc_chain_id = in_chain_id inp,
          cc_fri_proof_verification_enabled = bm_fri_proof_verification_enabled meta,
          cc_max_tx_gas_limit = bm_max_tx_gas_limit meta,
          cc_pubdata_content = bm_pubdata_content meta,
          cc_l1_tx_filtering_enabled = bm_l1_tx_filtering_enabled meta,
          cc_large_contracts_enabled = bm_large_contracts_enabled meta\<rparr>)"

definition bool_byte :: "bool \<Rightarrow> u8" where
  "bool_byte b = (if b then 1 else 0)"

definition chain_config_preimage :: "chain_config_layout \<Rightarrow> chain_config \<Rightarrow> bytes" where
  "chain_config_preimage layout config =
     (let data = zeros 192;
          data = copy_at data 24 (u64_be (cc_chain_id config));
          data = data[63 := bool_byte (cc_fri_proof_verification_enabled config)];
          data = copy_at data 88 (u64_be (cc_max_tx_gas_limit config));
          data = data[127 := cc_pubdata_content config];
          data = data[159 := bool_byte (cc_l1_tx_filtering_enabled config)];
          data = data[191 := bool_byte (cc_large_contracts_enabled config)];
          len = (case layout of CC_AtlasV4 \<Rightarrow> 128 | CC_AtlasV5 \<Rightarrow> 192)
      in take len data)"

definition chain_config_hash :: "crypto \<Rightarrow> chain_config_layout \<Rightarrow> chain_config \<Rightarrow> b256" where
  "chain_config_hash c layout config = cr_keccak256 c (chain_config_preimage layout config)"

section \<open>Priority operations, pubdata and DA\<close>

definition priority_ops_rolling_hash :: "crypto \<Rightarrow> b256 list \<Rightarrow> b256" where
  "priority_ops_rolling_hash c l1_tx_hashes =
     fold (\<lambda>tx_hash hash. keccak_compress c hash tx_hash) l1_tx_hashes (cr_keccak256 c [])"

definition PUBDATA_ENCODING_VERSION :: u8 where "PUBDATA_ENCODING_VERSION = 3"

definition logs_only_pubdata :: "bytes list list \<Rightarrow> bytes" where
  "logs_only_pubdata logs_by_block =
     concat (map (\<lambda>logs. [PUBDATA_ENCODING_VERSION, PUBDATA_CONTENT_LOGS_ONLY] @
       u32_be (of_nat (length logs)) @ concat logs) logs_by_block)"

definition da_commitment_calldata :: "crypto \<Rightarrow> bytes \<Rightarrow> b256" where
  "da_commitment_calldata c pubdata =
     cr_keccak256 c (zeros 32 @ bytes32 (cr_keccak256 c pubdata) @ [1] @ zeros 32)"

definition da_commitment_blobs :: "crypto \<Rightarrow> b256 list \<Rightarrow> b256" where
  "da_commitment_blobs c versioned_hashes = cr_keccak256 c (concat (map bytes32 versioned_hashes))"

section \<open>Public input\<close>

definition public_input_preimage :: "b256 \<Rightarrow> b256 \<Rightarrow> b256 option \<Rightarrow> b256 \<Rightarrow> bytes" where
  "public_input_preimage state_before state_after config_hash output_hash =
     bytes32 state_before @ bytes32 state_after @
     (case config_hash of Some h \<Rightarrow> bytes32 h | None \<Rightarrow> []) @ bytes32 output_hash"

definition batch_public_input_hash :: "crypto \<Rightarrow> b256 \<Rightarrow> b256 \<Rightarrow> b256 option \<Rightarrow> b256 \<Rightarrow> b256" where
  "batch_public_input_hash c state_before state_after config_hash output_hash =
     cr_keccak256 c (public_input_preimage state_before state_after config_hash output_hash)"

section \<open>The trees\<close>

interpretation kt: padded_tree "keccak_compress c" "keccak_empty_subtree_hashes c e h" for c e h
  unfolding keccak_empty_subtree_hashes_def by (rule empties_table_padded)

lemma length_keccak_empties [simp]: "length (keccak_empty_subtree_hashes c e h) = Suc h"
  and keccak_empties_0 [simp]: "keccak_empty_subtree_hashes c e h ! 0 = e"
  by (simp_all add: keccak_empty_subtree_hashes_def)

lemma fixed_height_keccak_root_eq:
  "fixed_height_keccak_root c leaves (keccak_empty_subtree_hashes c e h) =
     (if length leaves \<le> 2 ^ h then Ok (padded_root (keccak_compress c) e h leaves)
      else Err LeafCountExceedsCapacity)"
  using kt.fold_levels_root [of leaves c e h] kt.empty_root [of c e h]
  by (simp add: fixed_height_keccak_root_def ensure_def)

lemma l2_to_l1_logs_root_eq:
  "l2_to_l1_logs_root c logs =
     (if length logs \<le> 2 ^ 14
      then Ok (padded_root (keccak_compress c) (cr_keccak256 c (zeros 88)) 14 (map (cr_keccak256 c) logs))
      else Err LeafCountExceedsCapacity)"
  by (simp add: l2_to_l1_logs_root_def fixed_height_keccak_root_eq L2_TO_L1_LOG_SIZE_def
      L2_TO_L1_TREE_HEIGHT_def)

lemma chain_batch_root_merkle:
  "chain_batch_root c HeightThreeMerkle a b d e =
     Ok (keccak_compress c (keccak_compress c (keccak_compress c a b) (keccak_compress c d e))
          (CHAIN_BATCH_ROOT_EMPTY_SUBTREE_HASHES ! 2))"
proof -
  have upt: "[0..<3] = [0, 1, 2]" "[0..<2] = [0, 1]" "[0..<1] = [0]" by (simp_all add: upt_rec)
  show ?thesis
    by (simp add: fixed_height_keccak_root_def CHAIN_BATCH_ROOT_EMPTY_SUBTREE_HASHES_def fold_levels_def
        fold_level_def fold_pair_def Let_def upt)
qed

section \<open>What the preimages pin\<close>

lemma state_commitment_preimage_inject:
  "state_commitment_preimage r n b h t = state_commitment_preimage r' n' b' h' t' \<longleftrightarrow>
     r = r' \<and> n = n' \<and> b = b' \<and> h = h' \<and> t = t'"
  by (auto simp: state_commitment_preimage_def)

lemma concat_bytes32_inject:
  "concat (map bytes32 xs) = concat (map bytes32 ys) \<longleftrightarrow> xs = ys"
proof (induction xs arbitrary: ys)
  case Nil
  then show ?case by (cases ys) (auto dest: arg_cong [where f = length])
next
  case (Cons x xs)
  then show ?case by (cases ys) (auto dest: arg_cong [where f = length])
qed

lemma ring_preimage_snoc: "ring_preimage xs x = concat (map bytes32 (xs @ [x]))"
  by (simp add: ring_preimage_def)

lemma ring_preimage_inject: "ring_preimage xs x = ring_preimage ys y \<longleftrightarrow> xs = ys \<and> x = y"
  unfolding ring_preimage_snoc concat_bytes32_inject by simp

text \<open>The fields a layout of the batch output commits; the others are read as zero.\<close>

definition committed_output :: "batch_output_layout \<Rightarrow> batch_output_args \<Rightarrow> batch_output_args" where
  "committed_output layout a = a
     \<lparr>oa_chain_id := (if layout = BO_AtlasV4 then 0 else oa_chain_id a),
      oa_number_of_layer2_txs := (if layout = BO_V30 then 0 else oa_number_of_layer2_txs a),
      oa_settlement_layer_chain_id := (if layout = BO_V30 then 0 else oa_settlement_layer_chain_id a)\<rparr>"

lemma batch_output_preimage_inject:
  "batch_output_preimage layout a = batch_output_preimage layout b \<longleftrightarrow>
     committed_output layout a = committed_output layout b"
  by (cases layout; cases a; cases b) (auto simp: batch_output_preimage_def committed_output_def)

lemma replicate_update: "i < n \<Longrightarrow> (replicate n a)[i := x] = replicate i a @ x # replicate (n - Suc i) a"
  by (simp add: upd_conv_take_nth_drop)

lemma chain_config_preimage_words:
  "chain_config_preimage CC_AtlasV5 k =
     zeros 24 @ u64_be (cc_chain_id k) @ zeros 31 @ [bool_byte (cc_fri_proof_verification_enabled k)] @
     zeros 24 @ u64_be (cc_max_tx_gas_limit k) @ zeros 31 @ [cc_pubdata_content k] @
     zeros 31 @ [bool_byte (cc_l1_tx_filtering_enabled k)] @
     zeros 31 @ [bool_byte (cc_large_contracts_enabled k)]"
  "chain_config_preimage CC_AtlasV4 k =
     zeros 24 @ u64_be (cc_chain_id k) @ zeros 31 @ [bool_byte (cc_fri_proof_verification_enabled k)] @
     zeros 24 @ u64_be (cc_max_tx_gas_limit k) @ zeros 31 @ [cc_pubdata_content k]"
  by (simp_all add: chain_config_preimage_def copy_at_def zeros_def Let_def list_update_append
      replicate_update take_Cons' drop_Cons')

lemma bool_byte_inject [simp]: "bool_byte a = bool_byte b \<longleftrightarrow> a = b"
  by (simp add: bool_byte_def)

definition committed_config :: "chain_config_layout \<Rightarrow> chain_config \<Rightarrow> chain_config" where
  "committed_config layout k =
     (case layout of CC_AtlasV4 \<Rightarrow> k\<lparr>cc_l1_tx_filtering_enabled := False, cc_large_contracts_enabled := False\<rparr>
      | CC_AtlasV5 \<Rightarrow> k)"

lemma chain_config_preimage_inject:
  "chain_config_preimage layout k = chain_config_preimage layout m \<longleftrightarrow>
     committed_config layout k = committed_config layout m"
  by (cases layout; cases k; cases m) (auto simp: chain_config_preimage_words committed_config_def)

lemma public_input_preimage_inject:
  "public_input_preimage s t k h = public_input_preimage s' t' k' h' \<longleftrightarrow>
     s = s' \<and> t = t' \<and> k = k' \<and> h = h'"
  by (auto simp: public_input_preimage_def split: option.splits dest: arg_cong [where f = length])

lemma logs_only_pubdata_inject:
  assumes "logs_only_pubdata a = logs_only_pubdata b"
    and "\<And>ls. ls \<in> set a \<union> set b \<Longrightarrow> length ls < 2 ^ 32 \<and> (\<forall>l \<in> set ls. length l = L2_TO_L1_LOG_SIZE)"
  shows "a = b"
  using assms
proof (induction a arbitrary: b)
  case Nil
  then show ?case by (cases b) (auto simp: logs_only_pubdata_def)
next
  case (Cons x a)
  then obtain y b' where b: "b = y # b'" by (cases b) (auto simp: logs_only_pubdata_def)
  have sz: "length x < 2 ^ 32" "length y < 2 ^ 32" "\<forall>l \<in> set x \<union> set y. length l = L2_TO_L1_LOG_SIZE"
    using Cons.prems(2) [of x] Cons.prems(2) [of y] by (auto simp: b)
  have "(of_nat (length x) :: u32) = of_nat (length y)"
    and body: "concat x @ logs_only_pubdata a = concat y @ logs_only_pubdata b'"
    using Cons.prems(1) by (simp_all add: b logs_only_pubdata_def)
  then have len: "length x = length y" using sz(1,2)
    by (simp add: word_unat_eq_iff unat_of_nat)
  have "length (concat x) = length (concat y)"
    using sz(3) len by (simp add: length_concat sum_list_triv cong: map_cong)
  then have "concat x = concat y" and rest: "logs_only_pubdata a = logs_only_pubdata b'"
    using body by simp_all
  have "length l = length m" if "(l, m) \<in> set (zip x y)" for l m
    using sz(3) set_zip_leftD [OF that] set_zip_rightD [OF that] by simp
  then have "x = y" using concat_injective [OF \<open>concat x = concat y\<close> len] by auto
  then show ?case using Cons.IH [OF rest] Cons.prems(2) by (auto simp: b)
qed

section \<open>Claims\<close>

text \<open>
  The in-place fold of the L2 to L1 log tree returns the root of the complete binary tree of
  height fourteen over the log hashes, padded with the hash of the all-zero log, and panics
  exactly when there are more than \<open>2 ^ 14\<close> logs.
\<close>

theorem logs_root_is_tree_root:
  "l2_to_l1_logs_root c logs =
     (if length logs \<le> 2 ^ 14
      then Ok (padded_root (keccak_compress c) (cr_keccak256 c (zeros 88)) 14 (map (cr_keccak256 c) logs))
      else Err LeafCountExceedsCapacity)"
  by (rule l2_to_l1_logs_root_eq)

text \<open>
  The log root binds the logs: two accepted log lists with the same root are equal after
  padding with all-zero logs, unless two hashed messages collide.
\<close>

theorem logs_root_binds:
  assumes "l2_to_l1_logs_root c a = Ok r" and "l2_to_l1_logs_root c b = Ok r"
    and "inj_on (\<lambda>(x, y). keccak_compress c x y)
      (padded_pairs (keccak_compress c) (cr_keccak256 c (zeros 88)) 14 (map (cr_keccak256 c) a) \<union>
       padded_pairs (keccak_compress c) (cr_keccak256 c (zeros 88)) 14 (map (cr_keccak256 c) b))"
    and "inj_on (cr_keccak256 c) (insert (zeros 88) (set a \<union> set b))"
  shows "a @ replicate (2 ^ 14 - length a) (zeros 88) = b @ replicate (2 ^ 14 - length b) (zeros 88)"
proof -
  let ?k = "cr_keccak256 c" and ?z = "zeros 88"
  have ok: "length a \<le> 2 ^ 14" "length b \<le> 2 ^ 14"
    "padded_root (keccak_compress c) (?k ?z) 14 (map ?k a) = padded_root (keccak_compress c) (?k ?z) 14 (map ?k b)"
    using assms(1,2) by (auto simp: l2_to_l1_logs_root_eq split: if_splits)
  have "map ?k (a @ replicate (2 ^ 14 - length a) ?z) = map ?k (b @ replicate (2 ^ 14 - length b) ?z)"
    using padded_root_binds [OF assms(3) ok(3)] ok(1,2) by (simp only: length_map map_append map_replicate)
  moreover have "inj_on ?k (set (a @ replicate (2 ^ 14 - length a) ?z) \<union> set (b @ replicate (2 ^ 14 - length b) ?z))"
    by (rule inj_on_subset [OF assms(4)]) auto
  ultimately show ?thesis by (rule map_inj_on)
qed

definition chain_crypto :: crypto where
  "chain_crypto = \<lparr>cr_node = \<lambda>l r. l, cr_blake2s = \<lambda>_. 0,
     cr_keccak256 = \<lambda>bs. if length bs = 64 then of_be_bytes (take 32 bs) + 1 else of_nat (length bs)\<rparr>"

lemma chain_compress: "keccak_compress chain_crypto l r = l + 1"
  by (simp add: keccak_compress_def chain_crypto_def)

lemma chain_nodes: "padded_node (keccak_compress chain_crypto) e [] d i = e + of_nat d"
  by (induction d arbitrary: i) (simp_all add: chain_compress)

theorem logs_root_binds_witness:
  "[] @ replicate (2 ^ 14 - length ([] :: bytes list)) (zeros 88) = [] @ replicate (2 ^ 14 - length ([] :: bytes list)) (zeros 88)"
proof -
  obtain r where r: "l2_to_l1_logs_root chain_crypto [] = Ok r" by (simp add: l2_to_l1_logs_root_eq)
  have "inj_on (\<lambda>(x, y). keccak_compress chain_crypto x y) (padded_pairs (keccak_compress chain_crypto) e 14 [])" for e
    by (auto simp: inj_on_def padded_pairs_def chain_nodes chain_compress)
  then show ?thesis by (intro logs_root_binds [OF r r]) simp_all
qed

text \<open>
  C18. The public input binds the batch: two equal public inputs of one layout come from the same
  state commitments before and after, the same committed chain configuration and the same
  committed batch output, unless two hashed messages collide.
\<close>

theorem public_input_binds:
  assumes "batch_public_input_hash c s t (Some (chain_config_hash c l k)) (batch_output_hash_native c lo a) =
      batch_public_input_hash c s' t' (Some (chain_config_hash c l k')) (batch_output_hash_native c lo a')"
    and "inj_on (cr_keccak256 c)
      {public_input_preimage s t (Some (chain_config_hash c l k)) (batch_output_hash_native c lo a),
       public_input_preimage s' t' (Some (chain_config_hash c l k')) (batch_output_hash_native c lo a'),
       chain_config_preimage l k, chain_config_preimage l k', batch_output_preimage lo a, batch_output_preimage lo a'}"
  shows "s = s' \<and> t = t' \<and> committed_config l k = committed_config l k' \<and> committed_output lo a = committed_output lo a'"
proof -
  have "public_input_preimage s t (Some (chain_config_hash c l k)) (batch_output_hash_native c lo a) =
      public_input_preimage s' t' (Some (chain_config_hash c l k')) (batch_output_hash_native c lo a')"
    using assms(1) by (intro inj_onD [OF assms(2)]) (simp_all add: batch_public_input_hash_def)
  then have eqs: "s = s'" "t = t'" "chain_config_hash c l k = chain_config_hash c l k'"
      "batch_output_hash_native c lo a = batch_output_hash_native c lo a'"
    by (simp_all add: public_input_preimage_inject)
  have "chain_config_preimage l k = chain_config_preimage l k'"
    using eqs(3) by (intro inj_onD [OF assms(2)]) (simp_all add: chain_config_hash_def)
  moreover have "batch_output_preimage lo a = batch_output_preimage lo a'"
    using eqs(4) by (intro inj_onD [OF assms(2)]) (simp_all add: batch_output_hash_native_def)
  ultimately show ?thesis
    using eqs by (simp add: chain_config_preimage_inject batch_output_preimage_inject)
qed

definition zero_config :: chain_config where
  "zero_config = \<lparr>cc_chain_id = 0, cc_fri_proof_verification_enabled = False, cc_max_tx_gas_limit = 0, cc_pubdata_content = 0,
     cc_l1_tx_filtering_enabled = False, cc_large_contracts_enabled = False\<rparr>"

definition zero_output :: batch_output_args where
  "zero_output = \<lparr>oa_chain_id = 0, oa_first_block_timestamp = 0, oa_last_block_timestamp = 0, oa_da_commitment_scheme = 0,
     oa_da_commitment = 0, oa_number_of_layer1_txs = 0, oa_number_of_layer2_txs = 0, oa_priority_operations_hash = 0,
     oa_l2_to_l1_logs_root_hash = 0, oa_upgrade_tx_hash = 0, oa_interop_roots_rolling_hash = 0,
     oa_settlement_layer_chain_id = 0\<rparr>"

theorem public_input_binds_witness:
  "(1 :: b256) = 1 \<and> (2 :: b256) = 2 \<and> committed_config CC_AtlasV5 zero_config = committed_config CC_AtlasV5 zero_config \<and>
   committed_output BO_AtlasV4 zero_output = committed_output BO_AtlasV4 (zero_output\<lparr>oa_chain_id := 5\<rparr>)"
proof (rule public_input_binds [where c = chain_crypto])
  let ?o = "zero_output\<lparr>oa_chain_id := 5\<rparr>" and ?cfg = "chain_config_hash chain_crypto CC_AtlasV5 zero_config"
  have out: "batch_output_preimage BO_AtlasV4 ?o = batch_output_preimage BO_AtlasV4 zero_output"
    by (simp add: batch_output_preimage_def)
  then have h: "batch_output_hash_native chain_crypto BO_AtlasV4 ?o = batch_output_hash_native chain_crypto BO_AtlasV4 zero_output"
    by (simp add: batch_output_hash_native_def)
  then show "batch_public_input_hash chain_crypto 1 2 (Some ?cfg) (batch_output_hash_native chain_crypto BO_AtlasV4 zero_output) =
      batch_public_input_hash chain_crypto 1 2 (Some ?cfg) (batch_output_hash_native chain_crypto BO_AtlasV4 ?o)" by simp
  have len: "length (chain_config_preimage CC_AtlasV5 zero_config) = 192"
    "length (batch_output_preimage BO_AtlasV4 zero_output) = 304" "length (public_input_preimage s t (Some x) y) = 128" for s t x y
    by (simp_all add: chain_config_preimage_words batch_output_preimage_def public_input_preimage_def)
  show "inj_on (cr_keccak256 chain_crypto)
      {public_input_preimage 1 2 (Some ?cfg) (batch_output_hash_native chain_crypto BO_AtlasV4 zero_output),
       public_input_preimage 1 2 (Some ?cfg) (batch_output_hash_native chain_crypto BO_AtlasV4 ?o),
       chain_config_preimage CC_AtlasV5 zero_config, chain_config_preimage CC_AtlasV5 zero_config,
       batch_output_preimage BO_AtlasV4 zero_output, batch_output_preimage BO_AtlasV4 ?o}"
    unfolding out h by (simp add: inj_on_def chain_crypto_def len)
qed

text \<open>
  The log-only pubdata determines, block by block, the logs it was made from, as long as each
  block has fewer than \<open>2 ^ 32\<close> logs of the fixed log size.
\<close>

theorem pubdata_determines_logs:
  assumes "logs_only_pubdata a = logs_only_pubdata b"
    and "\<And>ls. ls \<in> set a \<union> set b \<Longrightarrow> length ls < 2 ^ 32 \<and> (\<forall>l \<in> set ls. length l = L2_TO_L1_LOG_SIZE)"
  shows "a = b"
  using assms by (rule logs_only_pubdata_inject)

theorem pubdata_determines_logs_witness: "[[zeros 88], []] = [[zeros 88], []]"
  by (rule pubdata_determines_logs) (auto simp: L2_TO_L1_LOG_SIZE_def)

end
