(* ===== verification/Block_Header.thy ===== *)
theory Block_Header
  imports Commitment
begin

text \<open>
  The block header hash and its RLP encoding (\<open>lib/src/block_header.rs\<close>), the rolling
  transactions commitment, and the depth-32 transaction and receipt roots
  (\<open>lib/src/block_roots.rs\<close>). An RLP item can be read back from the front of a byte string
  (\<open>rlp_read\<close>), so the header preimage determines every variable header field.
\<close>

section \<open>RLP\<close>

definition EMPTY_OMMER_HASH :: b256 where
  "EMPTY_OMMER_HASH = 0x1dcc4de8dec75d7aab85b567b6ccd41ad312451b948a7413f0a142fd40d49347"

definition KECCAK_EMPTY :: b256 where
  "KECCAK_EMPTY = 0xc5d2460186f7233c927e7db2dcc703c0e500b653ca82273b7bfad8045d85a470"

definition strip_leading_zeros :: "bytes \<Rightarrow> bytes" where
  "strip_leading_zeros data = dropWhile (\<lambda>b. b = 0) data"

text \<open>A \<open>usize\<close> is 64 bits wide on the guest target.\<close>

definition be_bytes_trimmed :: "nat \<Rightarrow> bytes" where
  "be_bytes_trimmed val =
     (let bytes = be_bytes 8 (of_nat val :: u64); stripped = dropWhile (\<lambda>b. b = 0) bytes
      in if stripped = [] then drop (length bytes - 1) bytes else stripped)"

definition rlp_encode_bytes :: "bytes \<Rightarrow> bytes \<Rightarrow> bytes" where
  "rlp_encode_bytes buf data =
     (if length data = 1 \<and> data ! 0 < 0x80 then buf @ [data ! 0]
      else if length data < 56 then buf @ [0x80 + of_nat (length data)] @ data
      else let len_bytes = be_bytes_trimmed (length data)
           in buf @ [0xb7 + of_nat (length len_bytes)] @ len_bytes @ data)"

definition rlp_encode_number :: "bytes \<Rightarrow> bytes \<Rightarrow> bytes" where
  "rlp_encode_number buf be_data =
     (let stripped = strip_leading_zeros be_data
      in if stripped = [] then buf @ [0x80] else rlp_encode_bytes buf stripped)"

definition rlp_encode_list_header :: "bytes \<Rightarrow> nat \<Rightarrow> bytes" where
  "rlp_encode_list_header buf content_len =
     (if content_len < 56 then buf @ [0xc0 + of_nat content_len]
      else let len_bytes = be_bytes_trimmed content_len
           in buf @ [0xf7 + of_nat (length len_bytes)] @ len_bytes)"

section \<open>The header\<close>

record header_args =
  ha_parent_hash :: b256
  ha_beneficiary :: address
  ha_transactions_root :: b256
  ha_receipts_root :: b256
  ha_number :: u64
  ha_gas_limit :: u64
  ha_gas_used :: u64
  ha_timestamp :: u64
  ha_mix_hash :: b256
  ha_base_fee_per_gas :: u64

definition header_inner :: "header_args \<Rightarrow> bytes" where
  "header_inner h =
     (let inner = [];
          inner = rlp_encode_bytes inner (bytes32 (ha_parent_hash h));
          inner = rlp_encode_bytes inner (bytes32 EMPTY_OMMER_HASH);
          inner = rlp_encode_bytes inner (bytes20 (ha_beneficiary h));
          inner = rlp_encode_bytes inner (bytes32 0);
          inner = rlp_encode_bytes inner (bytes32 (ha_transactions_root h));
          inner = rlp_encode_bytes inner (bytes32 (ha_receipts_root h));
          inner = rlp_encode_bytes inner (zeros 256);
          inner = rlp_encode_number inner (zeros 32);
          inner = rlp_encode_number inner (u64_be (ha_number h));
          inner = rlp_encode_number inner (u64_be (ha_gas_limit h));
          inner = rlp_encode_number inner (u64_be (ha_gas_used h));
          inner = rlp_encode_number inner (u64_be (ha_timestamp h));
          inner = rlp_encode_bytes inner [];
          inner = rlp_encode_bytes inner (bytes32 (ha_mix_hash h));
          inner = rlp_encode_bytes inner (zeros 8)
      in rlp_encode_number inner (u64_be (ha_base_fee_per_gas h)))"

definition header_preimage :: "header_args \<Rightarrow> bytes" where
  "header_preimage h = rlp_encode_list_header [] (length (header_inner h)) @ header_inner h"

definition compute_block_header_hash :: "crypto \<Rightarrow> header_args \<Rightarrow> b256" where
  "compute_block_header_hash c h = cr_keccak256 c (header_preimage h)"

definition transactions_rolling_hash :: "crypto \<Rightarrow> b256 list \<Rightarrow> b256 \<Rightarrow> b256" where
  "transactions_rolling_hash c tx_hashes seed =
     fold (\<lambda>tx_hash rolling. cr_keccak256 c (bytes32 rolling @ bytes32 tx_hash)) tx_hashes seed"

section \<open>Block roots\<close>

definition BLOCK_TX_TREE_DEPTH :: nat where "BLOCK_TX_TREE_DEPTH = 32"

definition block_empty_subtree_hashes :: "crypto \<Rightarrow> nat \<Rightarrow> b256 list" where
  "block_empty_subtree_hashes c height = empties_table (cr_node c) 0 height"

text \<open>
  The capacity test compares \<open>u64\<close> values; a list longer than \<open>2 ^ 64\<close> does not exist in the
  guest, so the length is compared as it is.
\<close>

definition merkle_root :: "crypto \<Rightarrow> b256 list \<Rightarrow> b256 list \<Rightarrow> (panic, b256) result" where
  "merkle_root c leaves empties =
     rbind (ensure (empties \<noteq> []) EmptyHashTableMissing) (\<lambda>_.
     let height = length empties - 1
     in rbind (ensure (64 \<le> height \<or> length leaves \<le> 2 ^ height) LeafCountExceedsCapacity) (\<lambda>_.
        if leaves = [] then Ok (empties ! height)
        else Ok (fst (fold_levels (cr_node c) empties height leaves) ! 0)))"

definition block_tx_tree_root :: "crypto \<Rightarrow> b256 list \<Rightarrow> (panic, b256) result" where
  "block_tx_tree_root c leaves = merkle_root c leaves (block_empty_subtree_hashes c BLOCK_TX_TREE_DEPTH)"

text \<open>
  The receipt RLP with its zero bloom is a function of the \<open>alloy_consensus\<close> crate
  (\<open>rlp_receipt status cumulative_gas logs\<close>), a parameter here.
\<close>

definition receipt_leaf ::
  "crypto \<Rightarrow> (bool \<Rightarrow> u64 \<Rightarrow> 'log list \<Rightarrow> bytes) \<Rightarrow> u8 \<Rightarrow> bool \<Rightarrow> u64 \<Rightarrow> 'log list \<Rightarrow> b256" where
  "receipt_leaf c rlp_receipt tx_type success cumulative_gas_used logs =
     cr_blake2s c ((if tx_type \<noteq> 0 then [tx_type] else []) @ rlp_receipt success cumulative_gas_used logs)"

interpretation bt: padded_tree "cr_node c" "block_empty_subtree_hashes c h" for c h
  unfolding block_empty_subtree_hashes_def by (rule empties_table_padded)

lemma block_tx_tree_root_eq:
  "block_tx_tree_root c leaves =
     (if length leaves \<le> 2 ^ 32 then Ok (padded_root (cr_node c) 0 32 leaves)
      else Err LeafCountExceedsCapacity)"
  using bt.fold_levels_root [of leaves c 32] bt.empty_root [of c 32]
  by (simp add: block_tx_tree_root_def merkle_root_def BLOCK_TX_TREE_DEPTH_def ensure_def
      block_empty_subtree_hashes_def)

section \<open>Reading RLP back\<close>

definition rlp_read :: "bytes \<Rightarrow> (bytes \<times> bytes) option" where
  "rlp_read bs = (case bs of
     [] \<Rightarrow> None
   | b # rest \<Rightarrow>
       if b < 0x80 then Some ([b], rest)
       else if b < 0xb8 then
         (let n = unat b - 0x80 in Some (take n rest, drop n rest))
       else
         (let m = unat b - 0xb7; n = unat (of_be_bytes (take m rest) :: u64); body = drop m rest
          in Some (take n body, drop n body)))"

definition rlp_list_payload :: "bytes \<Rightarrow> bytes" where
  "rlp_list_payload bs = (if hd bs < 0xf8 then tl bs else drop (unat (hd bs) - 0xf7) (tl bs))"

lemma of_le_bytes_snoc_0: "of_le_bytes (bs @ [0]) = (of_le_bytes bs :: 'a::len word)"
  by (induction bs) auto

lemma of_be_dropWhile: "of_be_bytes (dropWhile (\<lambda>b. b = 0) bs) = (of_be_bytes bs :: 'a::len word)"
  by (induction bs) (simp_all add: of_be_bytes_def of_le_bytes_snoc_0)

lemma be_bytes_trimmed_value:
  assumes "n < 2 ^ 64"
  shows "unat (of_be_bytes (be_bytes_trimmed n) :: u64) = n"
proof -
  let ?b = "be_bytes 8 (of_nat n :: u64)"
  have v: "unat (of_be_bytes ?b :: u64) = n" using assms by (simp add: unat_of_nat)
  show ?thesis
  proof (cases "dropWhile (\<lambda>b. b = 0) ?b = []")
    case True
    have "of_be_bytes ?b = (of_be_bytes (dropWhile (\<lambda>b. b = 0) ?b) :: u64)" by (rule of_be_dropWhile [symmetric])
    also have "\<dots> = 0" unfolding True by (simp add: of_be_bytes_def)
    finally have "of_be_bytes ?b = (0 :: u64)" .
    then have "n = 0" using v by (simp only: unsigned_0)
    then show ?thesis by (simp add: be_bytes_trimmed_def of_be_bytes_def zeros_def Let_def)
  next
    case False
    then have "be_bytes_trimmed n = dropWhile (\<lambda>b. b = 0) ?b"
      unfolding be_bytes_trimmed_def Let_def by (rule if_not_P)
    then show ?thesis using v by (simp only: of_be_dropWhile)
  qed
qed

lemma be_bytes_trimmed_length: "0 < length (be_bytes_trimmed n)" "length (be_bytes_trimmed n) \<le> 8"
proof -
  show "0 < length (be_bytes_trimmed n)" by (simp add: be_bytes_trimmed_def Let_def)
  show "length (be_bytes_trimmed n) \<le> 8"
    using length_dropWhile_le [of "\<lambda>b. b = 0" "be_bytes 8 (of_nat n :: u64)"]
    by (auto simp: be_bytes_trimmed_def Let_def)
qed

lemma unat_u8_add: "k + n < 256 \<Longrightarrow> unat (of_nat k + of_nat n :: u8) = k + n"
  by (simp add: unat_of_nat flip: of_nat_add)

lemma rlp_encode_bytes_buf: "rlp_encode_bytes buf data = buf @ rlp_encode_bytes [] data"
  by (simp add: rlp_encode_bytes_def Let_def)

lemma rlp_encode_number_bytes: "rlp_encode_number buf d = buf @ rlp_encode_bytes [] (strip_leading_zeros d)"
  unfolding rlp_encode_number_def Let_def
  by (cases "strip_leading_zeros d = []")
     (simp_all add: rlp_encode_bytes_buf [of buf], simp add: rlp_encode_bytes_def)

lemma rlp_read_encode:
  assumes "length data < 2 ^ 64"
  shows "rlp_read (rlp_encode_bytes [] data @ rest) = Some (data, rest)"
proof -
  consider (one) "length data = 1" "data ! 0 < 0x80"
    | (short) "\<not> (length data = 1 \<and> data ! 0 < 0x80)" "length data < 56"
    | (long) "56 \<le> length data" by linarith
  then show ?thesis
  proof cases
    case one
    then show ?thesis by (cases data) (auto simp: rlp_encode_bytes_def rlp_read_def)
  next
    case short
    have u: "unat (0x80 + of_nat (length data) :: u8) = 0x80 + length data"
      using short unat_u8_add [of 128 "length data"] by simp
    then have "\<not> (0x80 + of_nat (length data) :: u8) < 0x80" "(0x80 + of_nat (length data) :: u8) < 0xb8"
      using short by (simp_all add: word_less_nat_alt)
    then show ?thesis using short u by (auto simp: rlp_encode_bytes_def rlp_read_def Let_def)
  next
    case long
    let ?l = "be_bytes_trimmed (length data)"
    note len = be_bytes_trimmed_length [of "length data"]
    have u: "unat (0xb7 + of_nat (length ?l) :: u8) = 0xb7 + length ?l"
      using len unat_u8_add [of 183 "length ?l"] by simp
    then have "\<not> (0xb7 + of_nat (length ?l) :: u8) < 0x80" "\<not> (0xb7 + of_nat (length ?l) :: u8) < 0xb8"
      using len by (simp_all add: word_less_nat_alt)
    then show ?thesis using long u be_bytes_trimmed_value [OF assms]
      by (auto simp: rlp_encode_bytes_def rlp_read_def Let_def)
  qed
qed

lemma rlp_items_inject:
  assumes "concat (map (rlp_encode_bytes []) xs) = concat (map (rlp_encode_bytes []) ys)"
    and "\<forall>x \<in> set xs \<union> set ys. length x < 2 ^ 64"
  shows "xs = ys"
  using assms
proof (induction xs arbitrary: ys)
  case Nil
  have "ys = []"
  proof (rule ccontr)
    assume "ys \<noteq> []"
    then obtain y zs where "ys = y # zs" by (cases ys) auto
    then have "rlp_encode_bytes [] y = []" "length y < 2 ^ 64" using Nil by simp_all
    then show False using rlp_read_encode [of y "[]"] by (simp add: rlp_read_def)
  qed
  then show ?case by simp
next
  case (Cons x xs)
  have rx: "rlp_read (concat (map (rlp_encode_bytes []) ys)) = Some (x, concat (map (rlp_encode_bytes []) xs))"
    unfolding Cons.prems(1) [symmetric] list.map concat.simps
    by (rule rlp_read_encode) (use Cons.prems(2) in simp)
  have "rlp_read [] = None" by (simp add: rlp_read_def)
  then have "ys \<noteq> []" using rx by (metis concat.simps(1) list.map(1) option.discI)
  then obtain y zs where ys: "ys = y # zs" by (metis list.exhaust)
  have "rlp_read (concat (map (rlp_encode_bytes []) ys)) = Some (y, concat (map (rlp_encode_bytes []) zs))"
    using rlp_read_encode [of y] Cons.prems(2) by (simp add: ys)
  then have "x = y" and eq: "concat (map (rlp_encode_bytes []) xs) = concat (map (rlp_encode_bytes []) zs)"
    using rx by (metis option.inject prod.inject)+
  have "xs = zs" by (rule Cons.IH [OF eq]) (use Cons.prems(2) ys in auto)
  then show ?case using \<open>x = y\<close> ys by simp
qed

lemma rlp_list_payload_header:
  "n < 2 ^ 64 \<Longrightarrow> rlp_list_payload (rlp_encode_list_header [] n @ inner) = inner"
proof (cases "n < 56")
  case True
  then have "unat (0xc0 + of_nat n :: u8) = 0xc0 + n" using unat_u8_add [of 192 n] by simp
  then have "(0xc0 + of_nat n :: u8) < 0xf8" using True by (simp add: word_less_nat_alt)
  then show ?thesis using True by (simp add: rlp_encode_list_header_def rlp_list_payload_def)
next
  case False
  let ?l = "be_bytes_trimmed n"
  note len = be_bytes_trimmed_length [of n]
  have u: "unat (0xf7 + of_nat (length ?l) :: u8) = 0xf7 + length ?l"
    using len unat_u8_add [of 247 "length ?l"] by simp
  then have "\<not> (0xf7 + of_nat (length ?l) :: u8) < 0xf8" using len by (simp add: word_less_nat_alt)
  then show ?thesis using False u by (simp add: rlp_encode_list_header_def rlp_list_payload_def Let_def)
qed

lemma strip_inject: "length a = length b \<Longrightarrow> strip_leading_zeros a = strip_leading_zeros b \<longleftrightarrow> a = b"
proof (induction a b rule: list_induct2)
  case (Cons x xs y ys)
  have "length (dropWhile (\<lambda>b. b = 0) xs) < length (y # ys)" "length (dropWhile (\<lambda>b. b = 0) ys) < length (x # xs)"
    using Cons(1) length_dropWhile_le by (metis le_imp_less_Suc length_Cons)+
  then have "dropWhile (\<lambda>b. b = 0) xs \<noteq> y # ys" "x # xs \<noteq> dropWhile (\<lambda>b. b = 0) ys"
    by (metis less_irrefl)+
  then show ?case using Cons by (auto simp: strip_leading_zeros_def)
qed simp

section \<open>The header pins its fields\<close>

definition header_items :: "header_args \<Rightarrow> bytes list" where
  "header_items h =
     [bytes32 (ha_parent_hash h), bytes32 EMPTY_OMMER_HASH, bytes20 (ha_beneficiary h), bytes32 0,
      bytes32 (ha_transactions_root h), bytes32 (ha_receipts_root h), zeros 256,
      strip_leading_zeros (zeros 32), strip_leading_zeros (u64_be (ha_number h)),
      strip_leading_zeros (u64_be (ha_gas_limit h)), strip_leading_zeros (u64_be (ha_gas_used h)),
      strip_leading_zeros (u64_be (ha_timestamp h)), [], bytes32 (ha_mix_hash h), zeros 8,
      strip_leading_zeros (u64_be (ha_base_fee_per_gas h))]"

lemma header_inner_items: "header_inner h = concat (map (rlp_encode_bytes []) (header_items h))"
  unfolding header_inner_def Let_def header_items_def rlp_encode_number_bytes
  by (simp add: rlp_encode_bytes_buf [of "_ @ _"] rlp_encode_bytes_buf [of "rlp_encode_bytes _ _"])

lemma length_strip: "length (strip_leading_zeros b) \<le> length b"
  by (simp add: strip_leading_zeros_def length_dropWhile_le)

lemma header_items_small: "x \<in> set (header_items h) \<Longrightarrow> length x \<le> 256"
  using length_strip [of "zeros 32"] length_strip [THEN order_trans, of "u64_be _" 256]
  by (auto simp: header_items_def)

lemma header_items_inject: "header_items h = header_items k \<longleftrightarrow> h = k"
  by (cases h; cases k) (auto simp: header_items_def strip_inject)

lemma length_rlp_encode_bytes: "length (rlp_encode_bytes [] data) \<le> length data + 9"
  using be_bytes_trimmed_length [of "length data"] by (simp add: rlp_encode_bytes_def Let_def)

lemma length_header_inner: "length (header_inner h) < 2 ^ 64"
proof -
  have "length (header_inner h) = sum_list (map (\<lambda>x. length (rlp_encode_bytes [] x)) (header_items h))"
    by (simp add: header_inner_items length_concat comp_def)
  also have "\<dots> \<le> sum_list (map (\<lambda>_. 265) (header_items h))"
    by (rule sum_list_mono) (use header_items_small length_rlp_encode_bytes in \<open>fastforce intro: order_trans\<close>)
  also have "\<dots> < 2 ^ 64" by (simp add: header_items_def)
  finally show ?thesis .
qed

lemma header_preimage_inject: "header_preimage h = header_preimage k \<longleftrightarrow> h = k"
proof
  assume "header_preimage h = header_preimage k"
  then have "header_inner h = header_inner k"
    using rlp_list_payload_header [OF length_header_inner] by (metis header_preimage_def)
  moreover have "length x < 2 ^ 64" if "x \<in> set (header_items h) \<union> set (header_items k)" for x
    using that header_items_small [of x h] header_items_small [of x k] by auto
  ultimately have "header_items h = header_items k"
    unfolding header_inner_items by (intro rlp_items_inject) blast+
  then show "h = k" by (simp only: header_items_inject)
qed simp

section \<open>Claims\<close>

text \<open>
  C19. The transaction and receipt root of a block is the root of the complete binary tree of
  height thirty-two over the leaves padded with zero, and the code panics exactly when there are
  more than \<open>2 ^ 32\<close> leaves.
\<close>

theorem block_root_is_tree_root:
  "block_tx_tree_root c leaves =
     (if length leaves \<le> 2 ^ 32 then Ok (padded_root (cr_node c) 0 32 leaves)
      else Err LeafCountExceedsCapacity)"
  by (rule block_tx_tree_root_eq)

text \<open>
  C20. The RLP preimage of the block header is injective in all ten header arguments, so the header
  hash binds the parent hash, the roots, the number, the gas values, the timestamp, the
  beneficiary, the randao value and the base fee.
\<close>

theorem header_binds_fields: "header_preimage h = header_preimage k \<longleftrightarrow> h = k"
  by (rule header_preimage_inject)

end
