(* ===== verification/Proven_Db.thy ===== *)
theory Proven_Db
  imports Batch_Types Account_Props Block_Header
begin

text \<open>
  The proof-verified state database of \<open>lib/src/executor/proven_db.rs\<close>: the maps, the four read
  operations, the construction helpers the collecting and the streaming path share, and the
  collecting builder. A REVM \<open>Bytecode\<close> is represented by the raw bytes it is built from. The
  soundness lemmas say that every value a construction serves is the value of the tree whose root
  is the pinned pre-state root.
\<close>

section \<open>State\<close>

record account_info =
  ai_nonce :: u64
  ai_balance :: u256
  ai_code_hash :: b256
  ai_code :: "bytes option"

record verified_accounts =
  va_infos :: "address \<rightharpoonup> account_info option"
  va_code_fields :: "address \<rightharpoonup> code_fields"

record proven_db =
  pd_verified_storage :: "b256 \<rightharpoonup> b256 option"
  pd_verified_accounts :: verified_accounts
  pd_bytecodes :: "b256 \<rightharpoonup> bytes"
  pd_block_hashes :: "u64 \<rightharpoonup> b256"

definition from_parts ::
  "(b256 \<rightharpoonup> b256 option) \<Rightarrow> verified_accounts \<Rightarrow> (b256 \<rightharpoonup> bytes) \<Rightarrow> (u64 \<rightharpoonup> b256) \<Rightarrow> proven_db" where
  "from_parts storage accounts bytecodes block_hashes =
     \<lparr>pd_verified_storage = storage, pd_verified_accounts = accounts, pd_bytecodes = bytecodes,
      pd_block_hashes = block_hashes\<rparr>"

definition set_block_hashes :: "(u64 \<rightharpoonup> b256) \<Rightarrow> proven_db \<Rightarrow> proven_db" where
  "set_block_hashes block_hashes db = db\<lparr>pd_block_hashes := block_hashes\<rparr>"

definition insert_block_hash :: "u64 \<Rightarrow> b256 \<Rightarrow> proven_db \<Rightarrow> proven_db" where
  "insert_block_hash number hash db = db\<lparr>pd_block_hashes := (pd_block_hashes db)(number \<mapsto> hash)\<rparr>"

definition pre_state_code_fields :: "proven_db \<Rightarrow> address \<Rightarrow> code_fields" where
  "pre_state_code_fields db addr =
     (case va_code_fields (pd_verified_accounts db) addr of Some f \<Rightarrow> f | None \<Rightarrow> code_fields_empty)"

section \<open>Reads\<close>

datatype proven_db_error =
  AccountWithoutPreimage address
| NoAccountProof address
| NoBytecode b256
| NoStorageProof address u256

definition basic_ref ::
  "crypto \<Rightarrow> proven_db \<Rightarrow> address \<Rightarrow> (proven_db_error, account_info option) result" where
  "basic_ref c db addr =
     (case va_infos (pd_verified_accounts db) addr of
        Some proven \<Rightarrow> Ok proven
      | None \<Rightarrow>
          (case pd_verified_storage db (derive_account_properties_key c addr) of
             Some None \<Rightarrow> Ok None
           | Some (Some _) \<Rightarrow> Err (AccountWithoutPreimage addr)
           | None \<Rightarrow> Err (NoAccountProof addr)))"

definition code_by_hash_ref :: "proven_db \<Rightarrow> b256 \<Rightarrow> (proven_db_error, bytes) result" where
  "code_by_hash_ref db code_hash =
     (if code_hash = 0 \<or> code_hash = KECCAK_EMPTY then Ok []
      else ok_or (pd_bytecodes db code_hash) (NoBytecode code_hash))"

definition storage_ref :: "crypto \<Rightarrow> proven_db \<Rightarrow> address \<Rightarrow> u256 \<Rightarrow> (proven_db_error, u256) result" where
  "storage_ref c db addr index =
     (case pd_verified_storage db (derive_flat_storage_key c addr index) of
        Some v \<Rightarrow> Ok (case v of Some x \<Rightarrow> x | None \<Rightarrow> 0)
      | None \<Rightarrow> Err (NoStorageProof addr index))"

definition block_hash_ref :: "proven_db \<Rightarrow> u64 \<Rightarrow> (proven_db_error, b256) result" where
  "block_hash_ref db number =
     Ok (case pd_block_hashes db number of Some h \<Rightarrow> h | None \<Rightarrow> 0)"

section \<open>Construction\<close>

definition expected_root_for_block :: "block_input \<Rightarrow> batch_meta \<Rightarrow> b256" where
  "expected_root_for_block block meta = bm_tree_root_before meta"

definition verify_storage_proof ::
  "crypto \<Rightarrow> b256 \<Rightarrow> storage_proof \<Rightarrow> (panic, b256 \<times> b256 option) result" where
  "verify_storage_proof c key pf = map_err (\<lambda>_. MerkleProofFailed) (verify c pf key)"

definition load_bytecodes :: "crypto \<Rightarrow> (b256 \<times> bytes) list \<Rightarrow> (panic, b256 \<rightharpoonup> bytes) result" where
  "load_bytecodes c bytecodes =
     foldR (\<lambda>(hash, code) out.
       rbind (ensure (cr_keccak256 c code = hash) BytecodeHashMismatch) (\<lambda>_. Ok (out(hash \<mapsto> code))))
       bytecodes Map.empty"

definition account_info_of :: "(b256 \<rightharpoonup> bytes) \<Rightarrow> account_properties \<Rightarrow> account_info" where
  "account_info_of bytecodes props =
     (let code_hash = (if ap_observable_bytecode_hash props = 0 then KECCAK_EMPTY
                       else ap_observable_bytecode_hash props)
      in \<lparr>ai_nonce = ap_nonce props, ai_balance = ap_balance props, ai_code_hash = code_hash,
          ai_code = bytecodes code_hash\<rparr>)"

definition verify_account ::
  "crypto \<Rightarrow> (b256 \<rightharpoonup> b256 option) \<Rightarrow> (b256 \<rightharpoonup> bytes) \<Rightarrow> address \<times> bytes \<Rightarrow> verified_accounts \<Rightarrow>
   (panic, verified_accounts) result" where
  "verify_account c storage bytecodes = (\<lambda>(addr, preimage) va.
     if va_infos va addr \<noteq> None then Ok va
     else rbind (ok_or (storage (derive_account_properties_key c addr)) PreimageWithoutProof) (\<lambda>proven_value.
       case proven_value of
         None \<Rightarrow> Ok (va\<lparr>va_infos := (va_infos va)(addr \<mapsto> None)\<rparr>)
       | Some proven_hash \<Rightarrow>
           rbind (ensure (proven_hash = ap_hash c preimage) PreimageHashMismatch) (\<lambda>_.
           rbind (map_err (\<lambda>_. PreimageUndecodable) (ap_decode preimage)) (\<lambda>props.
           Ok (va\<lparr>va_infos := (va_infos va)(addr \<mapsto> Some (account_info_of bytecodes props)),
                  va_code_fields := (va_code_fields va)(addr \<mapsto> code_fields_of props)\<rparr>)))))"

definition build_verified_accounts ::
  "crypto \<Rightarrow> block_input list \<Rightarrow> (b256 \<rightharpoonup> b256 option) \<Rightarrow> (b256 \<rightharpoonup> bytes) \<Rightarrow>
   (panic, verified_accounts) result" where
  "build_verified_accounts c blocks storage bytecodes =
     foldR (\<lambda>block. foldR (verify_account c storage bytecodes) (bi_account_preimages block)) blocks
       \<lparr>va_infos = Map.empty, va_code_fields = Map.empty\<rparr>"

definition verify_witness_block_hashes :: "block_input list \<Rightarrow> batch_meta \<Rightarrow> (panic, unit) result" where
  "verify_witness_block_hashes blocks meta =
     (if blocks = [] then Ok ()
      else let last_num = bi_number (last blocks)
           in if last_num < 255 then Ok ()
              else let oldest_available = last_num - 255
                   in checkR (\<lambda>block. checkR (\<lambda>(num, hash).
                        if oldest_available \<le> num \<and> num < last_num then
                          let idx = unat (num - oldest_available)
                          in if idx < length (bm_previous_block_hashes meta) then
                               let verified_hash = bm_previous_block_hashes meta ! idx
                               in if verified_hash \<noteq> 0 then ensure (hash = verified_hash) WitnessBlockHashMismatch
                                  else Ok ()
                             else Ok ()
                        else Ok ()) (bi_block_hashes block)) blocks)"

definition pre_batch_block_hashes :: "b256 list \<Rightarrow> u64 \<Rightarrow> u64 \<rightharpoonup> b256" where
  "pre_batch_block_hashes before_ring first_block_number =
     fold (\<lambda>(i, hash) m.
       let num = uint first_block_number - 256 + int i
       in if 0 \<le> num \<and> hash \<noteq> 0 then m(word_of_int num \<mapsto> hash) else m)
       (enumerate 0 before_ring) Map.empty"

text \<open>
  One proof of the construction loop: check the root, keep the first value of the key.
\<close>

definition add_proof ::
  "crypto \<Rightarrow> b256 \<Rightarrow> b256 \<times> storage_proof \<Rightarrow> (b256 \<rightharpoonup> b256 option) \<Rightarrow> (panic, b256 \<rightharpoonup> b256 option) result" where
  "add_proof c expected_root = (\<lambda>(key, pf) storage.
     rbind (verify_storage_proof c key pf) (\<lambda>(root, v).
     rbind (ensure (root = expected_root) ProofRootMismatch) (\<lambda>_.
     Ok (if storage key = None then storage(key \<mapsto> v) else storage))))"

definition collect_storage :: "crypto \<Rightarrow> batch_input \<Rightarrow> (panic, b256 \<rightharpoonup> b256 option) result" where
  "collect_storage c inp =
     foldR (\<lambda>block. foldR (add_proof c (expected_root_for_block block (in_batch_meta inp)))
              (bi_storage_proofs block)) (in_blocks inp) Map.empty"

definition build_proven_db :: "crypto \<Rightarrow> batch_input \<Rightarrow> (panic, proven_db) result" where
  "build_proven_db c inp =
     rbind (load_bytecodes c (in_bytecodes inp)) (\<lambda>bytecodes.
     rbind (collect_storage c inp) (\<lambda>verified_storage.
     rbind (build_verified_accounts c (in_blocks inp) verified_storage bytecodes) (\<lambda>accounts.
     rbind (verify_witness_block_hashes (in_blocks inp) (in_batch_meta inp)) (\<lambda>_.
     Ok (from_parts verified_storage accounts bytecodes Map.empty)))))"

section \<open>Every served value is a value of the tree\<close>

text \<open>The pairs and leaves all storage proofs of a batch hash.\<close>

definition batch_proofs :: "batch_input \<Rightarrow> (b256 \<times> storage_proof) list" where
  "batch_proofs inp = concat (map bi_storage_proofs (in_blocks inp))"

definition keyed_pairs :: "crypto \<Rightarrow> (b256 \<times> storage_proof) list \<Rightarrow> (b256 \<times> b256) set" where
  "keyed_pairs c ps = (\<Union>(k, p) \<in> set ps. set (proof_pairs c p k))"

definition keyed_leaves :: "(b256 \<times> storage_proof) list \<Rightarrow> tree_leaf set" where
  "keyed_leaves ps = (\<Union>(k, p) \<in> set ps. set (proof_leaves p k))"

lemma binding_mono: "binding c T P L \<Longrightarrow> P' \<subseteq> P \<Longrightarrow> L' \<subseteq> L \<Longrightarrow> binding c T P' L'"
  unfolding binding_def by (meson inj_on_subset insert_mono subset_refl Un_mono)

lemma collect_storage_flat:
  "collect_storage c inp =
     foldR (add_proof c (bm_tree_root_before (in_batch_meta inp))) (batch_proofs inp) Map.empty"
  by (simp add: collect_storage_def batch_proofs_def expected_root_for_block_def foldR_concat)

definition agrees :: "tree_leaf list \<Rightarrow> (b256 \<rightharpoonup> b256 option) \<Rightarrow> bool" where
  "agrees T storage \<longleftrightarrow> (\<forall>k v. k \<noteq> 0 \<longrightarrow> storage k = Some v \<longrightarrow> tree_map T k = v)"

lemma add_proof_agrees:
  assumes "wf_tree T" and "binding c T (keyed_pairs c ps) (keyed_leaves ps)" and "kp \<in> set ps"
    and "agrees T storage" and "add_proof c (tree_root c T) kp storage = Ok storage'"
  shows "agrees T storage'"
proof -
  obtain k p where kp: "kp = (k, p)" by fastforce
  obtain v where v: "verify c p k = Ok (tree_root c T, v)"
    and st: "storage' = (if storage k = None then storage(k \<mapsto> v) else storage)"
    using assms(5) by (auto simp: add_proof_def kp verify_storage_proof_def)
  have "binding c T (set (proof_pairs c p k)) (set (proof_leaves p k))"
    by (rule binding_mono [OF assms(2)]) (use assms(3) kp in \<open>auto simp: keyed_pairs_def keyed_leaves_def\<close>)
  then have "tree_map T k = v" if "k \<noteq> 0" by (rule verify_sound [OF assms(1) _ v that])
  then show ?thesis using assms(4) by (auto simp: agrees_def st)
qed

lemma foldR_add_proof_agrees:
  assumes "wf_tree T" and "binding c T (keyed_pairs c ps) (keyed_leaves ps)"
    and "foldR (add_proof c (tree_root c T)) qs storage = Ok storage'" and "set qs \<subseteq> set ps"
    and "agrees T storage"
  shows "agrees T storage'"
  using assms(3)
proof (rule foldR_invariant [where I = "agrees T"])
  show "agrees T storage" by (rule assms(5))
  fix kp s s' assume "kp \<in> set qs" "agrees T s" "add_proof c (tree_root c T) kp s = Ok s'"
  then show "agrees T s'" using add_proof_agrees [OF assms(1,2)] assms(4) by blast
qed

lemma agrees_empty [simp]: "agrees T Map.empty"
  by (simp add: agrees_def)

lemma collect_storage_agrees:
  assumes "wf_tree T" and "binding c T (keyed_pairs c (batch_proofs inp)) (keyed_leaves (batch_proofs inp))"
    and "tree_root c T = bm_tree_root_before (in_batch_meta inp)" and "collect_storage c inp = Ok storage"
  shows "agrees T storage"
  using foldR_add_proof_agrees [OF assms(1,2), of "batch_proofs inp" Map.empty storage] assms(3,4)
  by (simp add: collect_storage_flat)

text \<open>An account the construction serves, against the leaf of its properties.\<close>

definition account_ok ::
  "crypto \<Rightarrow> (b256 \<rightharpoonup> b256 option) \<Rightarrow> (b256 \<rightharpoonup> bytes) \<Rightarrow> address \<Rightarrow> account_info option \<Rightarrow>
   code_fields option \<Rightarrow> bool" where
  "account_ok c storage bytecodes addr info flds \<longleftrightarrow>
     (case info of
        None \<Rightarrow> storage (derive_account_properties_key c addr) = Some None \<and> flds = None
      | Some i \<Rightarrow> (\<exists>p. storage (derive_account_properties_key c addr) = Some (Some (ap_hash c (ap_encode p))) \<and>
                     i = account_info_of bytecodes p \<and> flds = Some (code_fields_of p)))"

definition account_agrees ::
  "crypto \<Rightarrow> (b256 \<rightharpoonup> b256 option) \<Rightarrow> (b256 \<rightharpoonup> bytes) \<Rightarrow> verified_accounts \<Rightarrow> bool" where
  "account_agrees c storage bytecodes va \<longleftrightarrow> (\<forall>addr. case va_infos va addr of
     None \<Rightarrow> va_code_fields va addr = None
   | Some info \<Rightarrow> account_ok c storage bytecodes addr info (va_code_fields va addr))"

lemma account_agrees_update:
  assumes "account_agrees c storage bytecodes va" and "account_ok c storage bytecodes addr info flds"
  shows "account_agrees c storage bytecodes
     (va\<lparr>va_infos := (va_infos va)(addr \<mapsto> info), va_code_fields := (va_code_fields va)(addr := flds)\<rparr>)"
  unfolding account_agrees_def
proof
  fix a
  show "case va_infos (va\<lparr>va_infos := (va_infos va)(addr \<mapsto> info), va_code_fields := (va_code_fields va)(addr := flds)\<rparr>) a of
      None \<Rightarrow> va_code_fields (va\<lparr>va_infos := (va_infos va)(addr \<mapsto> info), va_code_fields := (va_code_fields va)(addr := flds)\<rparr>) a = None
    | Some i \<Rightarrow> account_ok c storage bytecodes a i
        (va_code_fields (va\<lparr>va_infos := (va_infos va)(addr \<mapsto> info), va_code_fields := (va_code_fields va)(addr := flds)\<rparr>) a)"
    using spec [OF assms(1) [unfolded account_agrees_def], of a] assms(2)
    by (cases "a = addr"; cases "va_infos va a") simp_all
qed

lemma verify_account_cases:
  assumes "verify_account c storage bytecodes (addr, preimage) va = Ok va'" and "va_infos va addr = None"
  obtains "storage (derive_account_properties_key c addr) = Some None"
      "va' = va\<lparr>va_infos := (va_infos va)(addr \<mapsto> None)\<rparr>"
    | props where "storage (derive_account_properties_key c addr) = Some (Some (ap_hash c preimage))"
      "ap_decode preimage = Ok props"
      "va' = va\<lparr>va_infos := (va_infos va)(addr \<mapsto> Some (account_info_of bytecodes props)),
                va_code_fields := (va_code_fields va)(addr \<mapsto> code_fields_of props)\<rparr>"
proof (cases "storage (derive_account_properties_key c addr)")
  case None
  then show ?thesis using assms by (simp add: verify_account_def)
next
  case (Some v)
  then show ?thesis using assms that by (cases v) (auto simp: verify_account_def)
qed

lemma verify_account_agrees:
  assumes va: "account_agrees c storage bytecodes va" and ok: "verify_account c storage bytecodes ap va = Ok va'"
  shows "account_agrees c storage bytecodes va'"
proof -
  obtain addr preimage where ap: "ap = (addr, preimage)" by fastforce
  show ?thesis
  proof (cases "va_infos va addr")
    case (Some i)
    then show ?thesis using va ok by (simp add: verify_account_def ap)
  next
    case None
    then have fresh: "va_code_fields va addr = None"
      using va unfolding account_agrees_def by (metis option.simps(4))
    show ?thesis
    proof (rule verify_account_cases [OF ok [unfolded ap] None])
      assume st: "storage (derive_account_properties_key c addr) = Some None"
        "va' = va\<lparr>va_infos := (va_infos va)(addr \<mapsto> None)\<rparr>"
      have "(va_code_fields va)(addr := None) = va_code_fields va" using fresh by auto
      then show ?thesis using account_agrees_update [OF va, of addr None None] st
        by (simp add: account_ok_def)
    next
      fix props
      assume st: "storage (derive_account_properties_key c addr) = Some (Some (ap_hash c preimage))"
        "ap_decode preimage = Ok props"
        "va' = va\<lparr>va_infos := (va_infos va)(addr \<mapsto> Some (account_info_of bytecodes props)),
                  va_code_fields := (va_code_fields va)(addr \<mapsto> code_fields_of props)\<rparr>"
      have "account_ok c storage bytecodes addr (Some (account_info_of bytecodes props)) (Some (code_fields_of props))"
        using st(1) encode_decode [OF st(2)] by (auto simp: account_ok_def)
      then show ?thesis using account_agrees_update [OF va] st(3) by simp
    qed
  qed
qed

lemma build_verified_accounts_agrees:
  assumes "build_verified_accounts c blocks storage bytecodes = Ok va"
  shows "account_agrees c storage bytecodes va"
  using assms unfolding build_verified_accounts_def foldR_concat
proof (rule foldR_invariant)
  show "account_agrees c storage bytecodes \<lparr>va_infos = Map.empty, va_code_fields = Map.empty\<rparr>"
    by (simp add: account_agrees_def)
qed (rule verify_account_agrees)

lemma load_bytecodes_hash:
  assumes "load_bytecodes c bs = Ok m" and "m h = Some code"
  shows "cr_keccak256 c code = h"
proof -
  have "\<forall>h code. m h = Some code \<longrightarrow> cr_keccak256 c code = h"
    using assms(1) unfolding load_bytecodes_def
    by (rule foldR_invariant [where I = "\<lambda>m. \<forall>h code. m h = Some code \<longrightarrow> cr_keccak256 c code = h"])
       (auto split: if_splits)
  then show ?thesis using assms(2) by blast
qed

lemma build_proven_db_parts:
  assumes "build_proven_db c inp = Ok db"
  shows "collect_storage c inp = Ok (pd_verified_storage db)"
    and "load_bytecodes c (in_bytecodes inp) = Ok (pd_bytecodes db)"
    and "account_agrees c (pd_verified_storage db) (pd_bytecodes db) (pd_verified_accounts db)"
    and "pd_block_hashes db = Map.empty"
  using assms build_verified_accounts_agrees by (auto simp: build_proven_db_def from_parts_def)

text \<open>What it means for a database to answer for a tree: both kinds of reads agree with it.\<close>

definition storage_faithful :: "crypto \<Rightarrow> tree_leaf list \<Rightarrow> proven_db \<Rightarrow> address \<Rightarrow> u256 \<Rightarrow> bool" where
  "storage_faithful c T db addr index \<longleftrightarrow>
     (case storage_ref c db addr index of
        Err _ \<Rightarrow> True
      | Ok v \<Rightarrow> v = (case tree_map T (derive_flat_storage_key c addr index) of Some x \<Rightarrow> x | None \<Rightarrow> 0))"

definition account_faithful :: "crypto \<Rightarrow> tree_leaf list \<Rightarrow> proven_db \<Rightarrow> address \<Rightarrow> bool" where
  "account_faithful c T db addr \<longleftrightarrow>
     (case basic_ref c db addr of
        Err _ \<Rightarrow> True
      | Ok None \<Rightarrow> tree_map T (derive_account_properties_key c addr) = None
      | Ok (Some i) \<Rightarrow> (\<exists>p. tree_map T (derive_account_properties_key c addr) = Some (ap_hash c (ap_encode p)) \<and>
          ai_nonce i = ap_nonce p \<and> ai_balance i = ap_balance p \<and>
          ai_code_hash i = (if ap_observable_bytecode_hash p = 0 then KECCAK_EMPTY
                            else ap_observable_bytecode_hash p) \<and>
          (case ai_code i of None \<Rightarrow> True | Some code \<Rightarrow> cr_keccak256 c code = ai_code_hash i) \<and>
          pre_state_code_fields db addr = code_fields_of p))"

lemma agrees_storage_faithful:
  assumes "agrees T (pd_verified_storage db)" and "derive_flat_storage_key c addr index \<noteq> 0"
  shows "storage_faithful c T db addr index"
  using assms by (cases "pd_verified_storage db (derive_flat_storage_key c addr index)")
    (auto simp: storage_faithful_def storage_ref_def agrees_def)

lemma agrees_account_faithful:
  assumes ag: "agrees T (pd_verified_storage db)" and key: "derive_account_properties_key c addr \<noteq> 0"
    and acc: "account_agrees c (pd_verified_storage db) (pd_bytecodes db) (pd_verified_accounts db)"
    and bytecodes: "\<And>h code. pd_bytecodes db h = Some code \<Longrightarrow> cr_keccak256 c code = h"
  shows "account_faithful c T db addr"
proof (cases "va_infos (pd_verified_accounts db) addr")
  case None
  then show ?thesis using ag key
    by (cases "pd_verified_storage db (derive_account_properties_key c addr)")
       (auto simp: account_faithful_def basic_ref_def agrees_def split: option.splits)
next
  case (Some info)
  then have ok: "account_ok c (pd_verified_storage db) (pd_bytecodes db) addr info
      (va_code_fields (pd_verified_accounts db) addr)"
    using acc unfolding account_agrees_def by (metis option.simps(5))
  show ?thesis
  proof (cases info)
    case None
    then show ?thesis using Some ok ag key
      by (auto simp: account_faithful_def basic_ref_def account_ok_def agrees_def)
  next
    case (Some i)
    then obtain p where p: "pd_verified_storage db (derive_account_properties_key c addr)
          = Some (Some (ap_hash c (ap_encode p)))" "i = account_info_of (pd_bytecodes db) p"
        "va_code_fields (pd_verified_accounts db) addr = Some (code_fields_of p)"
      using ok by (auto simp: account_ok_def)
    have "tree_map T (derive_account_properties_key c addr) = Some (ap_hash c (ap_encode p))"
      using p(1) ag key by (auto simp: agrees_def)
    moreover have "case ai_code i of None \<Rightarrow> True | Some code \<Rightarrow> cr_keccak256 c code = ai_code_hash i"
      using bytecodes by (auto simp: p(2) account_info_of_def Let_def split: option.split)
    moreover have "basic_ref c db addr = Ok (Some i)"
      using \<open>va_infos (pd_verified_accounts db) addr = Some info\<close> Some by (simp add: basic_ref_def)
    moreover have "ai_nonce i = ap_nonce p" "ai_balance i = ap_balance p"
        "ai_code_hash i = (if ap_observable_bytecode_hash p = 0 then KECCAK_EMPTY
                           else ap_observable_bytecode_hash p)"
        "pre_state_code_fields db addr = code_fields_of p"
      by (simp_all add: p(2,3) pre_state_code_fields_def account_info_of_def Let_def)
    ultimately show ?thesis
      unfolding account_faithful_def by (simp only: result.case option.case) blast
  qed
qed

lemma proven_reads:
  assumes "build_proven_db c inp = Ok db" and "wf_tree T"
    and "binding c T (keyed_pairs c (batch_proofs inp)) (keyed_leaves (batch_proofs inp))"
    and "tree_root c T = bm_tree_root_before (in_batch_meta inp)"
  shows "derive_flat_storage_key c addr index \<noteq> 0 \<Longrightarrow> storage_faithful c T db addr index"
    and "derive_account_properties_key c addr \<noteq> 0 \<Longrightarrow> account_faithful c T db addr"
proof -
  note parts = build_proven_db_parts [OF assms(1)]
  have ag: "agrees T (pd_verified_storage db)"
    by (rule collect_storage_agrees [OF assms(2-4) parts(1)])
  show "storage_faithful c T db addr index" if "derive_flat_storage_key c addr index \<noteq> 0"
    by (rule agrees_storage_faithful [OF ag that])
  show "account_faithful c T db addr" if "derive_account_properties_key c addr \<noteq> 0"
    by (rule agrees_account_faithful [OF ag that parts(3)]) (rule load_bytecodes_hash [OF parts(2)])
qed

end
