(* ===== verification/Verify_Writes.thy ===== *)
theory Verify_Writes
  imports Proven_Db Merkle_Update_Sound "HOL-Library.AList"
begin

text \<open>
  Post-execution verification (\<open>lib/src/executor/verify.rs\<close>): the classification of what REVM
  left for an account, the code fields an account must carry, the write map with its injection
  and omission guards, and the comparison of the tree update with the write map. A \<open>HashMap\<close>
  that is iterated is the list of its entries in iteration order, with one entry per key.
\<close>

section \<open>The REVM cache\<close>

datatype account_state = NotExisting | Touched | StorageCleared | AccountStateNone

record db_account =
  da_info :: account_info
  da_account_state :: account_state
  da_storage :: "u256 \<rightharpoonup> u256"

record cache_db =
  cd_db :: proven_db
  cd_accounts :: "(address \<times> db_account) list"

section \<open>Post-state\<close>

datatype post_state = Written account_info | Destroyed | Unwritten

fun post_state_of :: "db_account option \<Rightarrow> bool \<Rightarrow> post_state" where
  "post_state_of (Some a) destroyed =
     (case da_account_state a of
        Touched \<Rightarrow> Written (da_info a)
      | StorageCleared \<Rightarrow> Written (da_info a)
      | NotExisting \<Rightarrow> (if destroyed then Destroyed else Unwritten)
      | AccountStateNone \<Rightarrow> Unwritten)"
| "post_state_of None destroyed = (if destroyed then Destroyed else Unwritten)"

definition no_code :: "b256 \<Rightarrow> bool" where
  "no_code code_hash \<longleftrightarrow> code_hash = KECCAK_EMPTY \<or> code_hash = 0"

definition expected_code_fields ::
  "crypto \<Rightarrow> proven_db \<Rightarrow> address \<Rightarrow> b256 \<Rightarrow> bool \<Rightarrow> (panic, code_fields) result" where
  "expected_code_fields c db addr code_hash deployed_in_batch =
     (if no_code code_hash then
        (if deployed_in_batch then Ok (evm_code_fields c [])
         else let pre_state = pre_state_code_fields db addr
              in Ok (if cf_observable_bytecode_len pre_state = 0 then pre_state else code_fields_empty))
      else rbind (map_err (\<lambda>_. PostStateCodeUnavailable) (code_by_hash_ref db code_hash))
             (\<lambda>code. Ok (evm_code_fields c code)))"

section \<open>The write map\<close>

type_synonym write_map = "(b256 \<times> b256) list"

definition collect_map :: "('k \<times> 'v) list \<Rightarrow> ('k \<times> 'v) list" where
  "collect_map xs = fold (\<lambda>(k, v). AList.update k v) xs []"

definition storage_write_map :: "crypto \<Rightarrow> ((address \<times> u256) \<times> u256) list \<Rightarrow> write_map" where
  "storage_write_map c storage_writes =
     fold (\<lambda>((addr, index), v). AList.update (derive_flat_storage_key c addr index) v) storage_writes []"

definition existed_before :: "crypto \<Rightarrow> proven_db \<Rightarrow> address \<Rightarrow> account_info option" where
  "existed_before c db addr = (case basic_ref c db addr of Ok i \<Rightarrow> i | Err _ \<Rightarrow> None)"

text \<open>The checks on one decoded after-preimage against the post-state of its account.\<close>

fun check_post_state ::
  "crypto \<Rightarrow> proven_db \<Rightarrow> bool \<Rightarrow> address \<Rightarrow> account_properties \<Rightarrow> post_state \<Rightarrow> (panic, unit) result" where
  "check_post_state c db deployed addr props (Written info) =
     rbind (ensure (ap_nonce props = ai_nonce info) AfterPreimageNonceMismatch) (\<lambda>_.
     rbind (ensure (ap_balance props = ai_balance info) AfterPreimageBalanceMismatch) (\<lambda>_.
     rbind (expected_code_fields c db addr (ai_code_hash info) deployed) (\<lambda>expected.
     ensure (code_fields_of props = expected) AfterPreimageCodeMismatch)))"
| "check_post_state c db deployed addr props Destroyed =
     rbind (ensure (existed_before c db addr \<noteq> None) DestroyedNeverExisted) (\<lambda>_.
     ensure (is_zeroed_account props) DestroyedNotZeroed)"
| "check_post_state c db deployed addr props Unwritten =
     (let observable = ap_observable_bytecode_hash props
      in if no_code observable then ensure (no_code_fields_valid c props) AfterPreimageCodeMismatch
         else rbind (map_err (\<lambda>_. PostStateCodeUnavailable) (code_by_hash_ref db observable)) (\<lambda>code.
              rbind (ensure ((ucast (drop_bit 48 (ap_versioning props)) :: u8) = EVM_EE_BYTE) NonEvmEnvironment) (\<lambda>_.
              ensure (code_fields_of props = evm_code_fields c code) AfterPreimageCodeMismatch)))"

definition account_write ::
  "crypto \<Rightarrow> address list \<Rightarrow> address list \<Rightarrow> cache_db \<Rightarrow> bool \<Rightarrow> address \<times> bytes \<Rightarrow> write_map \<Rightarrow>
   (panic, write_map) result" where
  "account_write c destroyed deployed cache is_upgrade_batch = (\<lambda>(addr, after_preimage) writes.
     rbind (map_err (\<lambda>_. AfterPreimageUndecodable) (ap_decode after_preimage)) (\<lambda>props.
     let post = post_state_of (map_of (cd_accounts cache) addr) (addr \<in> set destroyed)
     in rbind (ensure (post \<noteq> Unwritten \<or> is_upgrade_batch) AfterPreimageNotExecuted) (\<lambda>_.
        rbind (check_post_state c (cd_db cache) (addr \<in> set deployed) addr props post) (\<lambda>_.
        Ok (AList.update (derive_account_properties_key c addr) (ap_hash c after_preimage) writes)))))"

definition post_values :: "post_state \<Rightarrow> (u64 \<times> u256) option" where
  "post_values post = (case post of
     Written info \<Rightarrow> Some (ai_nonce info, ai_balance info) | Destroyed \<Rightarrow> Some (0, 0) | Unwritten \<Rightarrow> None)"

definition check_complete ::
  "crypto \<Rightarrow> address list \<Rightarrow> cache_db \<Rightarrow> (address \<times> bytes) list \<Rightarrow> address \<times> db_account \<Rightarrow> (panic, unit) result" where
  "check_complete c destroyed cache after_map = (\<lambda>(addr, db_account).
     case post_values (post_state_of (Some db_account) (addr \<in> set destroyed)) of
       None \<Rightarrow> Ok ()
     | Some (post_nonce, post_balance) \<Rightarrow>
         (let (pre_nonce, pre_balance) =
            (case existed_before c (cd_db cache) addr of
               Some info \<Rightarrow> (ai_nonce info, ai_balance info) | None \<Rightarrow> (0, 0))
          in if post_nonce \<noteq> pre_nonce \<or> post_balance \<noteq> pre_balance
             then ensure (addr \<in> fst ` set after_map) AfterPreimageMissing else Ok ()))"

definition build_revm_write_map ::
  "crypto \<Rightarrow> ((address \<times> u256) \<times> u256) list \<Rightarrow> address list \<Rightarrow> address list \<Rightarrow> cache_db \<Rightarrow>
   (address \<times> bytes) list \<Rightarrow> bool \<Rightarrow> (panic, write_map) result" where
  "build_revm_write_map c storage_writes destroyed deployed cache after_preimages is_upgrade_batch =
     (let after_map = collect_map after_preimages
      in rbind (foldR (account_write c destroyed deployed cache is_upgrade_batch) after_map
                  (storage_write_map c storage_writes)) (\<lambda>writes.
         rbind (checkR (check_complete c destroyed cache after_map) (cd_accounts cache)) (\<lambda>_. Ok writes)))"

section \<open>The tree update\<close>

definition verify_tree_update :: "crypto \<Rightarrow> batch_meta \<Rightarrow> write_map \<Rightarrow> (panic, b256 \<times> u64) result" where
  "verify_tree_update c meta revm_writes =
     (case bm_tree_update meta of
        Some u \<Rightarrow>
          rbind (ensure (length (bu_operations u) = length (bu_entries u)) OperationCountMismatch) (\<lambda>_.
          rbind (ensure (length (remdups (map fst (bu_entries u))) = length (bu_entries u)) DuplicateEntryKeys) (\<lambda>_.
          rbind (ensure (length revm_writes = length (bu_entries u)) WriteCountMismatch) (\<lambda>_.
          rbind (checkR (\<lambda>(key, tree_val).
                   rbind (ok_or (map_of revm_writes key) EntryNotComputed) (\<lambda>computed_val.
                   ensure (tree_val = computed_val) EntryValueMismatch)) (bu_entries u)) (\<lambda>_.
          rbind (ensure (bu_leaf_count_before u = bm_leaf_count_before meta) LeafCountMismatch) (\<lambda>_.
          apply_update c u (bm_tree_root_before meta))))))
      | None \<Rightarrow>
          rbind (ensure (revm_writes = []) WritesWithoutTreeUpdate) (\<lambda>_.
          Ok (bm_tree_root_before meta, bm_leaf_count_before meta)))"

section \<open>The entries are the writes\<close>

lemma distinct_storage_write_map: "distinct (map fst (storage_write_map c sw))"
proof -
  have "distinct (map fst (fold (\<lambda>((addr, index), v). AList.update (derive_flat_storage_key c addr index) v) sw m))"
    if "distinct (map fst m)" for m
    using that by (induction sw arbitrary: m) (auto simp: distinct_update split: prod.splits)
  then show ?thesis by (simp add: storage_write_map_def)
qed

lemma distinct_build_map:
  assumes "build_revm_write_map c sw destroyed deployed cache pre up = Ok writes"
  shows "distinct (map fst writes)"
proof -
  obtain after where "foldR (account_write c destroyed deployed cache up) after (storage_write_map c sw) = Ok writes"
    using assms by (auto simp: build_revm_write_map_def Let_def)
  then show ?thesis
    by (rule foldR_invariant [where I = "\<lambda>m. distinct (map fst m)"])
       (auto simp: distinct_storage_write_map account_write_def Let_def distinct_update)
qed

text \<open>Equal sizes and inclusion give equality, once both sides have distinct keys.\<close>

lemma same_size_map_eq:
  assumes "distinct (map fst xs)" and "distinct (map fst ys)" and "length xs = length ys"
    and "\<forall>(k, v) \<in> set xs. map_of ys k = Some v"
  shows "map_of xs = map_of ys"
proof -
  have "set xs \<subseteq> set ys" using assms(4) by (auto dest: map_of_SomeD)
  moreover have "card (set xs) = card (set ys)"
    using assms(1-3) by (metis distinct_card distinct_map)
  ultimately have "set xs = set ys" by (simp add: card_subset_eq)
  then show ?thesis using assms(1,2) by (simp add: map_of_inject_set)
qed

lemma verify_tree_update_entries:
  assumes "verify_tree_update c meta writes = Ok rn" and "bm_tree_update meta = Some u"
    and "distinct (map fst writes)"
  shows "map_of (bu_entries u) = map_of writes" and "distinct (map fst (bu_entries u))"
    and "length (bu_operations u) = length (bu_entries u)"
    and "bu_leaf_count_before u = bm_leaf_count_before meta"
    and "apply_update c u (bm_tree_root_before meta) = Ok rn"
proof -
  have d: "distinct (map fst (bu_entries u))"
    using assms(1,2) by (auto simp: verify_tree_update_def card_distinct length_remdups_card_conv)
  have "length (bu_entries u) = length writes"
    and "\<forall>(k, v) \<in> set (bu_entries u). map_of writes k = Some v"
    using assms(1,2) by (auto simp: verify_tree_update_def)
  then show "map_of (bu_entries u) = map_of writes" by (rule same_size_map_eq [OF d assms(3)])
  show "distinct (map fst (bu_entries u))" by (rule d)
  show "length (bu_operations u) = length (bu_entries u)"
    "bu_leaf_count_before u = bm_leaf_count_before meta"
    "apply_update c u (bm_tree_root_before meta) = Ok rn"
    using assms(1,2) by (auto simp: verify_tree_update_def)
qed

lemma verify_tree_update_refines:
  assumes ok: "verify_tree_update c meta writes = Ok (r, n)" and dist: "distinct (map fst writes)"
    and wf: "wf_tree T" and root: "tree_root c T = bm_tree_root_before meta"
    and len: "length T = unat (bm_leaf_count_before meta)"
    and bound: "length T + length writes < 2 ^ 64"
    and b: "\<And>u. bm_tree_update meta = Some u \<Longrightarrow>
      binding c T (set (update_pairs c u)) (snd ` set (bu_sorted_leaves u))"
  shows "\<exists>T'. wf_tree T' \<and> r = tree_root c T' \<and> unat n = length T' \<and> tree_map T' = tree_map T ++ map_of writes"
proof (cases "bm_tree_update meta")
  case None
  then have "writes = []" "r = tree_root c T" "unat n = length T"
    using ok root len by (auto simp: verify_tree_update_def)
  then show ?thesis using wf by auto
next
  case (Some u)
  note e = verify_tree_update_entries [OF ok Some dist]
  have lens: "length (bu_operations u) = length writes" "length (bu_entries u) = length writes"
    using ok Some by (auto simp: verify_tree_update_def)
  have "map_of (rev (map snd (zip (bu_operations u) (bu_entries u)))) = map_of (bu_entries u)"
    using e(2,3) map_of_inject_set [of "rev (bu_entries u)" "bu_entries u"]
    by (simp add: rev_map [symmetric])
  then have "tree_map (tree_writes u T) = tree_map T ++ map_of writes"
    using apply_update_refines(4) [OF wf b [OF Some] _ _ e(5) [folded root]] e(1,4) len bound lens by simp
  then show ?thesis
    using apply_update_refines(1-3) [OF wf b [OF Some] _ _ e(5) [folded root]] e(4) len bound lens by auto
qed

section \<open>Account writes\<close>

lemma collect_map_fold:
  "distinct (map fst m) \<Longrightarrow> distinct (map fst (fold (\<lambda>(k, v). AList.update k v) xs m)) \<and>
   map_of (fold (\<lambda>(k, v). AList.update k v) xs m) = map_of m ++ map_of (rev xs)"
proof (induction xs arbitrary: m)
  case (Cons x xs)
  then show ?case by (cases x) (simp add: distinct_update update_conv' map_add_def fun_eq_iff split: option.splits)
qed simp

lemma distinct_collect_map: "distinct (map fst (collect_map xs))"
  and map_of_collect_map: "map_of (collect_map xs) = map_of (rev xs)"
  using collect_map_fold [of "[]" xs] by (simp_all add: collect_map_def)

text \<open>What an accepted after-preimage says about its account.\<close>

fun leaf_matches :: "crypto \<Rightarrow> proven_db \<Rightarrow> bool \<Rightarrow> address \<Rightarrow> account_properties \<Rightarrow> post_state \<Rightarrow> bool" where
  "leaf_matches c db deployed addr p (Written info) \<longleftrightarrow> ap_nonce p = ai_nonce info \<and>
     ap_balance p = ai_balance info \<and>
     expected_code_fields c db addr (ai_code_hash info) deployed = Ok (code_fields_of p)"
| "leaf_matches c db deployed addr p Destroyed \<longleftrightarrow> ap_encode p = zeros 124"
| "leaf_matches c db deployed addr p Unwritten \<longleftrightarrow> False"

lemma account_write_pins:
  assumes "account_write c destroyed deployed cache False (addr, pre) writes = Ok writes'"
  shows "\<exists>p. pre = ap_encode p \<and> leaf_matches c (cd_db cache) (addr \<in> set deployed) addr p
      (post_state_of (map_of (cd_accounts cache) addr) (addr \<in> set destroyed))"
    and "writes' = AList.update (derive_account_properties_key c addr) (ap_hash c pre) writes"
proof -
  let ?post = "post_state_of (map_of (cd_accounts cache) addr) (addr \<in> set destroyed)"
  obtain p where p: "ap_decode pre = Ok p" and post: "?post \<noteq> Unwritten"
    and chk: "check_post_state c (cd_db cache) (addr \<in> set deployed) addr p ?post = Ok ()"
    using assms by (auto simp: account_write_def Let_def)
  have "leaf_matches c (cd_db cache) (addr \<in> set deployed) addr p ?post"
    using chk post by (cases ?post) (auto simp: zeroed_account_blob)
  then show "\<exists>p. pre = ap_encode p \<and> leaf_matches c (cd_db cache) (addr \<in> set deployed) addr p ?post"
    using encode_decode [OF p] by blast
  show "writes' = AList.update (derive_account_properties_key c addr) (ap_hash c pre) writes"
    using assms by (auto simp: account_write_def Let_def)
qed

lemma account_writes_value:
  assumes "foldR (account_write c destroyed deployed cache False) after writes = Ok writes'"
    and "distinct (map fst after)" and "inj_on (derive_account_properties_key c) (fst ` set after)"
    and "(addr, pre) \<in> set after"
  shows "map_of writes' (derive_account_properties_key c addr) = Some (ap_hash c pre)"
  using assms
proof (induction after arbitrary: writes)
  case (Cons x after)
  obtain a q where x: "x = (a, q)" by fastforce
  obtain w1 where w1: "account_write c destroyed deployed cache False (a, q) writes = Ok w1"
    and rest: "foldR (account_write c destroyed deployed cache False) after w1 = Ok writes'"
    using Cons.prems(1) by (auto simp: x)
  show ?case
  proof (cases "(addr, pre) \<in> set after")
    case True
    then show ?thesis using Cons.IH [OF rest] Cons.prems(2,3) by auto
  next
    case False
    then have aq: "addr = a" "pre = q" using Cons.prems(4) by (auto simp: x)
    have "derive_account_properties_key c a \<notin> derive_account_properties_key c ` fst ` set after"
      using Cons.prems(2,3) by (auto simp: x inj_on_def)
    with rest have "map_of writes' (derive_account_properties_key c a) = map_of w1 (derive_account_properties_key c a)"
    proof (induction after arbitrary: w1)
      case (Cons y after)
      then obtain w2 where w2: "account_write c destroyed deployed cache False y w1 = Ok w2"
        and rest2: "foldR (account_write c destroyed deployed cache False) after w2 = Ok writes'" by auto
      have "map_of w2 (derive_account_properties_key c a) = map_of w1 (derive_account_properties_key c a)"
        using account_write_pins(2) [of c destroyed deployed cache "fst y" "snd y" w1 w2] w2 Cons.prems(2)
        by (simp add: update_conv')
      then show ?case using Cons.IH [OF rest2] Cons.prems(2) by simp
    qed simp
    then show ?thesis using account_write_pins(2) [OF w1] by (simp add: aq update_conv')
  qed
qed simp

lemma build_map_complete:
  assumes ok: "build_revm_write_map c sw destroyed deployed cache pres False = Ok writes"
    and acc: "(addr, da) \<in> set (cd_accounts cache)" and dist: "distinct (map fst (cd_accounts cache))"
    and inj: "inj_on (derive_account_properties_key c) (fst ` set pres)"
    and post: "post_values (post_state_of (Some da) (addr \<in> set destroyed)) = Some (n, b)"
    and changed: "(n, b) \<noteq> (case existed_before c (cd_db cache) addr of
        Some info \<Rightarrow> (ai_nonce info, ai_balance info) | None \<Rightarrow> (0, 0))"
  shows "\<exists>p. map_of writes (derive_account_properties_key c addr) = Some (ap_hash c (ap_encode p)) \<and>
    ap_nonce p = n \<and> ap_balance p = b \<and>
    leaf_matches c (cd_db cache) (addr \<in> set deployed) addr p (post_state_of (Some da) (addr \<in> set destroyed))"
proof -
  let ?after = "collect_map pres"
  have f: "foldR (account_write c destroyed deployed cache False) ?after (storage_write_map c sw) = Ok writes"
    and complete: "\<forall>x \<in> set (cd_accounts cache). check_complete c destroyed cache ?after x = Ok ()"
    using ok by (auto simp: build_revm_write_map_def Let_def)
  have "addr \<in> fst ` set ?after"
    using bspec [OF complete acc] post changed
    by (auto simp: check_complete_def split: option.splits if_splits)
  then obtain pre where pre: "(addr, pre) \<in> set ?after" by auto
  obtain t t' where t: "account_write c destroyed deployed cache False (addr, pre) t = Ok t'"
    using foldR_each [OF f pre] by blast
  have m: "map_of (cd_accounts cache) addr = Some da" using acc dist by simp
  obtain p where p: "pre = ap_encode p"
      "leaf_matches c (cd_db cache) (addr \<in> set deployed) addr p (post_state_of (Some da) (addr \<in> set destroyed))"
    using account_write_pins(1) [OF t] by (auto simp: m)
  have keys: "fst ` set ?after \<subseteq> fst ` set pres"
    using map_of_collect_map [of pres] by (metis dom_map_of_conv_image_fst set_rev subset_refl)
  have "map_of writes (derive_account_properties_key c addr) = Some (ap_hash c pre)"
    by (rule account_writes_value [OF f distinct_collect_map inj_on_subset [OF inj keys] pre])
  moreover have "ap_nonce p = n \<and> ap_balance p = b"
    using p(2) post zeroed_account_blob [of p]
    by (cases "post_state_of (Some da) (addr \<in> set destroyed)")
       (auto simp: post_values_def is_zeroed_account_def)
  ultimately show ?thesis using p by blast
qed

end
