(* ===== verification/State_Claims.thy ===== *)
theory State_Claims
  imports Merkle_Claims Verify_Writes
begin

text \<open>
  The claims about the proof-verified database (\<open>lib/src/executor/proven_db.rs\<close>) and the
  verification after execution (\<open>lib/src/executor/verify.rs\<close>), with a sample batch of one block
  over the sample tree.
\<close>

section \<open>A sample batch\<close>

definition sample_account :: account_properties where
  "sample_account = \<lparr>ap_versioning = 0, ap_nonce = 1, ap_balance = 2, ap_bytecode_hash = 0, ap_unpadded_code_len = 0,
     ap_artifacts_len = 0, ap_observable_bytecode_hash = 0, ap_observable_bytecode_len = 0\<rparr>"

definition sample_block :: block_input where
  "sample_block = \<lparr>bi_number = 1, bi_timestamp = 10, bi_base_fee = 0, bi_gas_limit = 0, bi_coinbase = 0, bi_prev_randao = 0,
     bi_transactions = [], bi_account_preimages = [(0, ap_encode sample_account)], bi_block_hashes = [],
     bi_storage_proofs = [(5, Existing (honest_entry sample_crypto sample_tree 2))],
     bi_block_header_hash = 0, bi_l2_to_l1_logs = [], bi_expected_tree_root = 0\<rparr>"

definition sample_meta :: batch_meta where
  "sample_meta = \<lparr>bm_tree_root_before = 2064, bm_leaf_count_before = 3, bm_block_number_before = 0,
     bm_last_block_timestamp_before = 9, bm_block_hashes_blake_before = 7, bm_previous_block_hashes = [],
     bm_upgrade_tx_hash = 0, bm_da_commitment_scheme = 0, bm_pubdata = [], bm_multichain_root = 0, bm_sl_chain_id = 0,
     bm_blob_versioned_hashes = [], bm_tree_update = None, bm_account_preimages_after = [],
     bm_fri_proof_verification_enabled = False, bm_max_tx_gas_limit = 0, bm_pubdata_content = 0,
     bm_l1_tx_filtering_enabled = False, bm_large_contracts_enabled = False, bm_interop_proofs = None\<rparr>"

definition sample_batch :: batch_input where
  "sample_batch = \<lparr>in_version = 6, in_chain_id = 270, in_spec_id = 0, in_protocol_version_minor = 30,
     in_blocks = [sample_block], in_batch_meta = sample_meta, in_bytecodes = []\<rparr>"

lemma sample_key: "derive_flat_storage_key sample_crypto a i = ucast (ucast i :: u8) + 5"
proof -
  have "(zeros 12 @ bytes20 a @ bytes32 i) ! 63 = bytes32 i ! 31" by (simp add: nth_append)
  then show ?thesis
    by (simp add: derive_flat_storage_key_def sample_crypto_def sample_digest_def bytes32_low)
qed

lemma sample_account_hash: "ap_hash sample_crypto (ap_encode p) = 7"
  by (simp add: ap_hash_def sample_crypto_def sample_digest_def)

lemma sample_proof: "honest_proof sample_crypto sample_tree 5 (Existing (honest_entry sample_crypto sample_tree 2))"
  by (rule honest_existing [OF sample_tree_wf]) (simp_all add: sample_tree_def)

lemma sample_recover:
  "recover_root sample_crypto (honest_entry sample_crypto sample_tree 2) 5 = 2064"
  "sp_value (honest_entry sample_crypto sample_tree 2) = 7"
  using sample_proof by (simp_all add: honest_proof_def sample_root) (simp add: honest_entry_def sample_tree_def)

definition sample_db :: proven_db where
  "sample_db = \<lparr>pd_verified_storage = [5 \<mapsto> Some 7],
     pd_verified_accounts = \<lparr>va_infos = [0 \<mapsto> Some \<lparr>ai_nonce = 1, ai_balance = 2, ai_code_hash = KECCAK_EMPTY, ai_code = None\<rparr>],
       va_code_fields = [0 \<mapsto> code_fields_empty]\<rparr>,
     pd_bytecodes = Map.empty, pd_block_hashes = Map.empty\<rparr>"

lemma sample_build: "build_proven_db sample_crypto sample_batch = Ok sample_db"
proof -
  have storage: "collect_storage sample_crypto sample_batch = Ok [5 \<mapsto> Some 7]"
    by (simp add: collect_storage_def sample_batch_def sample_block_def add_proof_def verify_storage_proof_def
        sample_recover expected_root_for_block_def sample_meta_def)
  have key: "derive_account_properties_key sample_crypto 0 = 5"
    by (simp add: derive_account_properties_key_def sample_key)
  have "build_verified_accounts sample_crypto (in_blocks sample_batch) [5 \<mapsto> Some 7] Map.empty =
      Ok (pd_verified_accounts sample_db)"
    by (simp add: build_verified_accounts_def sample_batch_def sample_block_def verify_account_def key sample_account_hash
        decode_encode account_info_of_def sample_account_def code_fields_of_def code_fields_empty_def sample_db_def)
  moreover have "verify_witness_block_hashes (in_blocks sample_batch) (in_batch_meta sample_batch) = Ok ()"
    by (simp add: verify_witness_block_hashes_def sample_batch_def sample_block_def)
  moreover have "load_bytecodes sample_crypto (in_bytecodes sample_batch) = Ok Map.empty"
    by (simp add: load_bytecodes_def sample_batch_def)
  ultimately show ?thesis
    unfolding build_proven_db_def by (simp add: storage from_parts_def) (simp add: sample_db_def)
qed

lemma sample_batch_binding:
  "binding sample_crypto sample_tree (keyed_pairs sample_crypto (batch_proofs sample_batch)) (keyed_leaves (batch_proofs sample_batch))"
proof -
  have "batch_proofs sample_batch = [(5, Existing (honest_entry sample_crypto sample_tree 2))]"
    by (simp add: batch_proofs_def sample_batch_def sample_block_def)
  then show ?thesis using binding_honest [OF sample_binding sample_proof]
    by (simp add: keyed_pairs_def keyed_leaves_def del: proof_pairs.simps proof_leaves.simps)
qed

section \<open>Claims\<close>

text \<open>
  C5. Every read the database of a batch answers is answered as the tree behind the pinned root has
  it: a storage slot with the value of its key, or zero for an absent key, and an account with the
  nonce, balance, code hash, code and code fields of the properties blob whose hash the tree holds.
\<close>

theorem proven_reads_faithful:
  assumes "build_proven_db c inp = Ok db" and "wf_tree T"
    and "binding c T (keyed_pairs c (batch_proofs inp)) (keyed_leaves (batch_proofs inp))"
    and "tree_root c T = bm_tree_root_before (in_batch_meta inp)"
    and "derive_flat_storage_key c addr index \<noteq> 0" and "derive_account_properties_key c addr \<noteq> 0"
  shows "storage_faithful c T db addr index \<and> account_faithful c T db addr"
  using proven_reads [OF assms(1-4)] assms(5,6) by blast

theorem proven_reads_faithful_witness:
  "storage_faithful sample_crypto sample_tree sample_db 0 0 \<and> account_faithful sample_crypto sample_tree sample_db 0 \<and>
   storage_ref sample_crypto sample_db 0 0 = Ok 7"
proof -
  have "tree_root sample_crypto sample_tree = bm_tree_root_before (in_batch_meta sample_batch)"
    by (simp add: sample_root sample_batch_def sample_meta_def)
  moreover have "derive_flat_storage_key sample_crypto 0 0 \<noteq> 0" "derive_account_properties_key sample_crypto 0 \<noteq> 0"
    by (simp_all add: derive_account_properties_key_def sample_key)
  moreover have "storage_ref sample_crypto sample_db 0 0 = Ok 7"
    by (simp add: storage_ref_def sample_key sample_db_def)
  ultimately show ?thesis
    using proven_reads_faithful [OF sample_build sample_tree_wf sample_batch_binding] by blast
qed

text \<open>
  C6. The comparison of the tree update with the writes of the execution refines the write of
  exactly these entries: an accepted update leads from the pinned tree to a well-formed tree with
  the returned root and leaf count whose map is the old one overridden by the write map.
\<close>

theorem post_state_root_refines:
  assumes "verify_tree_update c meta writes = Ok (r, n)" and "distinct (map fst writes)"
    and "wf_tree T" and "tree_root c T = bm_tree_root_before meta"
    and "length T = unat (bm_leaf_count_before meta)" and "length T + length writes < 2 ^ 64"
    and "\<And>u. bm_tree_update meta = Some u \<Longrightarrow>
      binding c T (set (update_pairs c u)) (snd ` set (bu_sorted_leaves u))"
  shows "\<exists>T'. wf_tree T' \<and> r = tree_root c T' \<and> unat n = length T' \<and> tree_map T' = tree_map T ++ map_of writes"
  using assms by (rule verify_tree_update_refines)

theorem post_state_root_refines_witness:
  "\<exists>T'. wf_tree T' \<and> 3064 = tree_root sample_crypto T' \<and> unat (4 :: u64) = length T' \<and>
     tree_map T' = tree_map sample_tree ++ map_of [(3, 11), (5, 8)]"
proof (rule post_state_root_refines)
  let ?meta = "sample_meta\<lparr>bm_tree_update := Some sample_update\<rparr>"
  show "verify_tree_update sample_crypto ?meta [(3, 11), (5, 8)] = Ok (3064, 4)"
    using sample_apply by (simp add: verify_tree_update_def sample_update_sel sample_root sample_meta_def)
  show "binding sample_crypto sample_tree (set (update_pairs sample_crypto u)) (snd ` set (bu_sorted_leaves u))"
    if "bm_tree_update ?meta = Some u" for u using that sample_update_binding by auto
qed (simp_all add: sample_tree_wf sample_root sample_meta_def, simp_all add: sample_tree_def)


definition sample_cache :: cache_db where
  "sample_cache = \<lparr>cd_db = sample_db, cd_accounts = [(0, \<lparr>da_info = \<lparr>ai_nonce = 4, ai_balance = 9,
     ai_code_hash = KECCAK_EMPTY, ai_code = None\<rparr>, da_account_state = Touched, da_storage = Map.empty\<rparr>)]\<rparr>"

definition sample_after :: account_properties where
  "sample_after = sample_account\<lparr>ap_nonce := 4, ap_balance := 9\<rparr>"

lemma sample_account_write:
  "account_write sample_crypto [] [] sample_cache False (0, ap_encode sample_after) [] = Ok [(5, 7)]"
  by (simp add: account_write_def decode_encode sample_account_hash sample_cache_def derive_account_properties_key_def sample_key
      expected_code_fields_def no_code_def pre_state_code_fields_def sample_db_def code_fields_empty_def)
     (simp add: sample_after_def sample_account_def code_fields_of_def)




end
