(* ===== verification/Tx_Auth.thy ===== *)
theory Tx_Auth
  imports Batch_Types Block_Header
begin

text \<open>
  Transaction authentication (\<open>lib/src/executor/tx.rs\<close>): the ABI layout of L1 and upgrade
  transactions, the RLP reader of system transactions, the interop root import and its rolling
  hash, and the construction of a REVM transaction from the authenticated bytes of each kind.
  Offsets are \<open>usize\<close> values: naturals whose sums wrap at \<open>2 ^ 64\<close>, and a slice whose bounds are
  not increasing or not inside the buffer panics. The signed envelope decoder, the signer recovery
  and the REVM transaction builder are crates, and parameters here.
\<close>

section \<open>usize and slices\<close>

definition slice :: "bytes \<Rightarrow> nat \<Rightarrow> nat \<Rightarrow> (panic, bytes) result" where
  "slice buf a b = (if a \<le> b \<and> b \<le> length buf then Ok (take (b - a) (drop a buf)) else Err (TxPanic SliceOutOfRange))"

text \<open>\<open>Uint::to\<close>: conversion to a narrower unsigned type, which panics when the value does not fit.\<close>

definition uint_to :: "nat \<Rightarrow> u256 \<Rightarrow> (panic, nat) result" where
  "uint_to bits w = (if unat w < 2 ^ bits then Ok (unat w) else Err (TxPanic UintConversionOverflow))"

section \<open>ABI layout\<close>

definition OUTER_OFFSET :: nat where "OUTER_OFFSET = 32"
definition TX_TYPE :: nat where "TX_TYPE = 0"
definition FROM :: nat where "FROM = 1"
definition TO :: nat where "TO = 2"
definition GAS_LIMIT :: nat where "GAS_LIMIT = 3"
definition MAX_FEE_PER_GAS :: nat where "MAX_FEE_PER_GAS = 5"
definition NONCE :: nat where "NONCE = 8"
definition VALUE :: nat where "VALUE = 9"
definition MINT :: nat where "MINT = 10"
definition REFUND :: nat where "REFUND = 11"
definition DATA_OFFSET :: nat where "DATA_OFFSET = 14"

definition abi_word :: "bytes \<Rightarrow> nat \<Rightarrow> (panic, u256) result" where
  "abi_word abi field =
     (let off = OUTER_OFFSET + field * 32
      in rbind (slice abi off (off + 32)) (\<lambda>w. Ok (of_be_bytes w)))"

definition abi_addr :: "bytes \<Rightarrow> nat \<Rightarrow> (panic, address) result" where
  "abi_addr abi field = rbind (abi_word abi field) (\<lambda>w. Ok (of_be_bytes (drop 12 (bytes32 w))))"

definition abi_data :: "bytes \<Rightarrow> (panic, bytes) result" where
  "abi_data abi =
     rbind (abi_word abi DATA_OFFSET) (\<lambda>w.
     rbind (uint_to 64 w) (\<lambda>rel_offset.
     let abs_offset = uadd OUTER_OFFSET rel_offset
     in rbind (slice abi abs_offset (uadd abs_offset 32)) (\<lambda>lw.
        rbind (uint_to 64 (of_be_bytes lw)) (\<lambda>len.
        slice abi (uadd abs_offset 32) (uadd (uadd abs_offset 32) len)))))"

section \<open>RLP headers\<close>

definition rlp_len :: "bytes \<Rightarrow> nat \<Rightarrow> nat \<Rightarrow> (panic, nat) result" where
  "rlp_len buf pos len_len =
     rbind (ensure (len_len \<le> 8 \<and> pos + len_len \<le> length buf) (TxPanic RlpBadLength)) (\<lambda>_.
     Ok (unat (foldl (\<lambda>acc b. push_bit 8 acc OR ucast b) (0 :: u64) (take len_len (drop pos buf)))))"

definition rlp_header :: "bytes \<Rightarrow> nat \<Rightarrow> bool \<Rightarrow> (panic, nat \<times> nat) result" where
  "rlp_header buf pos expect_list =
     rbind (ensure (pos < length buf) (TxPanic RlpTruncated)) (\<lambda>_.
     let b = buf ! pos
     in rbind
       (if b \<le> 0x7f then Ok (False, pos, 1)
        else if b \<le> 0xb7 then Ok (False, pos + 1, unat (b - 0x80))
        else if b \<le> 0xbf then
          (let len_len = unat (b - 0xb7)
           in rbind (rlp_len buf (pos + 1) len_len) (\<lambda>payload_len. Ok (False, pos + 1 + len_len, payload_len)))
        else if b \<le> 0xf7 then Ok (True, pos + 1, unat (b - 0xc0))
        else
          (let len_len = unat (b - 0xf7)
           in rbind (rlp_len buf (pos + 1) len_len) (\<lambda>payload_len. Ok (True, pos + 1 + len_len, payload_len))))
       (\<lambda>(is_list, payload_start, payload_len).
        rbind (ensure (is_list = expect_list) (TxPanic RlpUnexpectedKind)) (\<lambda>_.
        rbind (ensure (uadd payload_start payload_len \<le> length buf) (TxPanic RlpPayloadOutOfBounds)) (\<lambda>_.
        Ok (payload_start, payload_len)))))"

section \<open>System transactions\<close>

definition SYSTEM_TX_TYPE :: u8 where "SYSTEM_TX_TYPE = 0x7d"
definition BOOTLOADER_FORMAL_ADDRESS :: address where "BOOTLOADER_FORMAL_ADDRESS = 0x8001"
definition SEL_SET_SL_CHAIN_ID :: bytes where "SEL_SET_SL_CHAIN_ID = [0x04, 0x02, 0x03, 0xe6]"
definition SEL_SET_INTEROP_FEE :: bytes where "SEL_SET_INTEROP_FEE = [0x08, 0x27, 0x3d, 0x8a]"
definition L2_INTEROP_ROOT_STORAGE_ADDRESS :: address where "L2_INTEROP_ROOT_STORAGE_ADDRESS = 0x10008"
definition TX_SYSTEM_CONTEXT_ADDRESS :: address where "TX_SYSTEM_CONTEXT_ADDRESS = 0x800b"
definition L2_INTEROP_CENTER_ADDRESS :: address where "L2_INTEROP_CENTER_ADDRESS = 0x1000d"

definition decode_system_tx :: "crypto \<Rightarrow> b256 \<Rightarrow> bytes \<Rightarrow> (panic, address \<times> bytes) result" where
  "decode_system_tx c tx_hash encoded =
     rbind (ensure (cr_keccak256 c encoded = tx_hash) (TxPanic TxHashMismatch)) (\<lambda>_.
     rbind (ensure (encoded \<noteq> [] \<and> hd encoded = SYSTEM_TX_TYPE) (TxPanic SystemTxTypeMismatch)) (\<lambda>_.
     let rlp = tl encoded
     in rbind (rlp_header rlp 0 True) (\<lambda>(list_start, list_len).
        rbind (ensure (uadd list_start list_len = length rlp) (TxPanic SystemTxTrailingBytes)) (\<lambda>_.
        rbind (rlp_header rlp list_start False) (\<lambda>(to_start, to_len).
        rbind (ensure (to_len = 20) (TxPanic SystemTxToNotAddress)) (\<lambda>_.
        rbind (slice rlp to_start (uadd to_start 20)) (\<lambda>to_bytes.
        rbind (rlp_header rlp (uadd to_start to_len) False) (\<lambda>(input_start, input_len).
        rbind (slice rlp input_start (uadd input_start input_len)) (\<lambda>data.
        rbind (rlp_header rlp (uadd input_start input_len) False) (\<lambda>(salt_start, salt_len).
        rbind (ensure (salt_len \<le> 8) (TxPanic SystemTxSaltTooLong)) (\<lambda>_.
        rbind (ensure (uadd salt_start salt_len = length rlp) (TxPanic SystemTxNotConsumed)) (\<lambda>_.
        Ok (of_be_bytes to_bytes, data)))))))))))))"

datatype interop_import_abi = WithoutTimestamp | WithTimestamp

fun import_selector :: "interop_import_abi \<Rightarrow> bytes" where
  "import_selector WithoutTimestamp = [0xcc, 0xa2, 0xf7, 0xbc]"
| "import_selector WithTimestamp = [0xc1, 0x7a, 0x9f, 0xbd]"

fun static_head_len :: "interop_import_abi \<Rightarrow> nat" where
  "static_head_len WithoutTimestamp = 96"
| "static_head_len WithTimestamp = 128"

record imported_interop_root =
  ir_chain_id :: bytes
  ir_block_or_batch_number :: bytes
  ir_timestamp :: "bytes option"
  ir_sides :: "b256 list"

definition interop_word :: "bytes \<Rightarrow> nat \<Rightarrow> (panic, bytes) result" where
  "interop_word abi off =
     rbind (ensure (uadd off 32 \<le> length abi) (TxPanic AbiWordOutOfBounds)) (\<lambda>_. slice abi off (uadd off 32))"

definition interop_uword :: "bytes \<Rightarrow> nat \<Rightarrow> (panic, nat) result" where
  "interop_uword abi off =
     rbind (interop_word abi off) (\<lambda>w.
     rbind (ensure (\<forall>b \<in> set (take 24 w). b = 0) (TxPanic AbiLengthTooLarge)) (\<lambda>_.
     Ok (unat (of_be_bytes (drop 24 w) :: u64))))"

text \<open>
  The counted loops push one element per round and stop at the first panic. A count the buffer
  cannot hold panics after at most one round per word of the buffer, so the loops recurse on the
  count itself.
\<close>

fun read_sides :: "bytes \<Rightarrow> nat \<Rightarrow> nat \<Rightarrow> nat \<Rightarrow> (panic, b256 list) result" where
  "read_sides abi sides_off j 0 = Ok []"
| "read_sides abi sides_off j (Suc m) =
     rbind (interop_word abi (uadd (uadd sides_off 32) ((32 * j) mod 2 ^ 64))) (\<lambda>w.
     rbind (read_sides abi sides_off (Suc j) m) (\<lambda>ws. Ok (of_be_bytes w # ws)))"

definition read_root :: "bytes \<Rightarrow> interop_import_abi \<Rightarrow> nat \<Rightarrow> nat \<Rightarrow> (panic, imported_interop_root) result" where
  "read_root abi import_abi elems_base i =
     rbind (interop_uword abi (uadd elems_base ((32 * i) mod 2 ^ 64))) (\<lambda>rel.
     let struct_off = uadd elems_base rel
     in rbind (interop_word abi struct_off) (\<lambda>chain_id.
        rbind (interop_word abi (uadd struct_off 32)) (\<lambda>number.
        rbind (case import_abi of WithoutTimestamp \<Rightarrow> Ok None
               | WithTimestamp \<Rightarrow> rbind (interop_word abi (uadd struct_off 64)) (\<lambda>t. Ok (Some t))) (\<lambda>timestamp.
        rbind (interop_uword abi (uadd struct_off (static_head_len import_abi - 32))) (\<lambda>srel.
        let sides_off = uadd struct_off srel
        in rbind (interop_uword abi sides_off) (\<lambda>m.
           rbind (read_sides abi sides_off 0 m) (\<lambda>sides.
           Ok \<lparr>ir_chain_id = chain_id, ir_block_or_batch_number = number, ir_timestamp = timestamp,
               ir_sides = sides\<rparr>)))))))"

fun read_roots :: "bytes \<Rightarrow> interop_import_abi \<Rightarrow> nat \<Rightarrow> nat \<Rightarrow> nat \<Rightarrow> (panic, imported_interop_root list) result" where
  "read_roots abi import_abi elems_base i 0 = Ok []"
| "read_roots abi import_abi elems_base i (Suc n) =
     rbind (read_root abi import_abi elems_base i) (\<lambda>r.
     rbind (read_roots abi import_abi elems_base (Suc i) n) (\<lambda>rs. Ok (r # rs)))"

definition decode_interop_roots ::
  "bytes \<Rightarrow> interop_import_abi \<Rightarrow> (panic, imported_interop_root list) result" where
  "decode_interop_roots abi import_abi =
     rbind (interop_uword abi 0) (\<lambda>array_off.
     rbind (interop_uword abi array_off) (\<lambda>n.
     read_roots abi import_abi (uadd array_off 32) 0 n))"

definition root_preimage :: "b256 \<Rightarrow> imported_interop_root \<Rightarrow> bytes" where
  "root_preimage rolling_hash root =
     bytes32 rolling_hash @ ir_chain_id root @ ir_block_or_batch_number root @
     (case ir_timestamp root of Some t \<Rightarrow> t | None \<Rightarrow> []) @ concat (map bytes32 (ir_sides root))"

definition fold_system_tx_interop_roots ::
  "crypto \<Rightarrow> b256 \<Rightarrow> bytes \<Rightarrow> interop_import_abi \<Rightarrow> b256 \<Rightarrow> (panic, b256) result" where
  "fold_system_tx_interop_roots c tx_hash encoded import_abi rolling_hash =
     rbind (decode_system_tx c tx_hash encoded) (\<lambda>(to, data).
     rbind (ensure (4 \<le> length data) (TxPanic SelectorMissing)) (\<lambda>_.
     let selector = take 4 data
     in if selector = import_selector import_abi then
          rbind (ensure (to = L2_INTEROP_ROOT_STORAGE_ADDRESS) (TxPanic ImportWrongTarget)) (\<lambda>_.
          rbind (decode_interop_roots (drop 4 data) import_abi) (\<lambda>roots.
          Ok (foldl (\<lambda>h root. cr_keccak256 c (root_preimage h root)) rolling_hash roots)))
        else if selector = SEL_SET_SL_CHAIN_ID then
          rbind (ensure (to = TX_SYSTEM_CONTEXT_ADDRESS) (TxPanic SlChainIdWrongTarget)) (\<lambda>_. Ok rolling_hash)
        else if selector = SEL_SET_INTEROP_FEE then
          rbind (ensure (to = L2_INTEROP_CENTER_ADDRESS) (TxPanic InteropFeeWrongTarget)) (\<lambda>_. Ok rolling_hash)
        else Err (TxPanic UnknownSelector)))"

section \<open>Building transactions\<close>

datatype tx_kind = Call address | Create

text \<open>The fields handed to the REVM and ZKsync transaction builders.\<close>

record ('al, 'au) tx_args =
  ta_caller :: address
  ta_gas_limit :: u64
  ta_gas_price :: u128
  ta_gas_priority_fee :: "u128 option"
  ta_kind :: tx_kind
  ta_value :: u256
  ta_data :: bytes
  ta_nonce :: u64
  ta_access_list :: "'al option"
  ta_tx_type :: u8
  ta_chain_id :: "u64 option"
  ta_blob_hashes :: "b256 list"
  ta_max_fee_per_blob_gas :: u128
  ta_authorization_list :: "'au list"
  ta_mint :: u256
  ta_refund_recipient :: "address option"
  ta_gas_used_override :: "u64 option"
  ta_force_fail :: bool
  ta_tx_hash :: b256

record ('al, 'au) tx_envelope =
  te_to :: "address option"
  te_value :: u256
  te_input :: bytes
  te_nonce :: u64
  te_gas_limit :: u64
  te_max_fee_per_gas :: u128
  te_max_priority_fee_per_gas :: "u128 option"
  te_chain_id :: "u64 option"
  te_tx_type :: u8
  te_access_list :: "'al option"
  te_authorization_list :: "'au list option"
  te_blob_versioned_hashes :: "b256 list option"
  te_max_fee_per_blob_gas :: "u128 option"

record ('al, 'au, 'tx) tx_crates =
  tc_decode_2718 :: "bytes \<Rightarrow> ('al, 'au) tx_envelope option"
  tc_recover_signer :: "('al, 'au) tx_envelope \<Rightarrow> address option"
  tc_build :: "('al, 'au) tx_args \<Rightarrow> 'tx option"

definition build_l1_upgrade_tx ::
  "crypto \<Rightarrow> ('al, 'au, 'tx) tx_crates \<Rightarrow> tx_input \<Rightarrow> b256 \<Rightarrow> bytes \<Rightarrow> (panic, 'tx \<times> b256 \<times> u8) result" where
  "build_l1_upgrade_tx c cr inp tx_hash abi =
     rbind (ensure (cr_keccak256 c abi = tx_hash) (TxPanic TxHashMismatch)) (\<lambda>_.
     rbind (rbind (abi_word abi TX_TYPE) (uint_to 8)) (\<lambda>tx_type.
     rbind (abi_addr abi FROM) (\<lambda>caller.
     rbind (abi_addr abi TO) (\<lambda>to.
     rbind (abi_word abi VALUE) (\<lambda>v.
     rbind (rbind (abi_word abi GAS_LIMIT) (uint_to 64)) (\<lambda>raw_gas_limit.
     rbind (abi_word abi MAX_FEE_PER_GAS) (\<lambda>gas_price.
     rbind (rbind (abi_word abi NONCE) (uint_to 64)) (\<lambda>nonce.
     rbind (abi_word abi MINT) (\<lambda>mint.
     rbind (abi_addr abi REFUND) (\<lambda>refund_recipient.
     rbind (abi_data abi) (\<lambda>data.
     let gas_limit = (if tx_type = 0x7e then min (raw_gas_limit * 10) (2 ^ 64 - 1) else raw_gas_limit)
     in rbind (uint_to 128 gas_price) (\<lambda>price.
        rbind (ok_or (tc_build cr
           \<lparr>ta_caller = caller, ta_gas_limit = of_nat gas_limit, ta_gas_price = of_nat price,
            ta_gas_priority_fee = None, ta_kind = Call to, ta_value = v, ta_data = data,
            ta_nonce = of_nat nonce, ta_access_list = None, ta_tx_type = of_nat tx_type,
            ta_chain_id = ti_chain_id inp, ta_blob_hashes = [], ta_max_fee_per_blob_gas = 0,
            ta_authorization_list = [], ta_mint = mint, ta_refund_recipient = Some refund_recipient,
            ta_gas_used_override = ti_gas_used_override inp, ta_force_fail = ti_force_fail inp,
            ta_tx_hash = tx_hash\<rparr>) (TxPanic TxBuildFailed)) (\<lambda>tx.
        Ok (tx, tx_hash, of_nat tx_type))))))))))))))"

definition build_l2_tx ::
  "crypto \<Rightarrow> ('al, 'au, 'tx) tx_crates \<Rightarrow> tx_input \<Rightarrow> bytes \<Rightarrow> u64 \<Rightarrow> (panic, 'tx \<times> b256 \<times> u8) result" where
  "build_l2_tx c cr inp sbytes individual_tx_gas_limit =
     rbind (ok_or (tc_decode_2718 cr sbytes) (TxPanic EnvelopeUndecodable)) (\<lambda>env.
     rbind (ok_or (tc_recover_signer cr env) (TxPanic SignerUnrecoverable)) (\<lambda>caller.
     let tx_hash = cr_keccak256 c sbytes
     in rbind (ensure (te_gas_limit env \<le> individual_tx_gas_limit) (TxPanic GasLimitExceedsCap)) (\<lambda>_.
        rbind (ok_or (tc_build cr
           \<lparr>ta_caller = caller, ta_gas_limit = te_gas_limit env, ta_gas_price = te_max_fee_per_gas env,
            ta_gas_priority_fee = te_max_priority_fee_per_gas env,
            ta_kind = (case te_to env of Some a \<Rightarrow> Call a | None \<Rightarrow> Create),
            ta_value = te_value env, ta_data = te_input env, ta_nonce = te_nonce env,
            ta_access_list = te_access_list env, ta_tx_type = te_tx_type env,
            ta_chain_id = (case te_chain_id env of Some i \<Rightarrow> Some i | None \<Rightarrow> ti_chain_id inp),
            ta_blob_hashes = (case te_blob_versioned_hashes env of Some hs \<Rightarrow> hs | None \<Rightarrow> []),
            ta_max_fee_per_blob_gas = (case te_max_fee_per_blob_gas env of Some f \<Rightarrow> f | None \<Rightarrow> 0),
            ta_authorization_list = (case te_authorization_list env of Some l \<Rightarrow> l | None \<Rightarrow> []),
            ta_mint = 0, ta_refund_recipient = None,
            ta_gas_used_override = ti_gas_used_override inp, ta_force_fail = ti_force_fail inp,
            ta_tx_hash = tx_hash\<rparr>) (TxPanic TxBuildFailed)) (\<lambda>tx.
        Ok (tx, tx_hash, te_tx_type env)))))"

definition build_system_tx ::
  "crypto \<Rightarrow> ('al, 'au, 'tx) tx_crates \<Rightarrow> tx_input \<Rightarrow> b256 \<Rightarrow> bytes \<Rightarrow> u64 \<Rightarrow> (panic, 'tx \<times> b256 \<times> u8) result" where
  "build_system_tx c cr inp tx_hash encoded block_gas_limit =
     rbind (decode_system_tx c tx_hash encoded) (\<lambda>(to, data).
     rbind (ok_or (tc_build cr
        \<lparr>ta_caller = BOOTLOADER_FORMAL_ADDRESS, ta_gas_limit = block_gas_limit, ta_gas_price = 0,
         ta_gas_priority_fee = Some 0, ta_kind = Call to, ta_value = 0, ta_data = data, ta_nonce = 0,
         ta_access_list = None, ta_tx_type = SYSTEM_TX_TYPE, ta_chain_id = None, ta_blob_hashes = [],
         ta_max_fee_per_blob_gas = 0, ta_authorization_list = [], ta_mint = 0, ta_refund_recipient = None,
         ta_gas_used_override = ti_gas_used_override inp, ta_force_fail = ti_force_fail inp,
         ta_tx_hash = tx_hash\<rparr>) (TxPanic TxBuildFailed)) (\<lambda>tx.
     Ok (tx, tx_hash, SYSTEM_TX_TYPE)))"

fun build_auth ::
  "crypto \<Rightarrow> ('al, 'au, 'tx) tx_crates \<Rightarrow> tx_input \<Rightarrow> u64 \<Rightarrow> u64 option \<Rightarrow> tx_auth \<Rightarrow>
   (panic, 'tx \<times> b256 \<times> u8) result" where
  "build_auth c cr inp block_gas_limit max_tx_gas_limit (L1 h abi) = build_l1_upgrade_tx c cr inp h abi"
| "build_auth c cr inp block_gas_limit max_tx_gas_limit (Upgrade h abi) = build_l1_upgrade_tx c cr inp h abi"
| "build_auth c cr inp block_gas_limit max_tx_gas_limit (L2 sbytes) =
     build_l2_tx c cr inp sbytes
       (case max_tx_gas_limit of None \<Rightarrow> block_gas_limit | Some cap \<Rightarrow> min block_gas_limit cap)"
| "build_auth c cr inp block_gas_limit max_tx_gas_limit (System h encoded) =
     build_system_tx c cr inp h encoded block_gas_limit"

definition build_proven_tx ::
  "crypto \<Rightarrow> ('al, 'au, 'tx) tx_crates \<Rightarrow> tx_input \<Rightarrow> u64 \<Rightarrow> u64 option \<Rightarrow> (panic, 'tx \<times> b256 \<times> u8) result" where
  "build_proven_tx c cr inp block_gas_limit max_tx_gas_limit =
     build_auth c cr inp block_gas_limit max_tx_gas_limit (ti_auth inp)"

section \<open>Reading a system transaction back\<close>

definition system_tx_encode :: "address \<Rightarrow> bytes \<Rightarrow> bytes \<Rightarrow> bytes" where
  "system_tx_encode to data salt =
     (let items = concat (map (rlp_encode_bytes []) [bytes20 to, data, salt])
      in SYSTEM_TX_TYPE # rlp_encode_list_header [] (length items) @ items)"

lemma rlp_len_value:
  "m \<le> 8 \<Longrightarrow> pos + m \<le> length buf \<Longrightarrow>
   rlp_len buf pos m = Ok (unat (of_be_bytes (take m (drop pos buf)) :: u64))"
proof -
  have "foldl (\<lambda>acc b. push_bit 8 acc OR ucast b) (of_be_bytes pre :: u64) bs = of_be_bytes (pre @ bs)" for pre bs
  proof (induction bs arbitrary: pre)
    case (Cons b bs)
    have "push_bit 8 (of_be_bytes pre :: u64) OR ucast b = of_be_bytes (pre @ [b])"
      by (simp add: of_be_bytes_def or.commute)
    then show ?case using Cons [of "pre @ [b]"] by simp
  qed simp
  from this [of "[]"] have "foldl (\<lambda>acc b. push_bit 8 acc OR ucast b) (0 :: u64) bs = of_be_bytes bs" for bs
    by (simp add: of_be_bytes_def)
  then show "m \<le> 8 \<Longrightarrow> pos + m \<le> length buf \<Longrightarrow>
      rlp_len buf pos m = Ok (unat (of_be_bytes (take m (drop pos buf)) :: u64))"
    by (simp add: rlp_len_def)
qed

lemma uadd_small: "a + b < 2 ^ 64 \<Longrightarrow> uadd a b = a + b"
  by (simp add: uadd_def)

lemma u8_tag:
  assumes "n + k < 256"
  shows "unat (of_nat k + of_nat n :: u8) = k + n" and "(of_nat k + of_nat n :: u8) - of_nat k = of_nat n"
    and "unat (of_nat n :: u8) = n"
  using assms unat_u8_add [of k n] by (simp_all add: add.commute unat_of_nat)

lemma rlp_header_item:
  assumes buf: "buf = pre @ rlp_encode_bytes [] d @ post" and len: "length buf < 2 ^ 64"
  shows "\<exists>s. rlp_header buf (length pre) False = Ok (s, length d) \<and>
    s + length d = length pre + length (rlp_encode_bytes [] d) \<and> take (length d) (drop s buf) = d"
proof -
  consider (one) "length d = 1" "d ! 0 < 0x80"
    | (short) "\<not> (length d = 1 \<and> d ! 0 < 0x80)" "length d < 56"
    | (long) "56 \<le> length d" by linarith
  then show ?thesis
  proof cases
    case one
    then obtain x where d: "d = [x]" by (cases d) auto
    have "x \<le> 0x7f" using one by (simp add: d word_le_nat_alt word_less_nat_alt)
    then show ?thesis using one len by (auto simp: d buf rlp_encode_bytes_def rlp_header_def uadd_small)
  next
    case short
    let ?b = "0x80 + of_nat (length d) :: u8"
    have u: "unat ?b = 0x80 + length d" and m: "unat (?b - 0x80) = length d"
      using short u8_tag [of "length d" 128] by simp_all
    have "\<not> ?b \<le> 0x7f" "?b \<le> 0xb7" using short u by (simp_all add: word_le_nat_alt)
    moreover have e: "rlp_encode_bytes [] d = ?b # d" using short by (auto simp: rlp_encode_bytes_def)
    ultimately show ?thesis using len m by (auto simp: buf e rlp_header_def uadd_small Let_def)
  next
    case long
    let ?l = "be_bytes_trimmed (length d)"
    let ?b = "0xb7 + of_nat (length ?l) :: u8"
    note ll = be_bytes_trimmed_length [of "length d"]
    have u: "unat ?b = 0xb7 + length ?l" and m: "unat (?b - 0xb7) = length ?l"
      using ll u8_tag [of "length ?l" 183] by simp_all
    have "\<not> ?b \<le> 0x7f" "\<not> ?b \<le> 0xb7" "?b \<le> 0xbf" using ll u by (simp_all add: word_le_nat_alt)
    moreover have e: "rlp_encode_bytes [] d = ?b # ?l @ d" using long by (auto simp: rlp_encode_bytes_def Let_def)
    moreover have "rlp_len buf (Suc (length pre)) (length ?l) = Ok (length d)"
      using ll len rlp_len_value [of "length ?l" "Suc (length pre)" buf] be_bytes_trimmed_value [of "length d"]
      by (simp add: buf e)
    ultimately show ?thesis using len m by (auto simp: buf e rlp_header_def uadd_small Let_def)
  qed
qed

lemma rlp_header_list:
  assumes buf: "buf = rlp_encode_list_header [] (length inner) @ inner" and len: "length buf < 2 ^ 64"
  shows "rlp_header buf 0 True = Ok (length (rlp_encode_list_header [] (length inner)), length inner)"
proof (cases "length inner < 56")
  case True
  let ?b = "0xc0 + of_nat (length inner) :: u8"
  have u: "unat ?b = 0xc0 + length inner" and m: "unat (?b - 0xc0) = length inner"
    using True u8_tag [of "length inner" 192] by simp_all
  have "\<not> ?b \<le> 0x7f" "\<not> ?b \<le> 0xb7" "\<not> ?b \<le> 0xbf" "?b \<le> 0xf7"
    using True u by (simp_all add: word_le_nat_alt)
  moreover have e: "rlp_encode_list_header [] (length inner) = [?b]"
    using True by (simp add: rlp_encode_list_header_def)
  ultimately show ?thesis using len m by (simp add: buf e rlp_header_def uadd_small Let_def)
next
  case False
  let ?l = "be_bytes_trimmed (length inner)"
  let ?b = "0xf7 + of_nat (length ?l) :: u8"
  note ll = be_bytes_trimmed_length [of "length inner"]
  have u: "unat ?b = 0xf7 + length ?l" and m: "unat (?b - 0xf7) = length ?l"
    using ll u8_tag [of "length ?l" 247] by simp_all
  have "\<not> ?b \<le> 0x7f" "\<not> ?b \<le> 0xb7" "\<not> ?b \<le> 0xbf" "\<not> ?b \<le> 0xf7"
    using ll u by (simp_all add: word_le_nat_alt)
  moreover have e: "rlp_encode_list_header [] (length inner) = ?b # ?l"
    using False by (simp add: rlp_encode_list_header_def Let_def)
  moreover have "rlp_len buf (Suc 0) (length ?l) = Ok (length inner)"
    using ll len rlp_len_value [of "length ?l" "Suc 0" buf] be_bytes_trimmed_value [of "length inner"]
    by (simp add: buf e)
  ultimately show ?thesis using len m by (simp add: buf e rlp_header_def uadd_small Let_def)
qed

lemma slice_take: "s + n \<le> length buf \<Longrightarrow> slice buf s (s + n) = Ok (take n (drop s buf))"
  by (simp add: slice_def)

lemma system_tx_decode_encode:
  assumes salt: "length salt \<le> 8" and len: "length (system_tx_encode to data salt) < 2 ^ 64"
  shows "decode_system_tx c (cr_keccak256 c (system_tx_encode to data salt)) (system_tx_encode to data salt)
    = Ok (to, data)"
proof -
  let ?i1 = "rlp_encode_bytes [] (bytes20 to)" and ?i2 = "rlp_encode_bytes [] data" and ?i3 = "rlp_encode_bytes [] salt"
  let ?items = "?i1 @ ?i2 @ ?i3"
  let ?h = "rlp_encode_list_header [] (length ?items)"
  define rlp where "rlp = ?h @ ?items"
  have enc: "system_tx_encode to data salt = SYSTEM_TX_TYPE # rlp"
    by (simp add: system_tx_encode_def rlp_def Let_def)
  have rl: "length rlp < 2 ^ 64" using len by (simp add: enc)
  have parts: "rlp = ?h @ ?i1 @ (?i2 @ ?i3)" "rlp = (?h @ ?i1) @ ?i2 @ ?i3" "rlp = (?h @ ?i1 @ ?i2) @ ?i3 @ []"
    and lens: "length ?h + length ?i1 + length ?i2 + length ?i3 = length rlp" by (simp_all add: rlp_def)
  have hd: "rlp_header rlp 0 True = Ok (length ?h, length ?items)"
    by (rule rlp_header_list [OF rlp_def rl])
  obtain s1 where s1: "rlp_header rlp (length ?h) False = Ok (s1, 20)" "s1 + 20 = length ?h + length ?i1"
      "take 20 (drop s1 rlp) = bytes20 to"
    using rlp_header_item [OF parts(1) rl] by (auto simp del: append_assoc)
  obtain s2 where s2: "rlp_header rlp (s1 + 20) False = Ok (s2, length data)"
      "s2 + length data = length ?h + length ?i1 + length ?i2" "take (length data) (drop s2 rlp) = data"
    using rlp_header_item [OF parts(2) rl] s1(2) by (auto simp del: append_assoc)
  have at: "length (?h @ ?i1 @ ?i2) = s2 + length data" using s2(2) by simp
  obtain s3 where "rlp_header rlp (length (?h @ ?i1 @ ?i2)) False = Ok (s3, length salt)"
      "s3 + length salt = length (?h @ ?i1 @ ?i2) + length ?i3"
    using rlp_header_item [OF parts(3) rl] by blast
  then have s3: "rlp_header rlp (s2 + length data) False = Ok (s3, length salt)" "s3 + length salt = length rlp"
    unfolding at using s2(2) lens by simp_all
  have bounds: "length ?h + length ?items = length rlp" "s1 + 20 \<le> length rlp" "s2 + length data \<le> length rlp"
    using s1(2) s2(2) by (simp_all add: rlp_def)
  have sums: "uadd (length ?h) (length ?items) = length rlp" "uadd s1 20 = s1 + 20"
      "uadd s2 (length data) = s2 + length data" "uadd s3 (length salt) = length rlp"
    using bounds s3(2) rl by (simp_all only: uadd_small)
  have slices: "slice rlp s1 (s1 + 20) = Ok (bytes20 to)" "slice rlp s2 (s2 + length data) = Ok data"
    using slice_take bounds s1(3) s2(3) by simp_all
  show ?thesis
    unfolding enc decode_system_tx_def
    by (simp add: hd s1(1) s2(1) s3(1) sums slices salt del: length_append)
qed

text \<open>
  The other direction of the bounds: whatever the header claims, accepted payloads lie inside the
  buffer, also when the sum of start and length wraps.
\<close>

lemma slice_wrap:
  assumes "slice buf s (uadd s n) = Ok d" and "n < 2 ^ 64" and "length buf < 2 ^ 64"
  shows "s + n \<le> length buf \<and> d = take n (drop s buf)"
proof -
  have le: "s \<le> uadd s n" "uadd s n \<le> length buf" and d: "d = take (uadd s n - s) (drop s buf)"
    using assms(1) by (auto simp: slice_def split: if_splits)
  have "s + n < 2 ^ 64"
  proof (rule ccontr)
    assume c: "\<not> s + n < 2 ^ 64"
    have "s < 2 ^ 64" using le assms(3) by simp
    then have "s + n < 2 ^ 64 + 2 ^ 64" using assms(2) by linarith
    then have "(s + n) div 2 ^ 64 = 1" using c by (intro div_nat_eqI) simp_all
    then have "uadd s n = s + n - 2 ^ 64" by (simp add: uadd_def modulo_nat_def)
    then show False using le(1) assms(2) c by linarith
  qed
  then have "uadd s n = s + n" by (rule uadd_small)
  then show ?thesis using le d by simp
qed

section \<open>Claims\<close>

text \<open>
  C21. The system transaction decoder reads back what an EIP-2718 encoder writes: the target and
  the calldata of every encoding with a salt of at most eight bytes, under its own hash.
\<close>

theorem system_tx_round_trip:
  assumes "length salt \<le> 8" and "length (system_tx_encode to data salt) < 2 ^ 64"
  shows "decode_system_tx c (cr_keccak256 c (system_tx_encode to data salt)) (system_tx_encode to data salt)
    = Ok (to, data)"
  using assms by (rule system_tx_decode_encode)

theorem system_tx_round_trip_witness:
  "decode_system_tx \<lparr>cr_node = \<lambda>l r. l, cr_blake2s = \<lambda>_. 0, cr_keccak256 = \<lambda>bs. of_nat (length bs)\<rparr>
     (cr_keccak256 \<lparr>cr_node = \<lambda>l r. l, cr_blake2s = \<lambda>_. 0, cr_keccak256 = \<lambda>bs. of_nat (length bs)\<rparr>
        (system_tx_encode 7 [1, 2, 3] [9])) (system_tx_encode 7 [1, 2, 3] [9]) = Ok (7, [1, 2, 3])"
  by (rule system_tx_round_trip) (simp_all add: system_tx_encode_def rlp_encode_bytes_def rlp_encode_list_header_def)

text \<open>
  The payload of an accepted RLP header lies inside the buffer even when the claimed length
  makes the \<open>usize\<close> sum of start and length wrap: the slice panics instead of reading out of bounds.
\<close>

theorem payload_slice_in_bounds:
  assumes "slice buf s (uadd s n) = Ok d" and "n < 2 ^ 64" and "length buf < 2 ^ 64"
  shows "s + n \<le> length buf \<and> d = take n (drop s buf)"
  using assms by (rule slice_wrap)

theorem payload_slice_in_bounds_witness:
  "(1 :: nat) + 2 \<le> length [5, 6, 7 :: u8] \<and> [6, 7 :: u8] = take 2 (drop 1 [5, 6, 7])"
  by (rule payload_slice_in_bounds) (simp_all add: slice_def uadd_def)

end
