(* ===== verification/Block_Exec.thy ===== *)
theory Block_Exec
  imports Verify_Writes Tx_Auth "HOL-Library.AList"
begin

text \<open>
  Execution of one block: the EIP-2935 pre-block write (\<open>lib/src/executor/eip2935.rs\<close>) and the
  REVM driver (\<open>lib/src/executor/evm.rs\<close>). REVM itself and the \<open>zksync_os_revm\<close> crate are
  parameters, gathered in the records \<open>spec_crate\<close> and \<open>revm\<close>: the executor builds an EVM over the
  cache, transacts, commits and takes the logs; everything around these calls is modelled.
  A hash map that is iterated is the list of its entries.
\<close>

section \<open>The crates\<close>

datatype zk_spec_id = AtlasV1 | AtlasV2 | AtlasV3 | AtlasV4 | AtlasV5

text \<open>\<open>X.is_enabled_in(spec)\<close> and \<open>X as u8\<close> of the \<open>zksync_os_revm\<close> crate.\<close>

record spec_crate =
  sc_is_enabled_in :: "zk_spec_id \<Rightarrow> zk_spec_id \<Rightarrow> bool"
  sc_as_u8 :: "zk_spec_id \<Rightarrow> u8"

record cfg_env =
  cfg_chain_id :: u64
  cfg_spec :: zk_spec_id
  cfg_tx_gas_limit_cap :: "u64 option"
  cfg_limit_contract_code_size :: "nat option"

record block_env =
  be_number :: u256
  be_timestamp :: u256
  be_beneficiary :: address
  be_basefee :: u64
  be_gas_limit :: u64
  be_prevrandao :: "b256 option"

text \<open>The parts of REVM's journal and result types the executor reads.\<close>

record evm_slot =
  es_original_value :: u256
  es_present_value :: u256
  es_is_changed :: bool

record evm_account =
  ea_is_selfdestructed :: bool
  ea_is_touched :: bool
  ea_is_created :: bool
  ea_storage :: "(u256 \<times> evm_slot) list"

type_synonym evm_state = "(address \<times> evm_account) list"

record 'log exec_result =
  er_is_success :: bool
  er_tx_gas_used :: u64
  er_logs :: "'log list"
  er_output :: "bytes option"

record ('evm, 'tx, 'log) revm = spec_crate +
  rv_large_contracts_max_code_size :: nat
  rv_default_cfg :: "zk_spec_id \<Rightarrow> cfg_env"
  rv_build_zk :: "cache_db \<Rightarrow> zk_spec_id \<Rightarrow> cfg_env \<Rightarrow> block_env \<Rightarrow> 'evm"
  rv_set_tx_number :: "u16 \<Rightarrow> 'evm \<Rightarrow> 'evm"
  rv_transact :: "'tx \<Rightarrow> 'evm \<Rightarrow> ('log exec_result \<times> evm_state) option \<times> 'evm"
  rv_commit :: "evm_state \<Rightarrow> 'evm \<Rightarrow> 'evm"
  rv_take_l2_to_l1_logs :: "'evm \<Rightarrow> l2_to_l1_log_entry list \<times> 'evm"
  rv_cache_db :: "'evm \<Rightarrow> cache_db"
  rv_rlp_receipt :: "bool \<Rightarrow> u64 \<Rightarrow> 'log list \<Rightarrow> bytes"
  rv_storage_ref :: "cache_db \<Rightarrow> address \<Rightarrow> u256 \<Rightarrow> u256 option"
  rv_insert_account_storage :: "address \<Rightarrow> u256 \<Rightarrow> u256 \<Rightarrow> cache_db \<Rightarrow> cache_db option"

section \<open>The EIP-2935 pre-block write\<close>

definition HISTORY_STORAGE_ADDRESS :: address where
  "HISTORY_STORAGE_ADDRESS = 0x0000f90827f1c53a10cb7a02335b175320002935"

definition HISTORY_SERVE_WINDOW :: u64 where "HISTORY_SERVE_WINDOW = 8191"

definition history_slot :: "u64 \<Rightarrow> u256" where
  "history_slot block_number = ucast ((block_number - 1) mod HISTORY_SERVE_WINDOW)"

type_synonym slot_write = "(address \<times> u256) \<times> u256"

definition history_is_contract :: "proven_db \<Rightarrow> bool" where
  "history_is_contract db =
     (let fields = pre_state_code_fields db HISTORY_STORAGE_ADDRESS;
          is_delegated = ((ucast (drop_bit 56 (cf_versioning fields)) :: u8) = DELEGATED_STATUS_BYTE)
      in \<not> (cf_observable_bytecode_len fields = 0 \<or> is_delegated))"

definition apply_pre_block_write ::
  "crypto \<Rightarrow> ('evm, 'tx, 'log) revm \<Rightarrow> u64 \<Rightarrow> b256 \<Rightarrow> cache_db \<Rightarrow> (panic, slot_write option \<times> cache_db) result" where
  "apply_pre_block_write c rv block_number parent_hash cache =
     rbind (ensure (1 \<le> block_number) HistoryBlockZero) (\<lambda>_.
     rbind (map_err (\<lambda>_. HistoryAccountUnproven) (basic_ref c (cd_db cache) HISTORY_STORAGE_ADDRESS)) (\<lambda>account.
     if account = None \<or> \<not> history_is_contract (cd_db cache) then Ok (None, cache)
     else let index = history_slot block_number; v = parent_hash
          in rbind (ok_or (rv_storage_ref rv cache HISTORY_STORAGE_ADDRESS index) HistorySlotUnproven) (\<lambda>previous.
             rbind (ok_or (rv_insert_account_storage rv HISTORY_STORAGE_ADDRESS index v cache)
                      HistoryInsertFailed) (\<lambda>cache'.
             Ok (if previous \<noteq> v then Some ((HISTORY_STORAGE_ADDRESS, index), v) else None, cache')))))"

section \<open>Running the transactions of a block\<close>

definition BLOB_TX_TYPE :: u8 where "BLOB_TX_TYPE = 3"

record block_state_effects =
  se_storage_writes :: "slot_write list"
  se_destroyed_accounts :: "address list"
  se_deployed_accounts :: "address list"

record block_execution =
  bx_tx_results :: "tx_output list"
  bx_tx_hashes :: "b256 list"
  bx_receipt_leaves :: "b256 list"
  bx_l2_to_l1_logs :: "l2_to_l1_log_entry list"
  bx_state_effects :: block_state_effects

definition configure_evm :: "nat \<Rightarrow> u64 \<Rightarrow> zk_spec_id \<Rightarrow> bool \<Rightarrow> cfg_env \<Rightarrow> cfg_env" where
  "configure_evm large_code_size chain_id spec_id large_contracts_enabled cfg =
     cfg\<lparr>cfg_chain_id := chain_id, cfg_spec := spec_id, cfg_tx_gas_limit_cap := Some (- 1),
         cfg_limit_contract_code_size := (if large_contracts_enabled then Some large_code_size else None)\<rparr>"

definition block_env_of :: "block_input \<Rightarrow> block_env" where
  "block_env_of block =
     \<lparr>be_number = ucast (bi_number block), be_timestamp = ucast (bi_timestamp block),
      be_beneficiary = bi_coinbase block, be_basefee = bi_base_fee block,
      be_gas_limit = bi_gas_limit block, be_prevrandao = Some (bi_prev_randao block)\<rparr>"

record journal_effects =
  je_slot_writes :: "((address \<times> u256) \<times> u256 \<times> u256) list"
  je_destroyed_accounts :: "address list"
  je_deployed_accounts :: "address list"

definition record_slot ::
  "address \<Rightarrow> u256 \<times> evm_slot \<Rightarrow> ((address \<times> u256) \<times> u256 \<times> u256) list \<Rightarrow> ((address \<times> u256) \<times> u256 \<times> u256) list" where
  "record_slot addr = (\<lambda>(index, s) writes.
     if es_is_changed s then
       (case map_of writes (addr, index) of
          Some (first, _) \<Rightarrow> AList.update (addr, index) (first, es_present_value s) writes
        | None \<Rightarrow> AList.update (addr, index) (es_original_value s, es_present_value s) writes)
     else writes)"

definition record_account :: "address \<times> evm_account \<Rightarrow> journal_effects \<Rightarrow> journal_effects" where
  "record_account = (\<lambda>(addr, account) j.
     if ea_is_selfdestructed account then
       (if ea_is_touched account
        then j\<lparr>je_destroyed_accounts := List.insert addr (je_destroyed_accounts j)\<rparr> else j)
     else
       (let j' = (if ea_is_created account
                  then j\<lparr>je_deployed_accounts := List.insert addr (je_deployed_accounts j)\<rparr> else j)
        in j'\<lparr>je_slot_writes := fold (record_slot addr) (ea_storage account) (je_slot_writes j')\<rparr>))"

record 'evm evm_loop =
  el_evm :: 'evm
  el_tx_results :: "tx_output list"
  el_tx_hashes :: "b256 list"
  el_receipt_leaves :: "b256 list"
  el_cumulative_gas_used :: u64
  el_l2_to_l1_logs :: "l2_to_l1_log_entry list"
  el_journal :: journal_effects

definition initial_evm_loop :: "'evm \<Rightarrow> 'evm evm_loop" where
  "initial_evm_loop evm =
     \<lparr>el_evm = evm, el_tx_results = [], el_tx_hashes = [], el_receipt_leaves = [], el_cumulative_gas_used = 0,
      el_l2_to_l1_logs = [],
      el_journal = \<lparr>je_slot_writes = [], je_destroyed_accounts = [], je_deployed_accounts = []\<rparr>\<rparr>"

definition run_tx ::
  "crypto \<Rightarrow> ('al, 'au, 'tx) tx_crates \<Rightarrow> ('evm, 'tx, 'log) revm \<Rightarrow> bool \<Rightarrow> u64 \<Rightarrow> u64 option \<Rightarrow>
   nat \<times> tx_input \<Rightarrow> 'evm evm_loop \<Rightarrow> (panic, 'evm evm_loop) result" where
  "run_tx c cr rv is_atlas_v4 gas_limit max_tx_gas_limit = (\<lambda>(tx_idx, inp) st.
     let evm = rv_set_tx_number rv (of_nat tx_idx) (el_evm st)
     in rbind (build_proven_tx c cr inp gas_limit max_tx_gas_limit) (\<lambda>(tx, tx_hash, tx_type).
        rbind (ensure (\<not> is_atlas_v4 \<or> tx_type \<noteq> BLOB_TX_TYPE) (ExecutorPanic BlobTransaction)) (\<lambda>_.
        case rv_transact rv tx evm of
          (None, _) \<Rightarrow> Err (ExecutorPanic TransactionFailed)
        | (Some (res, state), evm1) \<Rightarrow>
            (let journal = fold record_account state (el_journal st);
                 evm2 = rv_commit rv state evm1;
                 (logs, evm3) = rv_take_l2_to_l1_logs rv evm2;
                 cumulative = el_cumulative_gas_used st + er_tx_gas_used res;
                 leaves = el_receipt_leaves st @
                   (if is_atlas_v4
                    then [receipt_leaf c (rv_rlp_receipt rv) tx_type (er_is_success res) cumulative (er_logs res)]
                    else [])
             in Ok \<lparr>el_evm = evm3,
                    el_tx_results = el_tx_results st @
                      [\<lparr>to_success = er_is_success res, to_gas_used = er_tx_gas_used res,
                        to_output = (case er_output res of Some b \<Rightarrow> b | None \<Rightarrow> [])\<rparr>],
                    el_tx_hashes = el_tx_hashes st @ [tx_hash],
                    el_receipt_leaves = leaves,
                    el_cumulative_gas_used = cumulative,
                    el_l2_to_l1_logs = el_l2_to_l1_logs st @ logs,
                    el_journal = journal\<rparr>))))"

definition net_storage_writes :: "((address \<times> u256) \<times> u256 \<times> u256) list \<Rightarrow> slot_write list" where
  "net_storage_writes slot_writes =
     map (\<lambda>(key, (_, lst)). (key, lst)) (filter (\<lambda>(_, (first, lst)). first \<noteq> lst) slot_writes)"

definition run_evm_block ::
  "crypto \<Rightarrow> ('al, 'au, 'tx) tx_crates \<Rightarrow> ('evm, 'tx, 'log) revm \<Rightarrow> u64 \<Rightarrow> zk_spec_id \<Rightarrow> block_input \<Rightarrow>
   u64 option \<Rightarrow> bool \<Rightarrow> cache_db \<Rightarrow> (panic, block_execution \<times> cache_db) result" where
  "run_evm_block c cr rv chain_id spec_id block max_tx_gas_limit large_contracts_enabled cache =
     (let cfg = configure_evm (rv_large_contracts_max_code_size rv) chain_id spec_id large_contracts_enabled
                  (rv_default_cfg rv spec_id);
          evm = rv_build_zk rv cache spec_id cfg (block_env_of block);
          is_atlas_v4 = sc_is_enabled_in rv AtlasV4 spec_id
      in rbind (foldR (run_tx c cr rv is_atlas_v4 (bi_gas_limit block) max_tx_gas_limit)
                  (enumerate 0 (bi_transactions block))
                  (initial_evm_loop evm))
           (\<lambda>st. Ok
             (\<lparr>bx_tx_results = el_tx_results st, bx_tx_hashes = el_tx_hashes st,
               bx_receipt_leaves = el_receipt_leaves st, bx_l2_to_l1_logs = el_l2_to_l1_logs st,
               bx_state_effects =
                 \<lparr>se_storage_writes = net_storage_writes (je_slot_writes (el_journal st)),
                  se_destroyed_accounts = je_destroyed_accounts (el_journal st),
                  se_deployed_accounts = je_deployed_accounts (el_journal st)\<rparr>\<rparr>,
              rv_cache_db rv (el_evm st))))"

section \<open>One block\<close>

definition merge_pre_block_write :: "slot_write option \<Rightarrow> block_state_effects \<Rightarrow> block_state_effects" where
  "merge_pre_block_write pre_block_write effects =
     (case pre_block_write of
        Some write \<Rightarrow> effects\<lparr>se_storage_writes := write # se_storage_writes effects\<rparr>
      | None \<Rightarrow> effects)"

definition parent_hash_of :: "proven_db \<Rightarrow> u64 \<Rightarrow> b256" where
  "parent_hash_of db number =
     (if 1 \<le> number then (case block_hash_ref db (number - 1) of Ok h \<Rightarrow> h | Err _ \<Rightarrow> 0) else 0)"

definition header_roots ::
  "crypto \<Rightarrow> 'a spec_crate_scheme \<Rightarrow> zk_spec_id \<Rightarrow> block_execution \<Rightarrow> (panic, b256 \<times> b256) result" where
  "header_roots c sc spec_id exec =
     (if sc_is_enabled_in sc AtlasV4 spec_id then
        rbind (block_tx_tree_root c (bx_tx_hashes exec)) (\<lambda>tx_root.
        rbind (block_tx_tree_root c (bx_receipt_leaves exec)) (\<lambda>receipts_root.
        Ok (tx_root, receipts_root)))
      else
        let rolling_hash_seed = (if sc_is_enabled_in sc AtlasV3 spec_id then KECCAK_EMPTY else 0)
        in Ok (transactions_rolling_hash c (bx_tx_hashes exec) rolling_hash_seed, 0))"

definition block_header_args ::
  "block_input \<Rightarrow> b256 \<Rightarrow> b256 \<Rightarrow> b256 \<Rightarrow> block_execution \<Rightarrow> header_args" where
  "block_header_args block parent_hash tx_root receipts_root exec =
     \<lparr>ha_parent_hash = parent_hash, ha_beneficiary = bi_coinbase block, ha_transactions_root = tx_root,
      ha_receipts_root = receipts_root, ha_number = bi_number block, ha_gas_limit = bi_gas_limit block,
      ha_gas_used = sum_list (map to_gas_used (bx_tx_results exec)), ha_timestamp = bi_timestamp block,
      ha_mix_hash = bi_prev_randao block, ha_base_fee_per_gas = bi_base_fee block\<rparr>"

definition execute_block_proven ::
  "crypto \<Rightarrow> ('al, 'au, 'tx) tx_crates \<Rightarrow> ('evm, 'tx, 'log) revm \<Rightarrow> u64 \<Rightarrow> zk_spec_id \<Rightarrow> block_input \<Rightarrow>
   u64 option \<Rightarrow> bool \<Rightarrow> cache_db \<Rightarrow> (panic, (block_result \<times> block_state_effects) \<times> cache_db) result" where
  "execute_block_proven c cr rv chain_id spec_id block max_tx_gas_limit large_contracts_enabled cache =
     (let parent_hash = parent_hash_of (cd_db cache) (bi_number block)
      in rbind (if sc_is_enabled_in rv AtlasV4 spec_id
                then apply_pre_block_write c rv (bi_number block) parent_hash cache
                else Ok (None, cache)) (\<lambda>(eip2935_write, cache1).
         rbind (run_evm_block c cr rv chain_id spec_id block max_tx_gas_limit large_contracts_enabled cache1) (\<lambda>(exec, cache2).
         rbind (header_roots c rv spec_id exec) (\<lambda>(tx_root, receipts_root).
         let computed = compute_block_header_hash c (block_header_args block parent_hash tx_root receipts_root exec)
         in rbind (ensure (\<not> sc_is_enabled_in rv AtlasV4 spec_id \<or> bi_block_header_hash block \<noteq> 0) (ExecutorPanic HeaderHashMissing)) (\<lambda>_.
            rbind (ensure (bi_block_header_hash block = 0 \<or> computed = bi_block_header_hash block) (ExecutorPanic HeaderHashMismatch)) (\<lambda>_.
            Ok ((\<lparr>br_block_number = bi_number block, br_computed_block_header_hash = computed,
                  br_tx_results = bx_tx_results exec, br_l2_to_l1_logs = bx_l2_to_l1_logs exec\<rparr>,
                 merge_pre_block_write eip2935_write (bx_state_effects exec)), cache2)))))))"

end
