(* ===== verification/Wire_V3.thy ===== *)
theory Wire_V3
  imports Batch_Types
begin

text \<open>
  The frozen wire-v3 schema of \<open>lib/src/wire/v3.rs\<close>: its own copies of the witness types, the
  infallible conversions into the current types and the conversions back, which fail on a spec,
  a pubdata mode or a commitment tree introduced later. Decoding a v3 input loses nothing
  (\<open>to_from\<close>), and writing a current input to v3 and reading it back forces the wire version and
  the two chain-config flags (\<open>from_to\<close>).
\<close>

section \<open>Types\<close>

record v3_slot_proof_entry =
  v3sp_index :: u64
  v3sp_value :: b256
  v3sp_next_index :: u64
  v3sp_siblings :: "b256 list"

record v3_neighbor_proof_entry =
  v3np_entry :: v3_slot_proof_entry
  v3np_leaf_key :: b256

datatype v3_storage_proof =
  V3Existing v3_slot_proof_entry
| V3NonExisting v3_neighbor_proof_entry v3_neighbor_proof_entry

record v3_tree_leaf =
  v3tl_key :: b256
  v3tl_value :: b256
  v3tl_next :: u64

datatype v3_write_op = V3Update u64 | V3Insert u64

record v3_batch_tree_update =
  v3bu_operations :: "v3_write_op list"
  v3bu_entries :: "(b256 \<times> b256) list"
  v3bu_sorted_leaves :: "(u64 \<times> v3_tree_leaf) list"
  v3bu_intermediate_hashes :: "b256 list"
  v3bu_leaf_count_before :: u64

record v3_interop_slot_proofs =
  v3isp_sl_chain_id :: v3_storage_proof
  v3isp_multichain_height :: v3_storage_proof
  v3isp_multichain_root :: v3_storage_proof

datatype v3_tx_auth =
  V3L1 b256 bytes
| V3Upgrade b256 bytes
| V3L2 bytes
| V3System b256 bytes

record v3_tx_input =
  v3ti_chain_id :: "u64 option"
  v3ti_gas_used_override :: "u64 option"
  v3ti_force_fail :: bool
  v3ti_auth :: v3_tx_auth

record v3_l2_to_l1_log_entry =
  v3le_l2_shard_id :: u8
  v3le_is_service :: bool
  v3le_tx_number_in_block :: u16
  v3le_sender :: address
  v3le_key :: b256
  v3le_value :: b256

record v3_block_input =
  v3bi_number :: u64
  v3bi_timestamp :: u64
  v3bi_base_fee :: u64
  v3bi_gas_limit :: u64
  v3bi_coinbase :: address
  v3bi_prev_randao :: b256
  v3bi_transactions :: "v3_tx_input list"
  v3bi_account_preimages :: "(address \<times> bytes) list"
  v3bi_block_hashes :: "(u64 \<times> b256) list"
  v3bi_storage_proofs :: "(b256 \<times> v3_storage_proof) list"
  v3bi_block_header_hash :: b256
  v3bi_l2_to_l1_logs :: "v3_l2_to_l1_log_entry list"
  v3bi_expected_tree_root :: b256

record v3_batch_meta =
  v3bm_tree_root_before :: b256
  v3bm_leaf_count_before :: u64
  v3bm_block_number_before :: u64
  v3bm_last_block_timestamp_before :: u64
  v3bm_block_hashes_blake_before :: b256
  v3bm_previous_block_hashes :: "b256 list"
  v3bm_upgrade_tx_hash :: b256
  v3bm_da_commitment_scheme :: u8
  v3bm_pubdata :: bytes
  v3bm_multichain_root :: b256
  v3bm_sl_chain_id :: u64
  v3bm_blob_versioned_hashes :: "b256 list"
  v3bm_tree_update :: "v3_batch_tree_update option"
  v3bm_account_preimages_after :: "(address \<times> bytes) list"
  v3bm_fri_proof_verification_enabled :: bool
  v3bm_max_tx_gas_limit :: u64
  v3bm_interop_proofs :: "v3_interop_slot_proofs option"

record v3_batch_input =
  v3in_version :: u32
  v3in_chain_id :: u64
  v3in_spec_id :: u8
  v3in_protocol_version_minor :: u32
  v3in_blocks :: "v3_block_input list"
  v3in_batch_meta :: v3_batch_meta
  v3in_bytecodes :: "(b256 \<times> bytes) list"

definition V3_BATCH_INPUT_VERSION :: u32 where "V3_BATCH_INPUT_VERSION = 3"

datatype conversion_error =
  UnsupportedSpec u8
| UnsupportedPubdataContent u8
| InteropCommitmentTree

section \<open>From v3\<close>

definition from_v3_slot_proof_entry :: "v3_slot_proof_entry \<Rightarrow> slot_proof_entry" where
  "from_v3_slot_proof_entry x =
     \<lparr>sp_index = v3sp_index x,
      sp_value = v3sp_value x,
      sp_next_index = v3sp_next_index x,
      sp_siblings = v3sp_siblings x\<rparr>"

definition from_v3_neighbor_proof_entry :: "v3_neighbor_proof_entry \<Rightarrow> neighbor_proof_entry" where
  "from_v3_neighbor_proof_entry x =
     \<lparr>np_entry = from_v3_slot_proof_entry (v3np_entry x),
      np_leaf_key = v3np_leaf_key x\<rparr>"

fun from_v3_storage_proof :: "v3_storage_proof \<Rightarrow> storage_proof" where
  "from_v3_storage_proof (V3Existing e) = Existing (from_v3_slot_proof_entry e)"
| "from_v3_storage_proof (V3NonExisting l r) = NonExisting (from_v3_neighbor_proof_entry l) (from_v3_neighbor_proof_entry r)"

definition from_v3_tree_leaf :: "v3_tree_leaf \<Rightarrow> tree_leaf" where
  "from_v3_tree_leaf x =
     \<lparr>tl_key = v3tl_key x,
      tl_value = v3tl_value x,
      tl_next = v3tl_next x\<rparr>"

fun from_v3_write_op :: "v3_write_op \<Rightarrow> write_op" where
  "from_v3_write_op (V3Update i) = Update i"
| "from_v3_write_op (V3Insert i) = Insert i"

definition from_v3_batch_tree_update :: "v3_batch_tree_update \<Rightarrow> batch_tree_update" where
  "from_v3_batch_tree_update x =
     \<lparr>bu_operations = map from_v3_write_op (v3bu_operations x),
      bu_entries = v3bu_entries x,
      bu_sorted_leaves = map (\<lambda>(index, leaf). (index, from_v3_tree_leaf leaf)) (v3bu_sorted_leaves x),
      bu_intermediate_hashes = v3bu_intermediate_hashes x,
      bu_leaf_count_before = v3bu_leaf_count_before x\<rparr>"

definition from_v3_interop_slot_proofs :: "v3_interop_slot_proofs \<Rightarrow> interop_slot_proofs" where
  "from_v3_interop_slot_proofs x =
     \<lparr>isp_sl_chain_id = from_v3_storage_proof (v3isp_sl_chain_id x),
      isp_multichain_height = from_v3_storage_proof (v3isp_multichain_height x),
      isp_multichain_root = from_v3_storage_proof (v3isp_multichain_root x),
      isp_commitment_tree = None\<rparr>"

fun from_v3_tx_auth :: "v3_tx_auth \<Rightarrow> tx_auth" where
  "from_v3_tx_auth (V3L1 h d) = L1 h d"
| "from_v3_tx_auth (V3Upgrade h d) = Upgrade h d"
| "from_v3_tx_auth (V3L2 d) = L2 d"
| "from_v3_tx_auth (V3System h d) = System h d"

definition from_v3_tx_input :: "v3_tx_input \<Rightarrow> tx_input" where
  "from_v3_tx_input x =
     \<lparr>ti_chain_id = v3ti_chain_id x,
      ti_gas_used_override = v3ti_gas_used_override x,
      ti_force_fail = v3ti_force_fail x,
      ti_auth = from_v3_tx_auth (v3ti_auth x)\<rparr>"

definition from_v3_log_entry :: "v3_l2_to_l1_log_entry \<Rightarrow> l2_to_l1_log_entry" where
  "from_v3_log_entry x =
     \<lparr>le_l2_shard_id = v3le_l2_shard_id x,
      le_is_service = v3le_is_service x,
      le_tx_number_in_block = v3le_tx_number_in_block x,
      le_sender = v3le_sender x,
      le_key = v3le_key x,
      le_value = v3le_value x\<rparr>"

definition from_v3_block_input :: "v3_block_input \<Rightarrow> block_input" where
  "from_v3_block_input x =
     \<lparr>bi_number = v3bi_number x,
      bi_timestamp = v3bi_timestamp x,
      bi_base_fee = v3bi_base_fee x,
      bi_gas_limit = v3bi_gas_limit x,
      bi_coinbase = v3bi_coinbase x,
      bi_prev_randao = v3bi_prev_randao x,
      bi_transactions = map from_v3_tx_input (v3bi_transactions x),
      bi_account_preimages = v3bi_account_preimages x,
      bi_block_hashes = v3bi_block_hashes x,
      bi_storage_proofs = map (\<lambda>(key, pf). (key, from_v3_storage_proof pf)) (v3bi_storage_proofs x),
      bi_block_header_hash = v3bi_block_header_hash x,
      bi_l2_to_l1_logs = map from_v3_log_entry (v3bi_l2_to_l1_logs x),
      bi_expected_tree_root = v3bi_expected_tree_root x\<rparr>"

definition from_v3_batch_meta :: "v3_batch_meta \<Rightarrow> batch_meta" where
  "from_v3_batch_meta x =
     \<lparr>bm_tree_root_before = v3bm_tree_root_before x,
      bm_leaf_count_before = v3bm_leaf_count_before x,
      bm_block_number_before = v3bm_block_number_before x,
      bm_last_block_timestamp_before = v3bm_last_block_timestamp_before x,
      bm_block_hashes_blake_before = v3bm_block_hashes_blake_before x,
      bm_previous_block_hashes = v3bm_previous_block_hashes x,
      bm_upgrade_tx_hash = v3bm_upgrade_tx_hash x,
      bm_da_commitment_scheme = v3bm_da_commitment_scheme x,
      bm_pubdata = v3bm_pubdata x,
      bm_multichain_root = v3bm_multichain_root x,
      bm_sl_chain_id = v3bm_sl_chain_id x,
      bm_blob_versioned_hashes = v3bm_blob_versioned_hashes x,
      bm_tree_update = map_option from_v3_batch_tree_update (v3bm_tree_update x),
      bm_account_preimages_after = v3bm_account_preimages_after x,
      bm_fri_proof_verification_enabled = v3bm_fri_proof_verification_enabled x,
      bm_max_tx_gas_limit = v3bm_max_tx_gas_limit x,
      bm_pubdata_content = PUBDATA_CONTENT_FULL,
      bm_l1_tx_filtering_enabled = False,
      bm_large_contracts_enabled = False,
      bm_interop_proofs = map_option from_v3_interop_slot_proofs (v3bm_interop_proofs x)\<rparr>"

definition from_v3_batch_input :: "v3_batch_input \<Rightarrow> batch_input" where
  "from_v3_batch_input x =
     \<lparr>in_version = v3in_version x,
      in_chain_id = v3in_chain_id x,
      in_spec_id = v3in_spec_id x,
      in_protocol_version_minor = v3in_protocol_version_minor x,
      in_blocks = map from_v3_block_input (v3in_blocks x),
      in_batch_meta = from_v3_batch_meta (v3in_batch_meta x),
      in_bytecodes = v3in_bytecodes x\<rparr>"

section \<open>To v3\<close>

definition to_v3_slot_proof_entry :: "slot_proof_entry \<Rightarrow> v3_slot_proof_entry" where
  "to_v3_slot_proof_entry x =
     \<lparr>v3sp_index = sp_index x,
      v3sp_value = sp_value x,
      v3sp_next_index = sp_next_index x,
      v3sp_siblings = sp_siblings x\<rparr>"

definition to_v3_neighbor_proof_entry :: "neighbor_proof_entry \<Rightarrow> v3_neighbor_proof_entry" where
  "to_v3_neighbor_proof_entry x =
     \<lparr>v3np_entry = to_v3_slot_proof_entry (np_entry x),
      v3np_leaf_key = np_leaf_key x\<rparr>"

fun to_v3_storage_proof :: "storage_proof \<Rightarrow> v3_storage_proof" where
  "to_v3_storage_proof (Existing e) = V3Existing (to_v3_slot_proof_entry e)"
| "to_v3_storage_proof (NonExisting l r) = V3NonExisting (to_v3_neighbor_proof_entry l) (to_v3_neighbor_proof_entry r)"

definition to_v3_tree_leaf :: "tree_leaf \<Rightarrow> v3_tree_leaf" where
  "to_v3_tree_leaf x =
     \<lparr>v3tl_key = tl_key x,
      v3tl_value = tl_value x,
      v3tl_next = tl_next x\<rparr>"

fun to_v3_write_op :: "write_op \<Rightarrow> v3_write_op" where
  "to_v3_write_op (Update i) = V3Update i"
| "to_v3_write_op (Insert i) = V3Insert i"

definition to_v3_batch_tree_update :: "batch_tree_update \<Rightarrow> v3_batch_tree_update" where
  "to_v3_batch_tree_update x =
     \<lparr>v3bu_operations = map to_v3_write_op (bu_operations x),
      v3bu_entries = bu_entries x,
      v3bu_sorted_leaves = map (\<lambda>(index, leaf). (index, to_v3_tree_leaf leaf)) (bu_sorted_leaves x),
      v3bu_intermediate_hashes = bu_intermediate_hashes x,
      v3bu_leaf_count_before = bu_leaf_count_before x\<rparr>"

definition to_v3_interop_slot_proofs ::
  "interop_slot_proofs \<Rightarrow> (conversion_error, v3_interop_slot_proofs) result" where
  "to_v3_interop_slot_proofs x =
     (if isp_commitment_tree x \<noteq> None then Err InteropCommitmentTree
      else Ok \<lparr>v3isp_sl_chain_id = to_v3_storage_proof (isp_sl_chain_id x),
        v3isp_multichain_height = to_v3_storage_proof (isp_multichain_height x),
        v3isp_multichain_root = to_v3_storage_proof (isp_multichain_root x)\<rparr>)"

fun to_v3_tx_auth :: "tx_auth \<Rightarrow> v3_tx_auth" where
  "to_v3_tx_auth (L1 h d) = V3L1 h d"
| "to_v3_tx_auth (Upgrade h d) = V3Upgrade h d"
| "to_v3_tx_auth (L2 d) = V3L2 d"
| "to_v3_tx_auth (System h d) = V3System h d"

definition to_v3_tx_input :: "tx_input \<Rightarrow> v3_tx_input" where
  "to_v3_tx_input x =
     \<lparr>v3ti_chain_id = ti_chain_id x,
      v3ti_gas_used_override = ti_gas_used_override x,
      v3ti_force_fail = ti_force_fail x,
      v3ti_auth = to_v3_tx_auth (ti_auth x)\<rparr>"

definition to_v3_log_entry :: "l2_to_l1_log_entry \<Rightarrow> v3_l2_to_l1_log_entry" where
  "to_v3_log_entry x =
     \<lparr>v3le_l2_shard_id = le_l2_shard_id x,
      v3le_is_service = le_is_service x,
      v3le_tx_number_in_block = le_tx_number_in_block x,
      v3le_sender = le_sender x,
      v3le_key = le_key x,
      v3le_value = le_value x\<rparr>"

definition to_v3_block_input :: "block_input \<Rightarrow> v3_block_input" where
  "to_v3_block_input x =
     \<lparr>v3bi_number = bi_number x,
      v3bi_timestamp = bi_timestamp x,
      v3bi_base_fee = bi_base_fee x,
      v3bi_gas_limit = bi_gas_limit x,
      v3bi_coinbase = bi_coinbase x,
      v3bi_prev_randao = bi_prev_randao x,
      v3bi_transactions = map to_v3_tx_input (bi_transactions x),
      v3bi_account_preimages = bi_account_preimages x,
      v3bi_block_hashes = bi_block_hashes x,
      v3bi_storage_proofs = map (\<lambda>(key, pf). (key, to_v3_storage_proof pf)) (bi_storage_proofs x),
      v3bi_block_header_hash = bi_block_header_hash x,
      v3bi_l2_to_l1_logs = map to_v3_log_entry (bi_l2_to_l1_logs x),
      v3bi_expected_tree_root = bi_expected_tree_root x\<rparr>"

definition to_v3_batch_meta :: "batch_meta \<Rightarrow> (conversion_error, v3_batch_meta) result" where
  "to_v3_batch_meta x =
     (if bm_pubdata_content x \<noteq> PUBDATA_CONTENT_FULL
      then Err (UnsupportedPubdataContent (bm_pubdata_content x))
      else rbind (case bm_interop_proofs x of
             None \<Rightarrow> Ok None
           | Some p \<Rightarrow> rbind (to_v3_interop_slot_proofs p) (\<lambda>q. Ok (Some q))) (\<lambda>interop.
        Ok \<lparr>v3bm_tree_root_before = bm_tree_root_before x,
        v3bm_leaf_count_before = bm_leaf_count_before x,
        v3bm_block_number_before = bm_block_number_before x,
        v3bm_last_block_timestamp_before = bm_last_block_timestamp_before x,
        v3bm_block_hashes_blake_before = bm_block_hashes_blake_before x,
        v3bm_previous_block_hashes = bm_previous_block_hashes x,
        v3bm_upgrade_tx_hash = bm_upgrade_tx_hash x,
        v3bm_da_commitment_scheme = bm_da_commitment_scheme x,
        v3bm_pubdata = bm_pubdata x,
        v3bm_multichain_root = bm_multichain_root x,
        v3bm_sl_chain_id = bm_sl_chain_id x,
        v3bm_blob_versioned_hashes = bm_blob_versioned_hashes x,
        v3bm_tree_update = map_option to_v3_batch_tree_update (bm_tree_update x),
        v3bm_account_preimages_after = bm_account_preimages_after x,
        v3bm_fri_proof_verification_enabled = bm_fri_proof_verification_enabled x,
        v3bm_max_tx_gas_limit = bm_max_tx_gas_limit x,
        v3bm_interop_proofs = interop\<rparr>))"

definition to_v3_batch_input :: "batch_input \<Rightarrow> (conversion_error, v3_batch_input) result" where
  "to_v3_batch_input x =
     (if in_spec_id x > 2 then Err (UnsupportedSpec (in_spec_id x))
      else rbind (to_v3_batch_meta (in_batch_meta x)) (\<lambda>meta.
        Ok \<lparr>v3in_version = V3_BATCH_INPUT_VERSION,
        v3in_chain_id = in_chain_id x,
        v3in_spec_id = in_spec_id x,
        v3in_protocol_version_minor = in_protocol_version_minor x,
        v3in_blocks = map to_v3_block_input (in_blocks x),
        v3in_batch_meta = meta,
        v3in_bytecodes = in_bytecodes x\<rparr>))"

section \<open>Frozen copies\<close>

text \<open>
  The contract of a frozen copy of a type: converting there and back is the identity on both
  sides. It lifts to the containers the schema nests the copies in.
\<close>

locale frozen_copy =
  fixes from_copy :: "'a \<Rightarrow> 'b" and to_copy :: "'b \<Rightarrow> 'a"
  assumes to_from [simp]: "to_copy (from_copy x) = x"
    and from_to [simp]: "from_copy (to_copy y) = y"
begin

lemma list_to_from [simp]: "map (to_copy \<circ> from_copy) xs = xs" "map to_copy (map from_copy xs) = xs"
  by (simp_all add: comp_def)

lemma list_from_to [simp]: "map (from_copy \<circ> to_copy) ys = ys" "map from_copy (map to_copy ys) = ys"
  by (simp_all add: comp_def)

lemma keyed_to_from [simp]:
  "map ((\<lambda>(k, y). (k, to_copy y)) \<circ> (\<lambda>(k, x). (k, from_copy x))) kxs = kxs"
  by (simp add: comp_def split_def)

lemma keyed_from_to [simp]:
  "map ((\<lambda>(k, x). (k, from_copy x)) \<circ> (\<lambda>(k, y). (k, to_copy y))) kys = kys"
  by (simp add: comp_def split_def)

lemma option_to_from [simp]: "map_option (to_copy \<circ> from_copy) m = m"
  by (cases m) simp_all

lemma option_from_to [simp]: "map_option (from_copy \<circ> to_copy) m = m"
  by (cases m) simp_all

end

interpretation v3sp: frozen_copy from_v3_slot_proof_entry to_v3_slot_proof_entry
  by unfold_locales (simp_all add: from_v3_slot_proof_entry_def to_v3_slot_proof_entry_def)

interpretation v3np: frozen_copy from_v3_neighbor_proof_entry to_v3_neighbor_proof_entry
  by unfold_locales (simp_all add: from_v3_neighbor_proof_entry_def to_v3_neighbor_proof_entry_def)

interpretation v3pf: frozen_copy from_v3_storage_proof to_v3_storage_proof
proof unfold_locales
  show "to_v3_storage_proof (from_v3_storage_proof x) = x" for x by (cases x) simp_all
  show "from_v3_storage_proof (to_v3_storage_proof y) = y" for y by (cases y) simp_all
qed

interpretation v3tl: frozen_copy from_v3_tree_leaf to_v3_tree_leaf
  by unfold_locales (simp_all add: from_v3_tree_leaf_def to_v3_tree_leaf_def)

interpretation v3wo: frozen_copy from_v3_write_op to_v3_write_op
proof unfold_locales
  show "to_v3_write_op (from_v3_write_op x) = x" for x by (cases x) simp_all
  show "from_v3_write_op (to_v3_write_op y) = y" for y by (cases y) simp_all
qed

interpretation v3bu: frozen_copy from_v3_batch_tree_update to_v3_batch_tree_update
  by unfold_locales (simp_all add: from_v3_batch_tree_update_def to_v3_batch_tree_update_def)

interpretation v3ta: frozen_copy from_v3_tx_auth to_v3_tx_auth
proof unfold_locales
  show "to_v3_tx_auth (from_v3_tx_auth x) = x" for x by (cases x) simp_all
  show "from_v3_tx_auth (to_v3_tx_auth y) = y" for y by (cases y) simp_all
qed

interpretation v3ti: frozen_copy from_v3_tx_input to_v3_tx_input
  by unfold_locales (simp_all add: from_v3_tx_input_def to_v3_tx_input_def)

interpretation v3le: frozen_copy from_v3_log_entry to_v3_log_entry
  by unfold_locales (simp_all add: from_v3_log_entry_def to_v3_log_entry_def)

interpretation v3bi: frozen_copy from_v3_block_input to_v3_block_input
  by unfold_locales (simp_all add: from_v3_block_input_def to_v3_block_input_def)

section \<open>Round trips\<close>

lemma interop_to_from: "to_v3_interop_slot_proofs (from_v3_interop_slot_proofs x) = Ok x"
  by (simp add: to_v3_interop_slot_proofs_def from_v3_interop_slot_proofs_def)

lemma interop_from_to: "to_v3_interop_slot_proofs y = Ok x \<Longrightarrow> from_v3_interop_slot_proofs x = y"
  by (auto simp: to_v3_interop_slot_proofs_def from_v3_interop_slot_proofs_def split: if_splits)

lemma meta_to_from: "to_v3_batch_meta (from_v3_batch_meta x) = Ok x"
  by (cases "v3bm_interop_proofs x")
     (simp_all add: to_v3_batch_meta_def from_v3_batch_meta_def interop_to_from option.map_comp)

lemma meta_from_to:
  assumes "to_v3_batch_meta y = Ok x"
  shows "from_v3_batch_meta x = y\<lparr>bm_l1_tx_filtering_enabled := False, bm_large_contracts_enabled := False\<rparr>"
    and "bm_pubdata_content y = PUBDATA_CONTENT_FULL"
  using assms interop_from_to
  by (cases "bm_interop_proofs y";
      auto simp: to_v3_batch_meta_def from_v3_batch_meta_def option.map_comp split: if_splits)+

lemma input_to_from:
  "v3in_spec_id x \<le> 2 \<Longrightarrow>
   to_v3_batch_input (from_v3_batch_input x) = Ok (x\<lparr>v3in_version := V3_BATCH_INPUT_VERSION\<rparr>)"
  by (simp add: to_v3_batch_input_def from_v3_batch_input_def meta_to_from)

lemma input_from_to:
  assumes "to_v3_batch_input y = Ok x"
  shows "from_v3_batch_input x = y\<lparr>in_version := V3_BATCH_INPUT_VERSION,
    in_batch_meta := (in_batch_meta y)\<lparr>bm_l1_tx_filtering_enabled := False, bm_large_contracts_enabled := False\<rparr>\<rparr>"
  using assms meta_from_to(1)
  by (auto simp: to_v3_batch_input_def from_v3_batch_input_def split: if_splits)

section \<open>Claims\<close>

text \<open>
  C16. The frozen wire-v3 schema round-trips: a v3 batch of an encodable specification converts to
  the current types and back to itself with the v3 version stamp, and a current batch that
  converts to v3 comes back with exactly its version and the two later chain flags reset, although
  the conversion reports no error for these flags.
\<close>

theorem v3_round_trip:
  "(v3in_spec_id x \<le> 2 \<longrightarrow>
      to_v3_batch_input (from_v3_batch_input x) = Ok (x\<lparr>v3in_version := V3_BATCH_INPUT_VERSION\<rparr>)) \<and>
   (to_v3_batch_input y = Ok x \<longrightarrow>
      from_v3_batch_input x = y\<lparr>in_version := V3_BATCH_INPUT_VERSION,
        in_batch_meta := (in_batch_meta y)\<lparr>bm_l1_tx_filtering_enabled := False, bm_large_contracts_enabled := False\<rparr>\<rparr>)"
  using input_to_from [of x] input_from_to [of y x] by blast

definition sample_v3_batch :: v3_batch_input where
  "sample_v3_batch = \<lparr>v3in_version = 3, v3in_chain_id = 270, v3in_spec_id = 2, v3in_protocol_version_minor = 31, v3in_blocks = [],
     v3in_batch_meta = \<lparr>v3bm_tree_root_before = 1, v3bm_leaf_count_before = 2, v3bm_block_number_before = 3,
       v3bm_last_block_timestamp_before = 4, v3bm_block_hashes_blake_before = 5, v3bm_previous_block_hashes = [],
       v3bm_upgrade_tx_hash = 0, v3bm_da_commitment_scheme = 2, v3bm_pubdata = [1, 2], v3bm_multichain_root = 0, v3bm_sl_chain_id = 0,
       v3bm_blob_versioned_hashes = [], v3bm_tree_update = None, v3bm_account_preimages_after = [],
       v3bm_fri_proof_verification_enabled = False, v3bm_max_tx_gas_limit = 0, v3bm_interop_proofs = None\<rparr>,
     v3in_bytecodes = []\<rparr>"

theorem v3_round_trip_witness:
  "to_v3_batch_input (from_v3_batch_input sample_v3_batch) = Ok sample_v3_batch \<and>
   from_v3_batch_input sample_v3_batch = (from_v3_batch_input sample_v3_batch)\<lparr>in_version := V3_BATCH_INPUT_VERSION,
     in_batch_meta := (in_batch_meta (from_v3_batch_input sample_v3_batch))
       \<lparr>bm_l1_tx_filtering_enabled := False, bm_large_contracts_enabled := False\<rparr>\<rparr>"
proof -
  have "v3in_spec_id sample_v3_batch \<le> 2" "sample_v3_batch\<lparr>v3in_version := V3_BATCH_INPUT_VERSION\<rparr> = sample_v3_batch"
    by (simp_all add: sample_v3_batch_def V3_BATCH_INPUT_VERSION_def)
  then have "to_v3_batch_input (from_v3_batch_input sample_v3_batch) = Ok sample_v3_batch"
    using v3_round_trip [of sample_v3_batch] by simp
  then show ?thesis using v3_round_trip [of sample_v3_batch "from_v3_batch_input sample_v3_batch"] by blast
qed

end
