(* ===== verification/Wire.thy ===== *)
theory Wire
  imports Wire_V3
begin

text \<open>
  The frozen wire-v5 schema (\<open>lib/src/wire/v5.rs\<close>) and the version dispatch of
  \<open>lib/src/wire.rs\<close>. The byte level is bincode, a third-party crate: its decoders for the leading
  version and for each schema are parameters of the dispatch.
\<close>

section \<open>Wire v5\<close>

definition V5_BATCH_INPUT_VERSION :: u32 where "V5_BATCH_INPUT_VERSION = 5"

record v5_batch_meta =
  v5bm_tree_root_before :: b256
  v5bm_leaf_count_before :: u64
  v5bm_block_number_before :: u64
  v5bm_last_block_timestamp_before :: u64
  v5bm_block_hashes_blake_before :: b256
  v5bm_previous_block_hashes :: "b256 list"
  v5bm_upgrade_tx_hash :: b256
  v5bm_da_commitment_scheme :: u8
  v5bm_pubdata :: bytes
  v5bm_multichain_root :: b256
  v5bm_sl_chain_id :: u64
  v5bm_blob_versioned_hashes :: "b256 list"
  v5bm_tree_update :: "batch_tree_update option"
  v5bm_account_preimages_after :: "(address \<times> bytes) list"
  v5bm_fri_proof_verification_enabled :: bool
  v5bm_max_tx_gas_limit :: u64
  v5bm_pubdata_content :: u8
  v5bm_interop_proofs :: "interop_slot_proofs option"

record v5_batch_input =
  v5in_version :: u32
  v5in_chain_id :: u64
  v5in_spec_id :: u8
  v5in_protocol_version_minor :: u32
  v5in_blocks :: "block_input list"
  v5in_batch_meta :: v5_batch_meta
  v5in_bytecodes :: "(b256 \<times> bytes) list"

definition from_v5_batch_meta :: "v5_batch_meta \<Rightarrow> batch_meta" where
  "from_v5_batch_meta x =
     \<lparr>bm_tree_root_before = v5bm_tree_root_before x,
      bm_leaf_count_before = v5bm_leaf_count_before x,
      bm_block_number_before = v5bm_block_number_before x,
      bm_last_block_timestamp_before = v5bm_last_block_timestamp_before x,
      bm_block_hashes_blake_before = v5bm_block_hashes_blake_before x,
      bm_previous_block_hashes = v5bm_previous_block_hashes x,
      bm_upgrade_tx_hash = v5bm_upgrade_tx_hash x,
      bm_da_commitment_scheme = v5bm_da_commitment_scheme x,
      bm_pubdata = v5bm_pubdata x,
      bm_multichain_root = v5bm_multichain_root x,
      bm_sl_chain_id = v5bm_sl_chain_id x,
      bm_blob_versioned_hashes = v5bm_blob_versioned_hashes x,
      bm_tree_update = v5bm_tree_update x,
      bm_account_preimages_after = v5bm_account_preimages_after x,
      bm_fri_proof_verification_enabled = v5bm_fri_proof_verification_enabled x,
      bm_max_tx_gas_limit = v5bm_max_tx_gas_limit x,
      bm_pubdata_content = v5bm_pubdata_content x,
      bm_l1_tx_filtering_enabled = False,
      bm_large_contracts_enabled = False,
      bm_interop_proofs = v5bm_interop_proofs x\<rparr>"

definition from_v5_batch_input :: "v5_batch_input \<Rightarrow> batch_input" where
  "from_v5_batch_input x =
     \<lparr>in_version = v5in_version x,
      in_chain_id = v5in_chain_id x,
      in_spec_id = v5in_spec_id x,
      in_protocol_version_minor = v5in_protocol_version_minor x,
      in_blocks = v5in_blocks x,
      in_batch_meta = from_v5_batch_meta (v5in_batch_meta x),
      in_bytecodes = v5in_bytecodes x\<rparr>"

section \<open>Dispatch\<close>

definition SUPPORTED_BATCH_INPUT_VERSIONS :: "u32 list" where
  "SUPPORTED_BATCH_INPUT_VERSIONS = [V3_BATCH_INPUT_VERSION, V5_BATCH_INPUT_VERSION, BATCH_INPUT_VERSION]"

record 'e bincode =
  bc_u32 :: "bytes \<Rightarrow> ('e, u32) result"
  bc_v3 :: "bytes \<Rightarrow> ('e, v3_batch_input) result"
  bc_v5 :: "bytes \<Rightarrow> ('e, v5_batch_input) result"
  bc_current :: "bytes \<Rightarrow> ('e, batch_input) result"

datatype 'e wire_error =
  ReadVersion 'e
| DeserializeV3 'e
| DeserializeV5 'e
| DeserializeCurrent 'e
| UnsupportedVersion u32

definition batch_input_version :: "'e bincode \<Rightarrow> bytes \<Rightarrow> ('e, u32) result" where
  "batch_input_version bc bytes = bc_u32 bc bytes"

definition decode_batch_input :: "'e bincode \<Rightarrow> bytes \<Rightarrow> ('e wire_error, batch_input) result" where
  "decode_batch_input bc bytes =
     rbind (map_err ReadVersion (batch_input_version bc bytes)) (\<lambda>version.
       if version = V3_BATCH_INPUT_VERSION then
         map_err DeserializeV3 (rbind (bc_v3 bc bytes) (\<lambda>x. Ok (from_v3_batch_input x)))
       else if version = V5_BATCH_INPUT_VERSION then
         map_err DeserializeV5 (rbind (bc_v5 bc bytes) (\<lambda>x. Ok (from_v5_batch_input x)))
       else if version = BATCH_INPUT_VERSION then map_err DeserializeCurrent (bc_current bc bytes)
       else Err (UnsupportedVersion version))"

section \<open>What a decoded input carries\<close>

text \<open>
  The positional encoding starts with the version, so the probe and the schema decoders of the
  same bytes agree on it.
\<close>

definition version_leads :: "'e bincode \<Rightarrow> bytes \<Rightarrow> bool" where
  "version_leads bc bytes \<longleftrightarrow>
     (case bc_v3 bc bytes of Ok x \<Rightarrow> bc_u32 bc bytes = Ok (v3in_version x) | Err _ \<Rightarrow> True) \<and>
     (case bc_v5 bc bytes of Ok x \<Rightarrow> bc_u32 bc bytes = Ok (v5in_version x) | Err _ \<Rightarrow> True) \<and>
     (case bc_current bc bytes of Ok x \<Rightarrow> bc_u32 bc bytes = Ok (in_version x) | Err _ \<Rightarrow> True)"

lemmas wire_versions = V3_BATCH_INPUT_VERSION_def V5_BATCH_INPUT_VERSION_def BATCH_INPUT_VERSION_def
  SUPPORTED_BATCH_INPUT_VERSIONS_def

lemma decode_unsupported:
  "bc_u32 bc bytes = Ok v \<Longrightarrow> v \<notin> set SUPPORTED_BATCH_INPUT_VERSIONS \<Longrightarrow>
   decode_batch_input bc bytes = Err (UnsupportedVersion v)"
  by (auto simp: decode_batch_input_def batch_input_version_def wire_versions)

text \<open>The fields a version does not have read as their frozen defaults after decoding.\<close>

definition frozen_defaults :: "batch_input \<Rightarrow> bool" where
  "frozen_defaults x \<longleftrightarrow>
     (let m = in_batch_meta x
      in (in_version x \<noteq> BATCH_INPUT_VERSION \<longrightarrow>
            \<not> bm_l1_tx_filtering_enabled m \<and> \<not> bm_large_contracts_enabled m) \<and>
         (in_version x = V3_BATCH_INPUT_VERSION \<longrightarrow> bm_pubdata_content m = PUBDATA_CONTENT_FULL \<and>
            (\<forall>p. bm_interop_proofs m = Some p \<longrightarrow> isp_commitment_tree p = None)))"

lemma decode_normalised:
  assumes "decode_batch_input bc bytes = Ok x" and "version_leads bc bytes"
  shows "batch_input_version bc bytes = Ok (in_version x)"
    and "in_version x \<in> set SUPPORTED_BATCH_INPUT_VERSIONS" and "frozen_defaults x"
  using assms
  by (auto simp: decode_batch_input_def batch_input_version_def version_leads_def wire_versions
      frozen_defaults_def Let_def from_v3_batch_input_def from_v3_batch_meta_def from_v5_batch_input_def
      from_v5_batch_meta_def from_v3_interop_slot_proofs_def split: if_splits)

section \<open>Claims\<close>

text \<open>
  C17. Version dispatch: an unsupported version is refused with that version, and a decoded input
  carries the version the bytes lead with, which is a supported one, and the frozen default for
  every field its version does not have.
\<close>

theorem decode_dispatch:
  assumes "version_leads bc bytes" and "batch_input_version bc bytes = Ok v"
  shows "(v \<notin> set SUPPORTED_BATCH_INPUT_VERSIONS \<longrightarrow> decode_batch_input bc bytes = Err (UnsupportedVersion v)) \<and>
    (decode_batch_input bc bytes = Ok x \<longrightarrow>
       in_version x = v \<and> v \<in> set SUPPORTED_BATCH_INPUT_VERSIONS \<and> frozen_defaults x)"
proof (intro conjI impI)
  show "decode_batch_input bc bytes = Err (UnsupportedVersion v)" if "v \<notin> set SUPPORTED_BATCH_INPUT_VERSIONS"
    using assms(2) that unfolding batch_input_version_def by (rule decode_unsupported)
  assume "decode_batch_input bc bytes = Ok x"
  note d = decode_normalised [OF this assms(1)]
  show v: "in_version x = v" using d(1) assms(2) by simp
  show "v \<in> set SUPPORTED_BATCH_INPUT_VERSIONS" using d(2) unfolding v .
  show "frozen_defaults x" by (rule d(3))
qed

definition refusing_bincode :: "unit bincode" where
  "refusing_bincode = \<lparr>bc_u32 = \<lambda>_. Ok 4, bc_v3 = \<lambda>_. Err (), bc_v5 = \<lambda>_. Err (), bc_current = \<lambda>_. Err ()\<rparr>"

theorem decode_dispatch_witness: "decode_batch_input refusing_bincode [4, 0, 0, 0] = Err (UnsupportedVersion 4)"
proof -
  have "version_leads refusing_bincode [4, 0, 0, 0]" "batch_input_version refusing_bincode [4, 0, 0, 0] = Ok 4"
    by (simp_all add: version_leads_def batch_input_version_def refusing_bincode_def)
  from decode_dispatch [OF this] show ?thesis by (simp add: wire_versions)
qed

end
