(* ===== verification/Stream_Db.thy ===== *)
theory Stream_Db
  imports Proven_Db Wire
begin

text \<open>
  The streaming construction of \<open>lib/src/executor/stream.rs\<close>: one pass over the witness that
  verifies each storage proof, keeps its value and drops the proof, records one recovered root
  per block and compares it with the pinned root only at the end, because the batch metadata is
  the last part of the stream. The visitor tower is modelled on the fields bincode yields for
  each wire version. It is proved to return exactly what decoding everything and
  \<open>build_proven_db\<close> return, less the proofs.
\<close>

section \<open>The visitors\<close>

record stream_state =
  ss_verified_storage :: "b256 \<rightharpoonup> b256 option"
  ss_current_block_recovered_root :: "b256 option"
  ss_block_recovered_roots :: "b256 option list"

definition one_proof ::
  "crypto \<Rightarrow> b256 \<times> storage_proof \<Rightarrow> stream_state \<Rightarrow> (panic, stream_state) result" where
  "one_proof c = (\<lambda>(key, pf) st.
     rbind (verify_storage_proof c key pf) (\<lambda>(root, v).
     rbind (case ss_current_block_recovered_root st of
              None \<Rightarrow> Ok (st\<lparr>ss_current_block_recovered_root := Some root\<rparr>)
            | Some existing \<Rightarrow> rbind (ensure (root = existing) BlockProofRootsDiffer) (\<lambda>_. Ok st)) (\<lambda>st.
     let storage = ss_verified_storage st
     in Ok (st\<lparr>ss_verified_storage := (if storage key = None then storage(key \<mapsto> v) else storage)\<rparr>))))"

definition visit_block ::
  "crypto \<Rightarrow> block_input \<Rightarrow> block_input list \<times> stream_state \<Rightarrow>
   (panic, block_input list \<times> stream_state) result" where
  "visit_block c block = (\<lambda>(blocks, st).
     rbind (foldR (one_proof c) (bi_storage_proofs block) (st\<lparr>ss_current_block_recovered_root := None\<rparr>)) (\<lambda>st.
     Ok (blocks @ [block\<lparr>bi_storage_proofs := []\<rparr>],
         st\<lparr>ss_block_recovered_roots := ss_block_recovered_roots st @ [ss_current_block_recovered_root st]\<rparr>)))"

text \<open>A v3 block: its transactions, proofs and logs are converted where they are read.\<close>

definition visit_block_v3 ::
  "crypto \<Rightarrow> v3_block_input \<Rightarrow> block_input list \<times> stream_state \<Rightarrow>
   (panic, block_input list \<times> stream_state) result" where
  "visit_block_v3 c block = (\<lambda>(blocks, st).
     rbind (foldR (\<lambda>(key, legacy). one_proof c (key, from_v3_storage_proof legacy))
              (v3bi_storage_proofs block) (st\<lparr>ss_current_block_recovered_root := None\<rparr>)) (\<lambda>st.
     Ok (blocks @
         [\<lparr>bi_number = v3bi_number block, bi_timestamp = v3bi_timestamp block,
           bi_base_fee = v3bi_base_fee block, bi_gas_limit = v3bi_gas_limit block,
           bi_coinbase = v3bi_coinbase block, bi_prev_randao = v3bi_prev_randao block,
           bi_transactions = map from_v3_tx_input (v3bi_transactions block),
           bi_account_preimages = v3bi_account_preimages block,
           bi_block_hashes = v3bi_block_hashes block, bi_storage_proofs = [],
           bi_block_header_hash = v3bi_block_header_hash block,
           bi_l2_to_l1_logs = map from_v3_log_entry (v3bi_l2_to_l1_logs block),
           bi_expected_tree_root = v3bi_expected_tree_root block\<rparr>],
         st\<lparr>ss_block_recovered_roots := ss_block_recovered_roots st @ [ss_current_block_recovered_root st]\<rparr>)))"

definition initial_stream_state :: stream_state where
  "initial_stream_state =
     \<lparr>ss_verified_storage = Map.empty, ss_current_block_recovered_root = None,
      ss_block_recovered_roots = []\<rparr>"

datatype 'e stream_error =
  WireError "'e wire_error"
| VersionChanged u32 u32
| StreamPanic panic

definition check_version :: "u32 \<Rightarrow> u32 \<Rightarrow> ('e stream_error, unit) result" where
  "check_version wire_version version = ensure (version = wire_version) (VersionChanged wire_version version)"

definition visit_batch ::
  "crypto \<Rightarrow> 'e bincode \<Rightarrow> u32 \<Rightarrow> bytes \<Rightarrow> ('e stream_error, batch_input \<times> stream_state) result" where
  "visit_batch c bc wire_version bytes =
     (if wire_version = V3_BATCH_INPUT_VERSION then
        rbind (map_err (\<lambda>e. WireError (DeserializeV3 e)) (bc_v3 bc bytes)) (\<lambda>x.
        rbind (map_err StreamPanic (foldR (visit_block_v3 c) (v3in_blocks x) ([], initial_stream_state))) (\<lambda>(blocks, st).
        rbind (check_version wire_version (v3in_version x)) (\<lambda>_.
        Ok (\<lparr>in_version = v3in_version x, in_chain_id = v3in_chain_id x, in_spec_id = v3in_spec_id x,
             in_protocol_version_minor = v3in_protocol_version_minor x, in_blocks = blocks,
             in_batch_meta = from_v3_batch_meta (v3in_batch_meta x), in_bytecodes = v3in_bytecodes x\<rparr>, st))))
      else if wire_version = V5_BATCH_INPUT_VERSION then
        rbind (map_err (\<lambda>e. WireError (DeserializeV5 e)) (bc_v5 bc bytes)) (\<lambda>x.
        rbind (map_err StreamPanic (foldR (visit_block c) (v5in_blocks x) ([], initial_stream_state))) (\<lambda>(blocks, st).
        rbind (check_version wire_version (v5in_version x)) (\<lambda>_.
        Ok (\<lparr>in_version = v5in_version x, in_chain_id = v5in_chain_id x, in_spec_id = v5in_spec_id x,
             in_protocol_version_minor = v5in_protocol_version_minor x, in_blocks = blocks,
             in_batch_meta = from_v5_batch_meta (v5in_batch_meta x), in_bytecodes = v5in_bytecodes x\<rparr>, st))))
      else if wire_version = BATCH_INPUT_VERSION then
        rbind (map_err (\<lambda>e. WireError (DeserializeCurrent e)) (bc_current bc bytes)) (\<lambda>x.
        rbind (map_err StreamPanic (foldR (visit_block c) (in_blocks x) ([], initial_stream_state))) (\<lambda>(blocks, st).
        rbind (check_version wire_version (in_version x)) (\<lambda>_. Ok (x\<lparr>in_blocks := blocks\<rparr>, st))))
      else Err (WireError (UnsupportedVersion wire_version)))"

definition check_recovered_roots :: "batch_input \<Rightarrow> b256 option list \<Rightarrow> (panic, unit) result" where
  "check_recovered_roots inp roots =
     checkR (\<lambda>(block, recovered). case recovered of
         Some root \<Rightarrow> ensure (root = expected_root_for_block block (in_batch_meta inp)) ProofRootMismatch
       | None \<Rightarrow> Ok ()) (zip (in_blocks inp) roots)"

definition finish_stream :: "crypto \<Rightarrow> batch_input \<Rightarrow> stream_state \<Rightarrow> (panic, batch_input \<times> proven_db) result" where
  "finish_stream c inp st =
     rbind (check_recovered_roots inp (ss_block_recovered_roots st)) (\<lambda>_.
     rbind (load_bytecodes c (in_bytecodes inp)) (\<lambda>bytecodes.
     rbind (build_verified_accounts c (in_blocks inp) (ss_verified_storage st) bytecodes) (\<lambda>accounts.
     rbind (verify_witness_block_hashes (in_blocks inp) (in_batch_meta inp)) (\<lambda>_.
     Ok (inp, from_parts (ss_verified_storage st) accounts bytecodes Map.empty)))))"

definition stream_deserialize_and_build_db ::
  "crypto \<Rightarrow> 'e bincode \<Rightarrow> bytes \<Rightarrow> ('e stream_error, batch_input \<times> proven_db) result" where
  "stream_deserialize_and_build_db c bc bytes =
     rbind (map_err (\<lambda>e. WireError (ReadVersion e)) (batch_input_version bc bytes)) (\<lambda>wire_version.
     rbind (ensure (wire_version \<in> set SUPPORTED_BATCH_INPUT_VERSIONS)
              (WireError (UnsupportedVersion wire_version))) (\<lambda>_.
     rbind (visit_batch c bc wire_version bytes) (\<lambda>(inp, st).
     map_err StreamPanic (finish_stream c inp st))))"

section \<open>Streaming is collecting\<close>

definition strip_block :: "block_input \<Rightarrow> block_input" where
  "strip_block block = block\<lparr>bi_storage_proofs := []\<rparr>"

definition strip_proofs :: "batch_input \<Rightarrow> batch_input" where
  "strip_proofs inp = inp\<lparr>in_blocks := map strip_block (in_blocks inp)\<rparr>"

text \<open>
  One block: as long as the recovered root is the pinned one, the running state of the visitor
  and the fold of the collecting path carry the same values.
\<close>

definition root_is :: "b256 \<Rightarrow> b256 option \<Rightarrow> bool" where
  "root_is R m \<longleftrightarrow> m = None \<or> m = Some R"

definition keep_first :: "b256 \<Rightarrow> b256 option \<Rightarrow> (b256 \<rightharpoonup> b256 option) \<Rightarrow> b256 \<rightharpoonup> b256 option" where
  "keep_first k v storage = (if storage k = None then storage(k \<mapsto> v) else storage)"

definition advance :: "(b256 \<rightharpoonup> b256 option) \<Rightarrow> b256 \<Rightarrow> stream_state \<Rightarrow> stream_state" where
  "advance storage R st = st\<lparr>ss_verified_storage := storage, ss_current_block_recovered_root := Some R\<rparr>"

lemma one_proof_eq:
  "one_proof c (k, p) st =
     rbind (verify_storage_proof c k p) (\<lambda>(root, v).
       if root_is root (ss_current_block_recovered_root st)
       then Ok (advance (keep_first k v (ss_verified_storage st)) root st) else Err BlockProofRootsDiffer)"
  by (cases "verify_storage_proof c k p"; cases "ss_current_block_recovered_root st"; cases st)
     (auto simp: one_proof_def root_is_def keep_first_def advance_def Let_def ensure_def)

lemma add_proof_eq:
  "add_proof c R (k, p) storage =
     rbind (verify_storage_proof c k p) (\<lambda>(root, v).
       if root = R then Ok (keep_first k v storage) else Err ProofRootMismatch)"
  by (cases "verify_storage_proof c k p") (auto simp: add_proof_def keep_first_def ensure_def)

lemma advance_sel [simp]:
  "ss_current_block_recovered_root (advance storage R st) = Some R"
  "ss_verified_storage (advance storage R st) = storage"
  "ss_block_recovered_roots (advance storage R st) = ss_block_recovered_roots st"
  "advance storage' R' (advance storage R st) = advance storage' R' st"
  by (simp_all add: advance_def)

lemma one_proof_keeps_root:
  assumes "foldR (one_proof c) ps st = Ok st'" and "ss_current_block_recovered_root st = Some r"
  shows "ss_current_block_recovered_root st' = Some r"
  using assms
  by (rule foldR_invariant [where I = "\<lambda>st. ss_current_block_recovered_root st = Some r"])
     (auto simp: one_proof_eq root_is_def split: if_splits)

lemma stream_block:
  assumes "root_is R (ss_current_block_recovered_root st)"
  shows "foldR (one_proof c) ps st = Ok st' \<and> root_is R (ss_current_block_recovered_root st') \<longleftrightarrow>
    (\<exists>storage. foldR (add_proof c R) ps (ss_verified_storage st) = Ok storage \<and>
       st' = (if ps = [] then st else advance storage R st))"
  using assms
proof (induction ps arbitrary: st)
  case Nil
  then show ?case by auto
next
  case (Cons kp ps)
  obtain k p where kp: "kp = (k, p)" by fastforce
  show ?case
  proof (cases "verify_storage_proof c k p")
    case (Err e)
    then show ?thesis by (simp add: kp one_proof_eq add_proof_eq)
  next
    case (Ok rv)
    then obtain root v where v: "verify_storage_proof c k p = Ok (root, v)" by (cases rv) auto
    show ?thesis
    proof (cases "root = R")
      case True
      let ?st = "advance (keep_first k v (ss_verified_storage st)) R st"
      have "root_is R (ss_current_block_recovered_root ?st)" by (simp add: root_is_def)
      then show ?thesis using Cons.IH [of ?st] Cons.prems True
        by (auto simp: kp one_proof_eq add_proof_eq v)
    next
      case False
      then have "\<not> (foldR (one_proof c) (kp # ps) st = Ok st' \<and> root_is R (ss_current_block_recovered_root st'))"
        using one_proof_keeps_root [of c ps _ st' root]
        by (auto simp: kp one_proof_eq v root_is_def split: if_splits)
      then show ?thesis using False by (simp add: kp add_proof_eq v)
    qed
  qed
qed

text \<open>All blocks: the roots recorded per block are pinned exactly when the collecting fold succeeds.\<close>

definition block_root :: "b256 \<Rightarrow> block_input \<Rightarrow> b256 option" where
  "block_root R block = (if bi_storage_proofs block = [] then None else Some R)"

lemma visit_block_eq:
  "visit_block c block (blocks, st) =
     rbind (foldR (one_proof c) (bi_storage_proofs block) (st\<lparr>ss_current_block_recovered_root := None\<rparr>)) (\<lambda>st.
     Ok (blocks @ [strip_block block],
         st\<lparr>ss_block_recovered_roots := ss_block_recovered_roots st @ [ss_current_block_recovered_root st]\<rparr>))"
  by (simp add: visit_block_def strip_block_def)

lemma one_proof_roots:
  "foldR (one_proof c) ps st = Ok st' \<Longrightarrow> ss_block_recovered_roots st' = ss_block_recovered_roots st"
  by (erule foldR_invariant [where I = "\<lambda>s. ss_block_recovered_roots s = ss_block_recovered_roots st"])
     (auto simp: one_proof_eq split: if_splits)

lemma stream_blocks_collect:
  assumes "foldR (visit_block c) bs (acc, st) = Ok (bs', st')"
  shows "bs' = acc @ map strip_block bs"
    and "\<exists>rs. ss_block_recovered_roots st' = ss_block_recovered_roots st @ rs \<and> length rs = length bs \<and>
      (list_all (root_is R) rs \<longrightarrow>
         foldR (add_proof c R) (concat (map bi_storage_proofs bs)) (ss_verified_storage st)
           = Ok (ss_verified_storage st'))"
proof -
  have "bs' = acc @ map strip_block bs \<and>
    (\<exists>rs. ss_block_recovered_roots st' = ss_block_recovered_roots st @ rs \<and> length rs = length bs \<and>
      (list_all (root_is R) rs \<longrightarrow>
         foldR (add_proof c R) (concat (map bi_storage_proofs bs)) (ss_verified_storage st)
           = Ok (ss_verified_storage st')))"
    using assms
  proof (induction bs arbitrary: acc st)
    case (Cons b bs)
    let ?st0 = "st\<lparr>ss_current_block_recovered_root := None\<rparr>"
    obtain st1 where st1: "foldR (one_proof c) (bi_storage_proofs b) ?st0 = Ok st1"
      and rest: "foldR (visit_block c) bs (acc @ [strip_block b], st1\<lparr>ss_block_recovered_roots :=
          ss_block_recovered_roots st1 @ [ss_current_block_recovered_root st1]\<rparr>) = Ok (bs', st')"
      using Cons.prems by (auto simp: visit_block_eq)
    obtain rs where rs: "bs' = acc @ [strip_block b] @ map strip_block bs" "length rs = length bs"
        "ss_block_recovered_roots st' = ss_block_recovered_roots st1 @ [ss_current_block_recovered_root st1] @ rs"
        "list_all (root_is R) rs \<Longrightarrow>
           foldR (add_proof c R) (concat (map bi_storage_proofs bs)) (ss_verified_storage st1)
             = Ok (ss_verified_storage st')"
      using Cons.IH [OF rest] by auto
    have head: "foldR (add_proof c R) (bi_storage_proofs b) (ss_verified_storage st) = Ok (ss_verified_storage st1)"
      if "root_is R (ss_current_block_recovered_root st1)"
      using iffD1 [OF stream_block [of R ?st0 c "bi_storage_proofs b" st1] conjI [OF st1 that]]
      by (auto simp: root_is_def split: if_splits)
    have "ss_block_recovered_roots st1 = ss_block_recovered_roots st" using one_proof_roots [OF st1] by simp
    then show ?case using rs head
      by (auto simp: foldR_append intro!: exI [of _ "ss_current_block_recovered_root st1 # rs"])
  qed simp
  then show "bs' = acc @ map strip_block bs"
    and "\<exists>rs. ss_block_recovered_roots st' = ss_block_recovered_roots st @ rs \<and> length rs = length bs \<and>
      (list_all (root_is R) rs \<longrightarrow>
         foldR (add_proof c R) (concat (map bi_storage_proofs bs)) (ss_verified_storage st)
           = Ok (ss_verified_storage st'))" by blast+
qed

lemma collect_stream_blocks:
  assumes "foldR (add_proof c R) (concat (map bi_storage_proofs bs)) (ss_verified_storage st) = Ok storage"
  shows "\<exists>st'. foldR (visit_block c) bs (acc, st) = Ok (acc @ map strip_block bs, st') \<and>
    ss_verified_storage st' = storage \<and>
    ss_block_recovered_roots st' = ss_block_recovered_roots st @ map (block_root R) bs"
  using assms
proof (induction bs arbitrary: acc st)
  case Nil
  then show ?case by simp
next
  case (Cons b bs)
  let ?st0 = "st\<lparr>ss_current_block_recovered_root := None\<rparr>"
  obtain s1 where s1: "foldR (add_proof c R) (bi_storage_proofs b) (ss_verified_storage st) = Ok s1"
    and rest: "foldR (add_proof c R) (concat (map bi_storage_proofs bs)) s1 = Ok storage"
    using Cons.prems by (auto simp: foldR_append)
  let ?st1 = "if bi_storage_proofs b = [] then ?st0 else advance s1 R ?st0"
  have one: "foldR (one_proof c) (bi_storage_proofs b) ?st0 = Ok ?st1"
    using stream_block [of R ?st0 c "bi_storage_proofs b" ?st1] s1 by (simp add: root_is_def)
  let ?st2 = "?st1\<lparr>ss_block_recovered_roots := ss_block_recovered_roots st @ [block_root R b]\<rparr>"
  have "visit_block c b (acc, st) = Ok (acc @ [strip_block b], ?st2)"
    using one by (auto simp: visit_block_eq block_root_def)
  moreover have "ss_verified_storage ?st2 = s1" using s1 by auto
  then have "foldR (add_proof c R) (concat (map bi_storage_proofs bs)) (ss_verified_storage ?st2) = Ok storage"
    using rest by simp
  note Cons.IH [OF this, of "acc @ [strip_block b]"]
  ultimately show ?case by auto
qed

lemma check_recovered_roots_iff:
  assumes "length rs = length (in_blocks inp)"
  shows "check_recovered_roots inp rs = Ok () \<longleftrightarrow> list_all (root_is (bm_tree_root_before (in_batch_meta inp))) rs"
proof -
  have "check_recovered_roots inp rs = Ok () \<longleftrightarrow>
      (\<forall>(b, r) \<in> set (zip (in_blocks inp) rs). root_is (bm_tree_root_before (in_batch_meta inp)) r)"
    unfolding check_recovered_roots_def checkR_Ok_iff
    by (rule ball_cong) (auto simp: root_is_def expected_root_for_block_def split: option.splits)
  also have "\<dots> \<longleftrightarrow> list_all (root_is (bm_tree_root_before (in_batch_meta inp))) rs"
    using assms by (auto simp: list_all_length set_zip)
  finally show ?thesis .
qed

lemma strip_block_sel [simp]:
  "bi_account_preimages (strip_block b) = bi_account_preimages b" "bi_number (strip_block b) = bi_number b"
  "bi_block_hashes (strip_block b) = bi_block_hashes b"
  by (simp_all add: strip_block_def)

lemma strip_accounts:
  "build_verified_accounts c (map strip_block bs) storage bytecodes = build_verified_accounts c bs storage bytecodes"
  by (simp add: build_verified_accounts_def foldR_map)

lemma strip_witness_hashes:
  "verify_witness_block_hashes (map strip_block bs) meta = verify_witness_block_hashes bs meta"
  by (simp add: verify_witness_block_hashes_def checkR_map last_map Let_def)

lemma stream_core:
  "(\<exists>blocks st. foldR (visit_block c) (in_blocks inp) ([], initial_stream_state) = Ok (blocks, st) \<and>
      finish_stream c (inp\<lparr>in_blocks := blocks\<rparr>) st = Ok (x, db)) \<longleftrightarrow>
   build_proven_db c inp = Ok db \<and> x = strip_proofs inp"
  (is "?L \<longleftrightarrow> ?R")
proof
  let ?root = "bm_tree_root_before (in_batch_meta inp)"
  assume ?L
  then obtain blocks st where v: "foldR (visit_block c) (in_blocks inp) ([], initial_stream_state) = Ok (blocks, st)"
    and fin: "finish_stream c (inp\<lparr>in_blocks := blocks\<rparr>) st = Ok (x, db)" by blast
  obtain rs where rs: "ss_block_recovered_roots st = rs" "length rs = length (in_blocks inp)"
      "list_all (root_is ?root) rs \<Longrightarrow>
         foldR (add_proof c ?root) (batch_proofs inp) Map.empty = Ok (ss_verified_storage st)"
    using stream_blocks_collect(2) [OF v, of ?root] by (auto simp: initial_stream_state_def batch_proofs_def)
  have blocks: "blocks = map strip_block (in_blocks inp)" using stream_blocks_collect(1) [OF v] by simp
  have "list_all (root_is ?root) rs"
    using fin check_recovered_roots_iff [of rs "inp\<lparr>in_blocks := blocks\<rparr>"] rs(1,2)
    by (auto simp: finish_stream_def blocks)
  then have "collect_storage c inp = Ok (ss_verified_storage st)" using rs(3) by (simp add: collect_storage_flat)
  then show ?R
    using fin by (auto simp: finish_stream_def build_proven_db_def blocks strip_accounts strip_witness_hashes
        strip_proofs_def)
next
  let ?root = "bm_tree_root_before (in_batch_meta inp)"
  assume r: ?R
  then have "foldR (add_proof c ?root) (concat (map bi_storage_proofs (in_blocks inp)))
      (ss_verified_storage initial_stream_state) = Ok (pd_verified_storage db)"
    using build_proven_db_parts(1) [of c inp db]
    by (simp add: collect_storage_flat batch_proofs_def initial_stream_state_def)
  from collect_stream_blocks [OF this, of "[]"] obtain st where st:
      "foldR (visit_block c) (in_blocks inp) ([], initial_stream_state) = Ok (map strip_block (in_blocks inp), st)"
      "ss_verified_storage st = pd_verified_storage db"
      "ss_block_recovered_roots st = map (block_root ?root) (in_blocks inp)"
    by (auto simp: initial_stream_state_def)
  have "check_recovered_roots (strip_proofs inp) (ss_block_recovered_roots st) = Ok ()"
    using check_recovered_roots_iff [of "ss_block_recovered_roots st" "strip_proofs inp"]
    by (auto simp: st(3) strip_proofs_def list_all_iff block_root_def root_is_def)
  then have "finish_stream c (strip_proofs inp) st = Ok (strip_proofs inp, db)"
    using r by (auto simp: finish_stream_def build_proven_db_def st(2) strip_accounts strip_witness_hashes
        strip_proofs_def from_parts_def)
  then show ?L using st(1) r by (auto simp: strip_proofs_def)
qed

lemma visit_block_v3_eq: "visit_block_v3 c b = visit_block c (from_v3_block_input b)"
proof
  fix s
  have "foldR (one_proof c) (map (\<lambda>(k, p). (k, from_v3_storage_proof p)) ps) =
      foldR (\<lambda>(k, p). one_proof c (k, from_v3_storage_proof p)) ps" for ps
    by (rule ext) (simp add: foldR_map split_def)
  then show "visit_block_v3 c b s = visit_block c (from_v3_block_input b) s"
    by (cases s) (simp add: visit_block_v3_def visit_block_def from_v3_block_input_def)
qed

lemma visit_batch_eq:
  assumes "version_leads bc bytes" and "batch_input_version bc bytes = Ok v"
  shows "visit_batch c bc v bytes = Ok (x, st) \<longleftrightarrow>
    (\<exists>inp blocks. decode_batch_input bc bytes = Ok inp \<and> x = inp\<lparr>in_blocks := blocks\<rparr> \<and>
       foldR (visit_block c) (in_blocks inp) ([], initial_stream_state) = Ok (blocks, st))"
proof -
  have v3: "foldR (visit_block_v3 c) bs s = foldR (visit_block c) (map from_v3_block_input bs) s" for bs s
    by (simp add: foldR_map flip: visit_block_v3_eq)
  have u32: "bc_u32 bc bytes = Ok v" using assms(2) by (simp add: batch_input_version_def)
  show ?thesis
    using assms(1) u32 unfolding visit_batch_def decode_batch_input_def batch_input_version_def v3
    by (auto simp: check_version_def wire_versions version_leads_def from_v3_batch_input_def
        from_v5_batch_input_def)
qed

lemma stream_equiv:
  assumes "version_leads bc bytes"
  shows "stream_deserialize_and_build_db c bc bytes = Ok (x, db) \<longleftrightarrow>
    (\<exists>inp. decode_batch_input bc bytes = Ok inp \<and> build_proven_db c inp = Ok db \<and> x = strip_proofs inp)"
proof -
  have "stream_deserialize_and_build_db c bc bytes = Ok (x, db) \<longleftrightarrow>
    (\<exists>v y st. batch_input_version bc bytes = Ok v \<and> v \<in> set SUPPORTED_BATCH_INPUT_VERSIONS \<and>
       visit_batch c bc v bytes = Ok (y, st) \<and> finish_stream c y st = Ok (x, db))"
    by (auto simp: stream_deserialize_and_build_db_def)
  also have "\<dots> \<longleftrightarrow> (\<exists>inp blocks st. decode_batch_input bc bytes = Ok inp \<and>
       foldR (visit_block c) (in_blocks inp) ([], initial_stream_state) = Ok (blocks, st) \<and>
       finish_stream c (inp\<lparr>in_blocks := blocks\<rparr>) st = Ok (x, db))"
    using visit_batch_eq [OF assms] decode_normalised(1,2) [OF _ assms] by (auto simp: eq_commute) metis+
  also have "\<dots> \<longleftrightarrow> (\<exists>inp. decode_batch_input bc bytes = Ok inp \<and> build_proven_db c inp = Ok db \<and> x = strip_proofs inp)"
    using stream_core by blast
  finally show ?thesis .
qed

end
