(* ===== verification/Interop.thy ===== *)
theory Interop
  imports Proven_Db Commitment
begin

text \<open>
  The interop scalars of \<open>lib/src/executor/interop.rs\<close>: settlement-layer chain id, multichain root
  and the two commitment tree roots, each read through a storage proof against a pinned root. A
  derived value is the value the tree with that root holds at the derived slot.
\<close>

definition SYSTEM_CONTEXT_ADDRESS :: address where "SYSTEM_CONTEXT_ADDRESS = 0x800b"
definition MESSAGE_ROOT_ADDRESS :: address where "MESSAGE_ROOT_ADDRESS = 0x10005"
definition INTEROP_COMMITMENT_TREE_ADDRESS :: address where "INTEROP_COMMITMENT_TREE_ADDRESS = 0x10012"

definition verify_slot :: "crypto \<Rightarrow> storage_proof \<Rightarrow> b256 \<Rightarrow> b256 \<Rightarrow> (panic, b256 option) result" where
  "verify_slot c pf flat_key expected_root =
     rbind (map_err (\<lambda>_. InteropProofFailed) (verify c pf flat_key)) (\<lambda>(root, v).
     rbind (ensure (root = expected_root) InteropRootMismatch) (\<lambda>_. Ok v))"

definition or_zero :: "b256 option \<Rightarrow> b256" where
  "or_zero v = (case v of Some x \<Rightarrow> x | None \<Rightarrow> 0)"

definition derive_sl_chain_id :: "crypto \<Rightarrow> storage_proof \<Rightarrow> b256 \<Rightarrow> (panic, u64) result" where
  "derive_sl_chain_id c pf tree_root_after =
     (let flat_key = derive_flat_storage_key c SYSTEM_CONTEXT_ADDRESS 0
      in rbind (verify_slot c pf flat_key tree_root_after) (\<lambda>v.
         let bytes = bytes32 (or_zero v)
         in rbind (ensure (\<forall>b \<in> set (take 24 bytes). b = 0) SlChainIdExceedsU64) (\<lambda>_.
            Ok (of_be_bytes (drop 24 bytes)))))"

definition nodes_root_slot :: "crypto \<Rightarrow> u8 \<Rightarrow> b256 \<Rightarrow> b256" where
  "nodes_root_slot c nodes_base_slot height =
     (let base = cr_keccak256 c (bytes32 (ucast nodes_base_slot))
      in cr_keccak256 c (bytes32 (base + height)))"

definition derive_merkle_engine_root ::
  "crypto \<Rightarrow> address \<Rightarrow> b256 \<Rightarrow> u8 \<Rightarrow> storage_proof \<Rightarrow> storage_proof \<Rightarrow> b256 \<Rightarrow> (panic, b256) result" where
  "derive_merkle_engine_root c addr height_slot nodes_base_slot height_proof root_proof anchor_root =
     rbind (verify_slot c height_proof (derive_flat_storage_key c addr height_slot) anchor_root) (\<lambda>height.
     let root_slot = nodes_root_slot c nodes_base_slot (or_zero height)
     in rbind (verify_slot c root_proof (derive_flat_storage_key c addr root_slot) anchor_root) (\<lambda>v.
        Ok (or_zero v)))"

definition derive_multichain_root :: "crypto \<Rightarrow> interop_slot_proofs \<Rightarrow> b256 \<Rightarrow> (panic, b256) result" where
  "derive_multichain_root c proofs tree_root_after =
     derive_merkle_engine_root c MESSAGE_ROOT_ADDRESS 0x04 0x06
       (isp_multichain_height proofs) (isp_multichain_root proofs) tree_root_after"

record interop_commitment_tree_roots =
  ctr_begin :: b256
  ctr_end :: b256

record derived_interop_values =
  div_multichain_root :: b256
  div_sl_chain_id :: u64
  div_commitment_tree_roots :: "interop_commitment_tree_roots option"

definition derive_interop_commitment_tree_roots ::
  "crypto \<Rightarrow> interop_commitment_tree_proofs \<Rightarrow> b256 \<Rightarrow> b256 \<Rightarrow>
   (panic, interop_commitment_tree_roots) result" where
  "derive_interop_commitment_tree_roots c proofs tree_root_before tree_root_after =
     (let read_at = derive_merkle_engine_root c INTEROP_COMMITMENT_TREE_ADDRESS 0 0x02
      in rbind (read_at (ict_height_begin proofs) (ict_root_begin proofs) tree_root_before) (\<lambda>b.
         rbind (read_at (ict_height_end proofs) (ict_root_end proofs) tree_root_after) (\<lambda>e.
         Ok \<lparr>ctr_begin = b, ctr_end = e\<rparr>)))"

section \<open>The derived values are reads of the tree\<close>

definition tree_read :: "crypto \<Rightarrow> tree_leaf list \<Rightarrow> address \<Rightarrow> b256 \<Rightarrow> b256" where
  "tree_read c T addr index = or_zero (tree_map T (derive_flat_storage_key c addr index))"

definition engine_root :: "crypto \<Rightarrow> tree_leaf list \<Rightarrow> address \<Rightarrow> b256 \<Rightarrow> u8 \<Rightarrow> b256" where
  "engine_root c T addr height_slot base =
     tree_read c T addr (nodes_root_slot c base (tree_read c T addr height_slot))"

text \<open>No flat key of the account hashes to the key of the lower guard leaf.\<close>

definition keys_nonzero :: "crypto \<Rightarrow> address \<Rightarrow> bool" where
  "keys_nonzero c addr \<longleftrightarrow> (\<forall>index. derive_flat_storage_key c addr index \<noteq> 0)"

lemma verify_slot_sound:
  assumes "wf_tree T" and "binding c T (keyed_pairs c ps) (keyed_leaves ps)" and "(k, pf) \<in> set ps"
    and "k \<noteq> 0" and "verify_slot c pf k (tree_root c T) = Ok v"
  shows "v = tree_map T k"
proof -
  have "binding c T (set (proof_pairs c pf k)) (set (proof_leaves pf k))"
    by (rule binding_mono [OF assms(2)]) (use assms(3) in \<open>auto simp: keyed_pairs_def keyed_leaves_def\<close>)
  then show ?thesis using verify_sound [OF assms(1) _ _ assms(4)] assms(5) by (auto simp: verify_slot_def)
qed

text \<open>The keyed proofs an engine read checks: the second key depends on the height read first.\<close>

definition engine_proofs ::
  "crypto \<Rightarrow> tree_leaf list \<Rightarrow> address \<Rightarrow> b256 \<Rightarrow> u8 \<Rightarrow> storage_proof \<Rightarrow> storage_proof \<Rightarrow> (b256 \<times> storage_proof) list" where
  "engine_proofs c T addr height_slot base hp rp =
     [(derive_flat_storage_key c addr height_slot, hp),
      (derive_flat_storage_key c addr (nodes_root_slot c base (tree_read c T addr height_slot)), rp)]"

lemma engine_root_sound:
  assumes "wf_tree T" and "keys_nonzero c addr"
    and b: "binding c T (keyed_pairs c (engine_proofs c T addr hs base hp rp))
      (keyed_leaves (engine_proofs c T addr hs base hp rp))"
    and "derive_merkle_engine_root c addr hs base hp rp (tree_root c T) = Ok r"
  shows "r = engine_root c T addr hs base"
proof -
  have nz: "derive_flat_storage_key c addr i \<noteq> 0" for i using assms(2) by (simp add: keys_nonzero_def)
  note slot_sound = verify_slot_sound [OF assms(1) b _ nz]
  obtain h v where h: "verify_slot c hp (derive_flat_storage_key c addr hs) (tree_root c T) = Ok h"
    and v: "verify_slot c rp (derive_flat_storage_key c addr (nodes_root_slot c base (or_zero h))) (tree_root c T) = Ok v"
    and r: "r = or_zero v"
    using assms(4) by (auto simp: derive_merkle_engine_root_def Let_def)
  have h': "or_zero h = tree_read c T addr hs"
    using slot_sound [OF _ h] by (simp add: engine_proofs_def tree_read_def)
  then have "v = tree_map T (derive_flat_storage_key c addr (nodes_root_slot c base (or_zero h)))"
    using slot_sound [OF _ v] by (simp add: engine_proofs_def)
  then show ?thesis by (simp add: r engine_root_def h' tree_read_def)
qed

lemma zero_prefix_value:
  assumes "\<forall>b \<in> set (take 24 (bytes32 w)). b = 0"
  shows "ucast (of_be_bytes (drop 24 (bytes32 w)) :: u64) = w"
proof -
  have z: "take 24 (bytes32 w) = zeros 24"
    unfolding zeros_def using assms replicate_length_same [of "take 24 (bytes32 w)" 0] by simp
  have "bytes32 (ucast (of_be_bytes (drop 24 (bytes32 w)) :: u64)) = zeros 24 @ drop 24 (bytes32 w)"
  proof -
    have le: "le_bytes 32 (ucast (x :: u64) :: b256) = le_bytes 8 x @ zeros 24" for x
    proof (rule nth_equalityI)
      have beyond: "\<not> bit x n" if "64 \<le> n" for n using that bit_imp_le_length [of x n] by auto
      fix i assume i: "i < length (le_bytes 32 (ucast x :: b256))"
      show "le_bytes 32 (ucast x :: b256) ! i = (le_bytes 8 x @ zeros 24) ! i"
        using i by (intro bit_word_eqI) (auto simp: le_bytes_def nth_append zeros_def bit_simps beyond)
    qed simp
    show ?thesis
      by (simp add: be_bytes_def le zeros_def) (simp add: be_of_be_bytes flip: be_bytes_def)
  qed
  also have "\<dots> = bytes32 w" by (simp flip: z)
  finally show ?thesis by simp
qed

lemma sl_chain_id_sound:
  assumes "wf_tree T" and "derive_flat_storage_key c SYSTEM_CONTEXT_ADDRESS 0 \<noteq> 0"
    and "binding c T (keyed_pairs c [(derive_flat_storage_key c SYSTEM_CONTEXT_ADDRESS 0, pf)])
      (keyed_leaves [(derive_flat_storage_key c SYSTEM_CONTEXT_ADDRESS 0, pf)])"
    and "derive_sl_chain_id c pf (tree_root c T) = Ok n"
  shows "ucast n = tree_read c T SYSTEM_CONTEXT_ADDRESS 0"
proof -
  obtain v where v: "verify_slot c pf (derive_flat_storage_key c SYSTEM_CONTEXT_ADDRESS 0) (tree_root c T) = Ok v"
    and z: "\<forall>b \<in> set (take 24 (bytes32 (or_zero v))). b = 0" and n: "n = of_be_bytes (drop 24 (bytes32 (or_zero v)))"
    using assms(4) by (auto simp: derive_sl_chain_id_def Let_def)
  have "v = tree_map T (derive_flat_storage_key c SYSTEM_CONTEXT_ADDRESS 0)"
    using verify_slot_sound [OF assms(1,3) _ assms(2) v] by simp
  then show ?thesis using zero_prefix_value [OF z] by (simp add: n tree_read_def)
qed

end
