(* ===== verification/Batch_Exec.thy ===== *)
theory Batch_Exec
  imports Block_Exec Stream_Db Interop
begin

text \<open>
  The batch executor of \<open>lib/src/executor/mod.rs\<close>: validation of the batch, the block-hash ring
  before and after, the loop over the blocks, the transaction counters, the interop and data
  availability values and the commitment, and the collecting and streaming entry points.
\<close>

section \<open>Constants and validation\<close>

definition ATLAS_V4_MIN_PROTOCOL_MINOR :: u32 where "ATLAS_V4_MIN_PROTOCOL_MINOR = 32"
definition ATLAS_V5_MIN_PROTOCOL_MINOR :: u32 where "ATLAS_V5_MIN_PROTOCOL_MINOR = 34"
definition ERGS_PER_GAS :: u64 where "ERGS_PER_GAS = 256"
definition MAX_BLOCK_GAS_LIMIT :: u64 where "MAX_BLOCK_GAS_LIMIT = (- 1) div ERGS_PER_GAS"
definition MAX_TX_GAS_LIMIT :: u64 where "MAX_TX_GAS_LIMIT = MAX_BLOCK_GAS_LIMIT"
definition DEFAULT_MAX_TX_GAS_LIMIT :: u64 where "DEFAULT_MAX_TX_GAS_LIMIT = push_bit 24 1"

definition zk_spec_id :: "u8 \<Rightarrow> zk_spec_id option" where
  "zk_spec_id spec_id =
     (if spec_id = 0 then Some AtlasV1 else if spec_id = 1 then Some AtlasV2
      else if spec_id = 2 then Some AtlasV3 else if spec_id = 3 then Some AtlasV4
      else if spec_id = 4 then Some AtlasV5 else None)"

definition validate_atlas_v4_block_invariants ::
  "'a spec_crate_scheme \<Rightarrow> batch_input \<Rightarrow> zk_spec_id \<Rightarrow> (panic, unit) result" where
  "validate_atlas_v4_block_invariants sc inp spec_id =
     (if \<not> sc_is_enabled_in sc AtlasV4 spec_id then Ok ()
      else let max_tx_gas_limit = bm_max_tx_gas_limit (in_batch_meta inp);
               content = bm_pubdata_content (in_batch_meta inp)
           in rbind (ensure (DEFAULT_MAX_TX_GAS_LIMIT \<le> max_tx_gas_limit) (ExecutorPanic MaxTxGasLimitTooLow)) (\<lambda>_.
              rbind (ensure (content = PUBDATA_CONTENT_FULL \<or> content = PUBDATA_CONTENT_LOGS_ONLY)
                       (ExecutorPanic UnknownPubdataContent)) (\<lambda>_.
              checkR (\<lambda>block.
                rbind (ensure (1 \<le> bi_number block) (ExecutorPanic BlockZeroNotExecutable)) (\<lambda>_.
                rbind (ensure (bi_gas_limit block \<le> MAX_BLOCK_GAS_LIMIT) (ExecutorPanic BlockGasLimitTooLarge)) (\<lambda>_.
                ensure (min (bi_gas_limit block) max_tx_gas_limit \<le> MAX_TX_GAS_LIMIT)
                  (ExecutorPanic TxGasLimitTooLarge)))) (in_blocks inp))))"

definition validate_expected_tree_roots :: "batch_input \<Rightarrow> (panic, unit) result" where
  "validate_expected_tree_roots inp =
     (let pinned = bm_tree_root_before (in_batch_meta inp)
      in checkR (\<lambda>block. ensure (bi_expected_tree_root block = 0 \<or> bi_expected_tree_root block = pinned)
           (ExecutorPanic ForeignTreeRoot)) (in_blocks inp))"

definition validate_block_sequence ::
  "'a spec_crate_scheme \<Rightarrow> batch_input \<Rightarrow> zk_spec_id \<Rightarrow> (panic, unit) result" where
  "validate_block_sequence sc inp spec_id =
     (let meta = in_batch_meta inp; blocks = in_blocks inp
      in rbind (ensure (blocks \<noteq> []) (ExecutorPanic EmptyBatch)) (\<lambda>_.
         rbind (validate_atlas_v4_block_invariants sc inp spec_id) (\<lambda>_.
         rbind (ensure (bi_number (blocks ! 0) = bm_block_number_before meta + 1)
                  (ExecutorPanic FirstBlockNumberMismatch)) (\<lambda>_.
         rbind (ensure (bm_last_block_timestamp_before meta \<le> bi_timestamp (blocks ! 0))
                  (ExecutorPanic FirstBlockTimestampDecreases)) (\<lambda>_.
         rbind (checkR (\<lambda>(a, b).
                  rbind (ensure (bi_number b = bi_number a + 1) (ExecutorPanic BlockNumbersNotConsecutive)) (\<lambda>_.
                  ensure (bi_timestamp a \<le> bi_timestamp b) (ExecutorPanic BlockTimestampsDecrease)))
                  (windows2 blocks)) (\<lambda>_.
         validate_expected_tree_roots inp))))))"

definition newest_spec_of_version :: "u32 \<Rightarrow> zk_spec_id option" where
  "newest_spec_of_version version =
     (if version = V3_BATCH_INPUT_VERSION then Some AtlasV3
      else if version = V5_BATCH_INPUT_VERSION then Some AtlasV4 else None)"

fun minor_ok :: "zk_spec_id \<Rightarrow> u32 \<Rightarrow> bool" where
  "minor_ok AtlasV1 minor \<longleftrightarrow> minor \<le> 30"
| "minor_ok AtlasV2 minor \<longleftrightarrow> minor \<le> 30"
| "minor_ok AtlasV3 minor \<longleftrightarrow> minor = 31 \<or> minor = 32"
| "minor_ok AtlasV4 minor \<longleftrightarrow> ATLAS_V4_MIN_PROTOCOL_MINOR \<le> minor \<and> minor < ATLAS_V5_MIN_PROTOCOL_MINOR"
| "minor_ok AtlasV5 minor \<longleftrightarrow> ATLAS_V5_MIN_PROTOCOL_MINOR \<le> minor"

definition resolve_spec_and_validate :: "'a spec_crate_scheme \<Rightarrow> batch_input \<Rightarrow> (panic, zk_spec_id) result" where
  "resolve_spec_and_validate sc inp =
     rbind (ensure (in_version inp \<in> set SUPPORTED_BATCH_INPUT_VERSIONS) (ExecutorPanic WireVersionUnsupported)) (\<lambda>_.
     rbind (case newest_spec_of_version (in_version inp) of
              Some newest \<Rightarrow> ensure (in_spec_id inp \<le> sc_as_u8 sc newest) (ExecutorPanic SpecTooNewForWire)
            | None \<Rightarrow> Ok ()) (\<lambda>_.
     rbind (ok_or (zk_spec_id (in_spec_id inp)) (ExecutorPanic UnknownSpecId)) (\<lambda>spec_id.
     rbind (ensure (minor_ok spec_id (in_protocol_version_minor inp)) (ExecutorPanic SpecMinorInconsistent)) (\<lambda>_.
     let meta = in_batch_meta inp
     in rbind (ensure (sc_is_enabled_in sc AtlasV5 spec_id \<or>
                 \<not> (bm_l1_tx_filtering_enabled meta \<or> bm_large_contracts_enabled meta))
                 (ExecutorPanic ChainConfigFlagTooEarly)) (\<lambda>_.
        rbind (validate_block_sequence sc inp spec_id) (\<lambda>_. Ok spec_id))))))"

section \<open>The block-hash ring\<close>

definition verify_intra_batch_hashes :: "block_input \<Rightarrow> (u64 \<rightharpoonup> b256) \<Rightarrow> (panic, unit) result" where
  "verify_intra_batch_hashes block computed =
     checkR (\<lambda>(num, hash). case computed num of
         Some expected \<Rightarrow> ensure (hash = expected) (ExecutorPanic IntraBatchHashMismatch)
       | None \<Rightarrow> Ok ()) (bi_block_hashes block)"

definition reconstruct_ring :: "u64 \<Rightarrow> (u64 \<times> b256) list \<Rightarrow> b256 list" where
  "reconstruct_ring owner hashes =
     fold (\<lambda>(num, hash) ring.
       if num < owner \<and> owner - num \<le> 256 then ring[unat (num + 256 - owner) := hash] else ring)
       hashes (replicate 256 0)"

definition verify_block_hashes_blake_before ::
  "crypto \<Rightarrow> batch_meta \<Rightarrow> block_input \<Rightarrow> (panic, b256 list) result" where
  "verify_block_hashes_blake_before c meta first_block =
     (let ring = reconstruct_ring (bi_number first_block) (bi_block_hashes first_block);
          reconstructed = block_hashes_blake c (take 255 ring) (ring ! 255)
      in rbind (ensure (reconstructed = bm_block_hashes_blake_before meta) (ExecutorPanic RingNotAuthenticated))
           (\<lambda>_. Ok ring))"

definition after_slot ::
  "u64 \<Rightarrow> u64 \<Rightarrow> b256 list \<Rightarrow> (u64 \<rightharpoonup> b256) \<Rightarrow> nat \<Rightarrow> (panic, b256) result" where
  "after_slot f l before_ring computed p =
     (let m = uint l - 255 + int p
      in if m < 0 then Ok 0
         else let n = (word_of_int m :: u64)
              in if f \<le> n \<and> n \<le> l - 1 then ok_or (computed n) (ExecutorPanic IntraBatchHashMissing)
                 else if n < f then
                   (let before_idx = uint n + 256 - uint f
                    in if 0 \<le> before_idx \<and> before_idx < 256 then Ok (before_ring ! nat before_idx) else Ok 0)
                 else Ok 0)"

definition reconstruct_block_hashes_blake_after ::
  "crypto \<Rightarrow> u64 \<Rightarrow> u64 \<Rightarrow> b256 list \<Rightarrow> (u64 \<rightharpoonup> b256) \<Rightarrow> b256 \<Rightarrow> (panic, b256) result" where
  "reconstruct_block_hashes_blake_after c first_block_number last_block_number before_ring computed computed_last_header =
     rbind (mapR (after_slot first_block_number last_block_number before_ring computed) [0..<255]) (\<lambda>after.
     Ok (block_hashes_blake c after computed_last_header))"

section \<open>The blocks of a batch\<close>

record batch_loop =
  lp_cache :: cache_db
  lp_block_results :: "block_result list"
  lp_computed_block_hashes :: "u64 \<rightharpoonup> b256"
  lp_storage_writes :: "slot_write list"
  lp_destroyed_accounts :: "address list"
  lp_deployed_accounts :: "address list"

definition run_block ::
  "crypto \<Rightarrow> ('al, 'au, 'tx) tx_crates \<Rightarrow> ('evm, 'tx, 'log) revm \<Rightarrow> u64 \<Rightarrow> zk_spec_id \<Rightarrow> u64 option \<Rightarrow> bool \<Rightarrow>
   block_input \<Rightarrow> batch_loop \<Rightarrow> (panic, batch_loop) result" where
  "run_block c cr rv chain_id spec_id max_tx_gas_limit large_contracts_enabled block st =
     rbind (verify_intra_batch_hashes block (lp_computed_block_hashes st)) (\<lambda>_.
     rbind (execute_block_proven c cr rv chain_id spec_id block max_tx_gas_limit large_contracts_enabled
              (lp_cache st)) (\<lambda>((res, effects), cache).
     let hash = br_computed_block_header_hash res
     in Ok \<lparr>lp_cache = cache\<lparr>cd_db := insert_block_hash (bi_number block) hash (cd_db cache)\<rparr>,
            lp_block_results = lp_block_results st @ [res],
            lp_computed_block_hashes = (lp_computed_block_hashes st)(bi_number block \<mapsto> hash),
            lp_storage_writes =
              fold (\<lambda>(k, v). AList.update k v) (se_storage_writes effects) (lp_storage_writes st),
            lp_destroyed_accounts = fold List.insert (se_destroyed_accounts effects) (lp_destroyed_accounts st),
            lp_deployed_accounts = fold List.insert (se_deployed_accounts effects) (lp_deployed_accounts st)\<rparr>))"

definition initial_loop :: "cache_db \<Rightarrow> batch_loop" where
  "initial_loop cache =
     \<lparr>lp_cache = cache, lp_block_results = [], lp_computed_block_hashes = Map.empty, lp_storage_writes = [],
      lp_destroyed_accounts = [], lp_deployed_accounts = []\<rparr>"

definition new_cache_db :: "proven_db \<Rightarrow> cache_db" where
  "new_cache_db db = \<lparr>cd_db = db, cd_accounts = []\<rparr>"

section \<open>Counting and authenticating transactions\<close>

record tx_counts =
  ct_l1_tx_hashes :: "b256 list"
  ct_num_l1_txs :: u64
  ct_num_l2_txs :: u64
  ct_num_upgrade_txs :: u64
  ct_interop_roots_rolling_hash :: b256

fun count_auth :: "crypto \<Rightarrow> interop_import_abi \<Rightarrow> b256 \<Rightarrow> tx_auth \<Rightarrow> tx_counts \<Rightarrow> (panic, tx_counts) result" where
  "count_auth c abi upgrade_tx_hash (L1 tx_hash _) ct =
     Ok (ct\<lparr>ct_l1_tx_hashes := ct_l1_tx_hashes ct @ [tx_hash], ct_num_l1_txs := ct_num_l1_txs ct + 1\<rparr>)"
| "count_auth c abi upgrade_tx_hash (Upgrade tx_hash _) ct =
     rbind (ensure (tx_hash = upgrade_tx_hash) (ExecutorPanic UpgradeHashMismatch)) (\<lambda>_.
     Ok (ct\<lparr>ct_num_upgrade_txs := ct_num_upgrade_txs ct + 1\<rparr>))"
| "count_auth c abi upgrade_tx_hash (L2 _) ct = Ok (ct\<lparr>ct_num_l2_txs := ct_num_l2_txs ct + 1\<rparr>)"
| "count_auth c abi upgrade_tx_hash (System tx_hash encoded) ct =
     rbind (fold_system_tx_interop_roots c tx_hash encoded abi (ct_interop_roots_rolling_hash ct)) (\<lambda>rolling.
     Ok (ct\<lparr>ct_num_l2_txs := ct_num_l2_txs ct + 1, ct_interop_roots_rolling_hash := rolling\<rparr>))"

definition count_transactions ::
  "crypto \<Rightarrow> interop_import_abi \<Rightarrow> b256 \<Rightarrow> block_input list \<Rightarrow> (panic, tx_counts) result" where
  "count_transactions c abi upgrade_tx_hash blocks =
     rbind (foldR (\<lambda>block. foldR (\<lambda>tx. count_auth c abi upgrade_tx_hash (ti_auth tx)) (bi_transactions block)) blocks
              \<lparr>ct_l1_tx_hashes = [], ct_num_l1_txs = 0, ct_num_l2_txs = 0, ct_num_upgrade_txs = 0,
               ct_interop_roots_rolling_hash = 0\<rparr>) (\<lambda>ct.
     rbind (ensure (ct_num_upgrade_txs ct \<le> 1) (ExecutorPanic TooManyUpgradeTxs)) (\<lambda>_.
     rbind (ensure ((ct_num_upgrade_txs ct = 1) = (upgrade_tx_hash \<noteq> 0)) (ExecutorPanic UpgradeHashInconsistent)) (\<lambda>_.
     Ok ct)))"

section \<open>Interop and data availability\<close>

definition derive_interop ::
  "crypto \<Rightarrow> 'a spec_crate_scheme \<Rightarrow> zk_spec_id \<Rightarrow> batch_meta \<Rightarrow> b256 \<Rightarrow> (panic, derived_interop_values) result" where
  "derive_interop c sc spec_id meta tree_root_after =
     (if sc_is_enabled_in sc AtlasV3 spec_id then
        rbind (ok_or (bm_interop_proofs meta) (ExecutorPanic InteropProofsMissing)) (\<lambda>proofs.
        rbind (derive_multichain_root c proofs tree_root_after) (\<lambda>multichain_root.
        rbind (derive_sl_chain_id c (isp_sl_chain_id proofs) tree_root_after) (\<lambda>sl_chain_id.
        rbind (if sc_is_enabled_in sc AtlasV4 spec_id then
                 rbind (ok_or (isp_commitment_tree proofs) (ExecutorPanic CommitmentTreeProofsMissing)) (\<lambda>tree_proofs.
                 rbind (derive_interop_commitment_tree_roots c tree_proofs (bm_tree_root_before meta) tree_root_after)
                   (\<lambda>roots. Ok (Some roots)))
               else Ok None) (\<lambda>roots.
        Ok \<lparr>div_multichain_root = multichain_root, div_sl_chain_id = sl_chain_id,
            div_commitment_tree_roots = roots\<rparr>))))
      else Ok \<lparr>div_multichain_root = 0, div_sl_chain_id = bm_sl_chain_id meta, div_commitment_tree_roots = None\<rparr>)"

definition logs_root_hash ::
  "crypto \<Rightarrow> 'a spec_crate_scheme \<Rightarrow> zk_spec_id \<Rightarrow> bytes list \<Rightarrow> derived_interop_values \<Rightarrow> (panic, b256) result" where
  "logs_root_hash c sc spec_id encoded_logs derived =
     rbind (l2_to_l1_logs_root c encoded_logs) (\<lambda>local_root.
     let layout = (if sc_is_enabled_in sc AtlasV4 spec_id then HeightThreeMerkle else TwoPreimageKeccak);
         roots = (case div_commitment_tree_roots derived of Some r \<Rightarrow> r | None \<Rightarrow> \<lparr>ctr_begin = 0, ctr_end = 0\<rparr>)
     in chain_batch_root c layout local_root (div_multichain_root derived) (ctr_begin roots) (ctr_end roots))"

definition committed_pubdata ::
  "'a spec_crate_scheme \<Rightarrow> zk_spec_id \<Rightarrow> batch_meta \<Rightarrow> bytes list list \<Rightarrow> bytes" where
  "committed_pubdata sc spec_id meta logs_by_block =
     (if sc_is_enabled_in sc AtlasV4 spec_id \<and> bm_pubdata_content meta = PUBDATA_CONTENT_LOGS_ONLY
      then logs_only_pubdata logs_by_block else bm_pubdata meta)"

definition da_commitment :: "crypto \<Rightarrow> batch_meta \<Rightarrow> bytes \<Rightarrow> (panic, b256) result" where
  "da_commitment c meta pubdata =
     (let scheme = bm_da_commitment_scheme meta
      in if scheme = 0 \<or> scheme = 1 then Ok 0
         else if scheme = 2 \<or> scheme = 3 then Ok (da_commitment_calldata c pubdata)
         else if scheme = 4 then Ok (da_commitment_blobs c (bm_blob_versioned_hashes meta))
         else Err (ExecutorPanic UnsupportedDaScheme))"

fun batch_output_layout_of :: "zk_spec_id \<Rightarrow> batch_output_layout" where
  "batch_output_layout_of AtlasV1 = BO_V30"
| "batch_output_layout_of AtlasV2 = BO_V30"
| "batch_output_layout_of AtlasV3 = BO_V31"
| "batch_output_layout_of AtlasV4 = BO_AtlasV4"
| "batch_output_layout_of AtlasV5 = BO_AtlasV4"

fun chain_config_layout_of :: "zk_spec_id \<Rightarrow> chain_config_layout option" where
  "chain_config_layout_of AtlasV1 = None"
| "chain_config_layout_of AtlasV2 = None"
| "chain_config_layout_of AtlasV3 = None"
| "chain_config_layout_of AtlasV4 = Some CC_AtlasV4"
| "chain_config_layout_of AtlasV5 = Some CC_AtlasV5"

section \<open>Executing and committing\<close>

record batch_commitment =
  bc_output :: batch_output
  bc_commitment :: b256
  bc_state_before :: b256
  bc_state_after :: b256
  bc_batch_hash :: b256

text \<open>
  The first half of \<open>run_execution_and_commit\<close>: the authenticated ring, the blocks, and the tree
  update against the write map they leave.
\<close>

definition run_blocks ::
  "crypto \<Rightarrow> ('al, 'au, 'tx) tx_crates \<Rightarrow> ('evm, 'tx, 'log) revm \<Rightarrow> batch_input \<Rightarrow> zk_spec_id \<Rightarrow> proven_db \<Rightarrow>
   b256 list \<Rightarrow> (panic, batch_loop) result" where
  "run_blocks c cr rv inp spec_id db before_ring =
     (let meta = in_batch_meta inp;
          first_block = hd (in_blocks inp);
          cache = new_cache_db db;
          cache = cache\<lparr>cd_db := set_block_hashes (pre_batch_block_hashes before_ring (bi_number first_block)) (cd_db cache)\<rparr>;
          max_tx_gas_limit = (if sc_is_enabled_in rv AtlasV4 spec_id then Some (bm_max_tx_gas_limit meta) else None)
      in foldR (run_block c cr rv (in_chain_id inp) spec_id max_tx_gas_limit (bm_large_contracts_enabled meta))
           (in_blocks inp) (initial_loop cache))"

definition verify_post_state :: "crypto \<Rightarrow> batch_meta \<Rightarrow> batch_loop \<Rightarrow> (panic, b256 \<times> u64) result" where
  "verify_post_state c meta lp =
     rbind (build_revm_write_map c (lp_storage_writes lp) (lp_destroyed_accounts lp) (lp_deployed_accounts lp)
              (lp_cache lp) (bm_account_preimages_after meta) (bm_upgrade_tx_hash meta \<noteq> 0)) (\<lambda>revm_writes.
     verify_tree_update c meta revm_writes)"

definition run_execution_and_commit ::
  "crypto \<Rightarrow> ('al, 'au, 'tx) tx_crates \<Rightarrow> ('evm, 'tx, 'log) revm \<Rightarrow> batch_input \<Rightarrow> zk_spec_id \<Rightarrow> proven_db \<Rightarrow>
   (panic, batch_commitment) result" where
  "run_execution_and_commit c cr rv inp spec_id db =
     (let meta = in_batch_meta inp;
          first_block = hd (in_blocks inp);
          last_block = last (in_blocks inp)
      in rbind (verify_block_hashes_blake_before c meta first_block) (\<lambda>before_ring.
         rbind (run_blocks c cr rv inp spec_id db before_ring) (\<lambda>lp.
         let output = \<lparr>bo_chain_id = in_chain_id inp, bo_block_results = lp_block_results lp\<rparr>
         in rbind (verify_post_state c meta lp) (\<lambda>(tree_root_after, new_leaf_count).
            let state_before = state_commitment_hash c (bm_tree_root_before meta) (bm_leaf_count_before meta)
                  (bm_block_number_before meta) (bm_block_hashes_blake_before meta) (bm_last_block_timestamp_before meta)
            in rbind (reconstruct_block_hashes_blake_after c (bi_number first_block) (bi_number last_block) before_ring
                  (lp_computed_block_hashes lp)
                  (br_computed_block_header_hash (last (bo_block_results output)))) (\<lambda>hashes_blake_after.
            let state_after = state_commitment_hash c tree_root_after new_leaf_count (bi_number last_block)
                  hashes_blake_after (bi_timestamp last_block);
                import_abi = (if sc_is_enabled_in rv AtlasV4 spec_id then WithTimestamp else WithoutTimestamp)
            in rbind (count_transactions c import_abi (bm_upgrade_tx_hash meta) (in_blocks inp)) (\<lambda>ct.
            let logs_by_block = map (\<lambda>br. map log_encode (br_l2_to_l1_logs br)) (bo_block_results output);
                encoded_logs = concat logs_by_block
            in rbind (derive_interop c rv spec_id meta tree_root_after) (\<lambda>derived.
               let priority_ops_hash = priority_ops_rolling_hash c (ct_l1_tx_hashes ct)
               in rbind (logs_root_hash c rv spec_id encoded_logs derived) (\<lambda>l2_logs_root_hash.
                  rbind (da_commitment c meta (committed_pubdata rv spec_id meta logs_by_block)) (\<lambda>da.
                  let batch_hash = batch_output_hash_native c (batch_output_layout_of spec_id)
                        \<lparr>oa_chain_id = in_chain_id inp,
                         oa_first_block_timestamp = bi_timestamp first_block,
                         oa_last_block_timestamp = bi_timestamp last_block,
                         oa_da_commitment_scheme = bm_da_commitment_scheme meta,
                         oa_da_commitment = da,
                         oa_number_of_layer1_txs = ct_num_l1_txs ct,
                         oa_number_of_layer2_txs = ct_num_l2_txs ct,
                         oa_priority_operations_hash = priority_ops_hash,
                         oa_l2_to_l1_logs_root_hash = l2_logs_root_hash,
                         oa_upgrade_tx_hash = bm_upgrade_tx_hash meta,
                         oa_interop_roots_rolling_hash = ct_interop_roots_rolling_hash ct,
                         oa_settlement_layer_chain_id = div_sl_chain_id derived\<rparr>;
                      config_hash = map_option (\<lambda>layout. chain_config_hash c layout (chain_config_of_batch inp))
                        (chain_config_layout_of spec_id);
                      commitment = batch_public_input_hash c state_before state_after config_hash batch_hash
                  in Ok \<lparr>bc_output = output, bc_commitment = commitment, bc_state_before = state_before,
                         bc_state_after = state_after, bc_batch_hash = batch_hash\<rparr>)))))))))"

definition execute_and_commit_inner ::
  "crypto \<Rightarrow> ('al, 'au, 'tx) tx_crates \<Rightarrow> ('evm, 'tx, 'log) revm \<Rightarrow> batch_input \<Rightarrow> (panic, batch_commitment) result" where
  "execute_and_commit_inner c cr rv inp =
     rbind (resolve_spec_and_validate rv inp) (\<lambda>spec_id.
     rbind (build_proven_db c inp) (\<lambda>db.
     run_execution_and_commit c cr rv inp spec_id db))"

definition execute_and_commit ::
  "crypto \<Rightarrow> ('al, 'au, 'tx) tx_crates \<Rightarrow> ('evm, 'tx, 'log) revm \<Rightarrow> batch_input \<Rightarrow> (panic, batch_output \<times> b256) result" where
  "execute_and_commit c cr rv inp =
     rbind (execute_and_commit_inner c cr rv inp) (\<lambda>r. Ok (bc_output r, bc_commitment r))"

definition execute_and_commit_from_bincode ::
  "crypto \<Rightarrow> ('al, 'au, 'tx) tx_crates \<Rightarrow> ('evm, 'tx, 'log) revm \<Rightarrow> 'e bincode \<Rightarrow> bytes \<Rightarrow>
   ('e stream_error, batch_output \<times> b256) result" where
  "execute_and_commit_from_bincode c cr rv bc data =
     rbind (map_err WireError (decode_batch_input bc data)) (\<lambda>inp.
     map_err StreamPanic (execute_and_commit c cr rv inp))"

definition execute_and_commit_streaming ::
  "crypto \<Rightarrow> ('al, 'au, 'tx) tx_crates \<Rightarrow> ('evm, 'tx, 'log) revm \<Rightarrow> 'e bincode \<Rightarrow> bytes \<Rightarrow>
   ('e stream_error, batch_output \<times> b256) result" where
  "execute_and_commit_streaming c cr rv bc data =
     rbind (stream_deserialize_and_build_db c bc data) (\<lambda>(inp, db).
     rbind (map_err StreamPanic (resolve_spec_and_validate rv inp)) (\<lambda>spec_id.
     rbind (map_err StreamPanic (run_execution_and_commit c cr rv inp spec_id db)) (\<lambda>r.
     Ok (bc_output r, bc_commitment r))))"

end
