(* ===== verification/Hash_Ring.thy ===== *)
theory Hash_Ring
  imports Batch_Exec
begin

text \<open>
  The block-hash ring of \<open>lib/src/executor/mod.rs\<close> against its specification: a ring is the
  256-entry window of the chain's history that ends below its owner. The witnessed list rebuilds
  the window it lists, a passing commitment check pins the window, the seeded \<open>BLOCKHASH\<close> map serves
  it, and the ring after a batch is the window one past the last block.
\<close>

lemma uint_u64_of_int: "0 \<le> m \<Longrightarrow> m < 2 ^ 64 \<Longrightarrow> uint (word_of_int m :: u64) = m"
  by (subst uint_word_of_int) (intro mod_pos_pos_trivial, auto)

section \<open>The ring as a window of the chain's history\<close>

definition ring_window :: "(int \<Rightarrow> b256) \<Rightarrow> int \<Rightarrow> b256 list" where
  "ring_window hist owner = map (\<lambda>i. hist (owner - 256 + int i)) [0..<256]"

lemma length_ring_window [simp]: "length (ring_window hist owner) = 256"
  by (simp add: ring_window_def)

lemma ring_window_nth: "i < 256 \<Longrightarrow> ring_window hist owner ! i = hist (owner - 256 + int i)"
  by (simp add: ring_window_def)

lemma take_nth_upt: "i < k \<Longrightarrow> k \<le> n \<Longrightarrow> take k (map f [0..<n]) ! i = f i"
  by simp

text \<open>The history a witnessed list claims: the last hash listed for a number.\<close>

definition listed :: "(u64 \<times> b256) list \<Rightarrow> int \<Rightarrow> b256" where
  "listed hashes n =
     (if 0 \<le> n then case map_of (rev hashes) (word_of_int n) of Some h \<Rightarrow> h | None \<Rightarrow> 0 else 0)"

lemma ring_index:
  assumes "(num :: u64) < owner" and "owner - num \<le> 256"
  shows "int (unat (num + 256 - owner)) = uint num + 256 - uint owner"
    and "unat (num + 256 - owner) < 256"
proof -
  have lt: "uint num < uint owner" using assms(1) by (simp add: word_less_def)
  have "uint (owner - num) = uint owner - uint num"
    using assms(1) by (simp add: uint_sub_if' word_less_def)
  then have le: "uint owner - uint num \<le> 256" using assms(2) by (simp add: word_le_def)
  have "uint (num + 256 - owner) = (uint num + 256 - uint owner) mod 2 ^ 64"
    by (simp add: uint_word_ariths mod_simps)
  also have "\<dots> = uint num + 256 - uint owner" using lt le by (intro mod_pos_pos_trivial) auto
  finally have eq: "uint (num + 256 - owner) = uint num + 256 - uint owner" .
  show "int (unat (num + 256 - owner)) = uint num + 256 - uint owner"
    using eq by (simp flip: uint_nat)
  then show "unat (num + 256 - owner) < 256" using lt by linarith
qed

lemma length_reconstruct_ring [simp]: "length (reconstruct_ring owner hashes) = 256"
proof -
  have "length (fold (\<lambda>(num, hash) ring. if num < owner \<and> owner - num \<le> 256
      then ring[unat (num + 256 - owner) := hash] else ring) hashes r) = length r" for r :: "b256 list"
    by (induction hashes arbitrary: r) (auto split: prod.splits)
  then show ?thesis by (simp add: reconstruct_ring_def)
qed

lemma reconstruct_ring_snoc:
  "reconstruct_ring owner (hashes @ [(num, hash)]) =
     (if num < owner \<and> owner - num \<le> 256 then (reconstruct_ring owner hashes)[unat (num + 256 - owner) := hash]
      else reconstruct_ring owner hashes)"
  by (simp add: reconstruct_ring_def)

lemma listed_snoc:
  "listed (hashes @ [(num, hash)]) n = (if 0 \<le> n \<and> word_of_int n = num then hash else listed hashes n)"
  by (simp add: listed_def)

lemma in_window_iff:
  assumes "i < 256"
  shows "num < owner \<and> owner - num \<le> 256 \<and> unat (num + 256 - owner) = i \<longleftrightarrow>
    0 \<le> uint (owner :: u64) - 256 + int i \<and> word_of_int (uint owner - 256 + int i) = num" (is "?L \<longleftrightarrow> ?R")
proof
  assume L: ?L
  then have "int i = uint num + 256 - uint owner" using ring_index(1) by blast
  then show ?R by simp
next
  assume R: ?R
  have "uint owner < 2 ^ 64" using uint_lt2p [of owner] by simp
  then have "uint (word_of_int (uint owner - 256 + int i) :: u64) = uint owner - 256 + int i"
    using R assms by (intro uint_u64_of_int) auto
  then have u: "uint num = uint owner - 256 + int i" using R by simp
  then have lt: "num < owner" using assms by (simp add: word_less_def)
  then have "uint (owner - num) = uint owner - uint num" by (simp add: uint_sub_if' word_less_def)
  then have le: "owner - num \<le> 256" using u by (simp add: word_le_def)
  have "int (unat (num + 256 - owner)) = int i" using ring_index(1) [OF lt le] u by linarith
  then show ?L using lt le by (simp only: of_nat_eq_iff simp_thms)
qed

lemma reconstruct_ring_window: "reconstruct_ring owner hashes = ring_window (listed hashes) (uint owner)"
proof (induction hashes rule: rev_induct)
  case Nil
  show ?case by (rule nth_equalityI) (simp_all add: reconstruct_ring_def ring_window_nth listed_def)
next
  case (snoc x hashes)
  obtain num hash where x: "x = (num, hash)" by fastforce
  show ?case
  proof (rule nth_equalityI)
    fix i assume "i < length (reconstruct_ring owner (hashes @ [x]))"
    then have i: "i < 256" by simp
    have "reconstruct_ring owner (hashes @ [x]) ! i =
        (if num < owner \<and> owner - num \<le> 256 \<and> unat (num + 256 - owner) = i then hash
         else listed hashes (uint owner - 256 + int i))"
      using i by (simp add: x reconstruct_ring_snoc snoc.IH nth_list_update ring_window_nth)
    then show "reconstruct_ring owner (hashes @ [x]) ! i = ring_window (listed (hashes @ [x])) (uint owner) ! i"
      unfolding in_window_iff [OF i] by (simp add: x listed_snoc ring_window_nth i)
  qed simp
qed


text \<open>The ring a passing check returns is the window its commitment was made from.\<close>

definition ring_commitment :: "crypto \<Rightarrow> b256 list \<Rightarrow> b256" where
  "ring_commitment c ring = block_hashes_blake c (take 255 ring) (ring ! 255)"

definition ring_bytes :: "b256 list \<Rightarrow> bytes" where
  "ring_bytes ring = ring_preimage (take 255 ring) (ring ! 255)"

lemma ring_bytes_inject:
  assumes "length r = 256" and "length r' = 256" and "ring_bytes r = ring_bytes r'"
  shows "r = r'"
proof -
  have split: "s = take 255 s @ [s ! 255]" if "length s = 256" for s :: "b256 list"
  proof -
    have "take (Suc 255) s = take 255 s @ [s ! 255]" by (rule take_Suc_conv_app_nth) (simp add: that)
    moreover have "take (Suc 255) s = s" by (rule take_all) (simp add: that)
    ultimately show ?thesis by (simp only:)
  qed
  have "take 255 r = take 255 r'" "r ! 255 = r' ! 255"
    using assms(3) unfolding ring_bytes_def ring_preimage_inject by blast+
  then show ?thesis by (subst split [OF assms(1)], subst split [OF assms(2)]) (simp only:)
qed

lemma ring_authenticated:
  assumes "verify_block_hashes_blake_before c meta block = Ok ring"
    and "bm_block_hashes_blake_before meta = ring_commitment c (ring_window hist (uint (bi_number block)))"
    and "inj_on (cr_blake2s c) {ring_bytes ring, ring_bytes (ring_window hist (uint (bi_number block)))}"
  shows "ring = ring_window hist (uint (bi_number block))"
proof (rule ring_bytes_inject)
  have r: "ring = reconstruct_ring (bi_number block) (bi_block_hashes block)"
    and "ring_commitment c ring = bm_block_hashes_blake_before meta"
    using assms(1) by (auto simp: verify_block_hashes_blake_before_def Let_def ring_commitment_def)
  then show "ring_bytes ring = ring_bytes (ring_window hist (uint (bi_number block)))"
    using assms(2) by (intro inj_onD [OF assms(3)])
      (simp_all only: ring_commitment_def block_hashes_blake_def ring_bytes_def insertI1 insertI2 insert_iff simp_thms)
  show "length ring = 256" by (simp add: r)
qed simp

lemma after_slot_window:
  assumes ring: "before_ring = ring_window hist (uint f)" and fl: "f \<le> l" and p: "p < 255"
    and comp: "\<And>n. f \<le> n \<Longrightarrow> n < l \<Longrightarrow> computed n = Some (hist (uint n))"
    and pre: "\<And>n. n < 0 \<Longrightarrow> hist n = 0"
  shows "after_slot f l before_ring computed p = Ok (hist (uint l - 255 + int p))"
proof -
  let ?m = "uint l - 255 + int p"
  show ?thesis
  proof (cases "?m < 0")
    case True
    then show ?thesis by (simp add: after_slot_def pre)
  next
    case False
    define n :: u64 where "n = word_of_int ?m"
    have "uint l < 2 ^ 64" using uint_lt2p [of l] by simp
    then have u: "uint n = ?m"
      unfolding n_def using False p by (intro uint_u64_of_int) auto
    have l1: "n < l" using u p by (simp add: word_less_def)
    then have "1 \<le> uint l" using u False p by linarith
    then have "uint (l - 1) = uint l - 1" by (simp add: uint_sub_if')
    then have le: "n \<le> l - 1" using u p by (simp add: word_le_def)
    show ?thesis
    proof (cases "f \<le> n")
      case True
      then show ?thesis unfolding after_slot_def Let_def n_def [symmetric]
        using False le comp [OF True l1] by (simp add: u)
    next
      case lt: False
      then have "uint f > ?m" using u by (simp add: word_le_def)
      moreover have "uint f \<le> uint l" using fl by (simp add: word_le_def)
      moreover have "n < f" using lt by simp
      ultimately show ?thesis unfolding after_slot_def Let_def n_def [symmetric]
        using False p by (simp add: u lt ring ring_window_nth) (simp add: algebra_simps)
    qed
  qed
qed

lemma ring_after_window:
  assumes "before_ring = ring_window hist (uint f)" and "f \<le> l"
    and "\<And>n. f \<le> n \<Longrightarrow> n < l \<Longrightarrow> computed n = Some (hist (uint n))"
    and "\<And>n. n < 0 \<Longrightarrow> hist n = 0" and "computed_last = hist (uint l)"
  shows "reconstruct_block_hashes_blake_after c f l before_ring computed computed_last =
    Ok (ring_commitment c (ring_window hist (uint l + 1)))"
proof -
  have "mapR (after_slot f l before_ring computed) [0..<255] = Ok (map (\<lambda>p. hist (uint l - 255 + int p)) [0..<255])"
    by (rule mapR_Ok_map) (use after_slot_window [OF assms(1,2) _ assms(3,4)] in simp)
  moreover have "take 255 (ring_window hist (uint l + 1)) = map (\<lambda>p. hist (uint l - 255 + int p)) [0..<255]"
    by (simp add: ring_window_def take_map algebra_simps)
  ultimately show ?thesis
    by (simp add: reconstruct_block_hashes_blake_after_def ring_commitment_def ring_window_nth assms(5) algebra_simps)
qed

section \<open>The seeded block-hash map\<close>

lemma pre_batch_snoc:
  "pre_batch_block_hashes (ring @ [h]) f =
     (if 0 \<le> uint f - 256 + int (length ring) \<and> h \<noteq> 0
      then (pre_batch_block_hashes ring f)(word_of_int (uint f - 256 + int (length ring)) \<mapsto> h)
      else pre_batch_block_hashes ring f)"
  by (simp only: pre_batch_block_hashes_def enumerate_append_eq fold_append Let_def) simp

lemma pre_batch_lookup:
  assumes "length ring \<le> 256"
  shows "pre_batch_block_hashes ring f n =
    (if 0 \<le> uint n + 256 - uint f \<and> uint n + 256 - uint f < int (length ring) \<and>
        ring ! nat (uint n + 256 - uint f) \<noteq> 0
     then Some (ring ! nat (uint n + 256 - uint f)) else None)"
  using assms
proof (induction ring rule: rev_induct)
  case Nil
  show ?case by (simp add: pre_batch_block_hashes_def)
next
  case (snoc h ring)
  define m where "m = uint f - 256 + int (length ring)"
  have "uint f < 2 ^ 64" using uint_lt2p [of f] by simp
  then have key: "(n = word_of_int m) = (uint n = m)" if "0 \<le> m"
  proof -
    have "uint (word_of_int m :: u64) = m"
      using that snoc.prems \<open>uint f < 2 ^ 64\<close> by (intro uint_u64_of_int) (auto simp: m_def)
    then show ?thesis by (metis word_of_int_uint)
  qed
  define d where "d = uint n + 256 - uint f"
  have dm: "uint n = m \<longleftrightarrow> d = int (length ring)" by (auto simp: d_def m_def)
  have "length ring \<le> 256" using snoc.prems by simp
  note IH = snoc.IH [OF this, folded d_def]
  show ?case unfolding pre_batch_snoc m_def [symmetric] d_def [symmetric]
  proof (cases "d = int (length ring)")
    case True
    then have "uint n = m" "0 \<le> m" using dm by auto
    then show "(if 0 \<le> m \<and> h \<noteq> 0 then (pre_batch_block_hashes ring f)(word_of_int m \<mapsto> h)
        else pre_batch_block_hashes ring f) n = (if 0 \<le> d \<and> d < int (length (ring @ [h])) \<and> (ring @ [h]) ! nat d \<noteq> 0
        then Some ((ring @ [h]) ! nat d) else None)"
      using key True IH by simp
  next
    case False
    then have "uint n \<noteq> m" using dm by simp
    then have "(if 0 \<le> m \<and> h \<noteq> 0 then (pre_batch_block_hashes ring f)(word_of_int m \<mapsto> h)
        else pre_batch_block_hashes ring f) n = pre_batch_block_hashes ring f n"
      using key by simp
    moreover have "d < int (length (ring @ [h])) \<longleftrightarrow> d < int (length ring)" using False by auto
    moreover have "(ring @ [h]) ! nat d = ring ! nat d" if "0 \<le> d" "d < int (length ring)"
      using that by (simp add: nth_append nat_less_iff)
    ultimately show "(if 0 \<le> m \<and> h \<noteq> 0 then (pre_batch_block_hashes ring f)(word_of_int m \<mapsto> h)
        else pre_batch_block_hashes ring f) n = (if 0 \<le> d \<and> d < int (length (ring @ [h])) \<and> (ring @ [h]) ! nat d \<noteq> 0
        then Some ((ring @ [h]) ! nat d) else None)"
      unfolding IH by auto
  qed
qed

text \<open>What the database answers for a block number, as the code's \<open>unwrap_or\<close> reads it.\<close>

definition served :: "proven_db \<Rightarrow> u64 \<Rightarrow> b256" where
  "served db n = (case pd_block_hashes db n of Some h \<Rightarrow> h | None \<Rightarrow> 0)"

lemma served_seeded:
  assumes "uint f - 256 \<le> uint n" and "uint n < uint f"
  shows "served (set_block_hashes (pre_batch_block_hashes (ring_window hist (uint f)) f) db) n = hist (uint n)"
proof -
  have r: "ring_window hist (uint f) ! nat (uint n + 256 - uint f) = hist (uint n)"
    using assms by (subst ring_window_nth) auto
  have "pre_batch_block_hashes (ring_window hist (uint f)) f n = (if hist (uint n) \<noteq> 0 then Some (hist (uint n)) else None)"
    using assms pre_batch_lookup [of "ring_window hist (uint f)" f n] unfolding r by simp
  then show ?thesis by (simp add: served_def set_block_hashes_def)
qed

end
