(* ===== verification/Batch_Chain.thy ===== *)
theory Batch_Chain
  imports Hash_Ring
begin

text \<open>
  What the validation and the block loop guarantee: consecutive numbers and non-decreasing
  timestamps, a header chain in which every block seals the hash of the block before it, and a ring
  after the batch that extends the ring before it by the computed hashes.
\<close>

section \<open>Validated batches\<close>

lemma validate_block_sequenceD:
  assumes "validate_block_sequence sc inp spec = Ok ()"
  shows "in_blocks inp \<noteq> []"
    and "bi_number (in_blocks inp ! 0) = bm_block_number_before (in_batch_meta inp) + 1"
    and "bm_last_block_timestamp_before (in_batch_meta inp) \<le> bi_timestamp (in_blocks inp ! 0)"
    and "\<And>i. Suc i < length (in_blocks inp) \<Longrightarrow>
      bi_number (in_blocks inp ! Suc i) = bi_number (in_blocks inp ! i) + 1 \<and>
      bi_timestamp (in_blocks inp ! i) \<le> bi_timestamp (in_blocks inp ! Suc i)"
    and "\<And>b. b \<in> set (in_blocks inp) \<Longrightarrow> expected_root_for_block b (in_batch_meta inp) = bm_tree_root_before (in_batch_meta inp)
      \<and> (bi_expected_tree_root b = 0 \<or> bi_expected_tree_root b = bm_tree_root_before (in_batch_meta inp))"
proof -
  let ?b = "in_blocks inp"
  show "in_blocks inp \<noteq> []" "bi_number (?b ! 0) = bm_block_number_before (in_batch_meta inp) + 1"
    "bm_last_block_timestamp_before (in_batch_meta inp) \<le> bi_timestamp (?b ! 0)"
    using assms by (auto simp: validate_block_sequence_def Let_def)
  show "bi_number (?b ! Suc i) = bi_number (?b ! i) + 1 \<and> bi_timestamp (?b ! i) \<le> bi_timestamp (?b ! Suc i)"
    if "Suc i < length ?b" for i
  proof -
    have "(?b ! i, ?b ! Suc i) \<in> set (windows2 ?b)"
      using that by (auto simp: windows2_def set_zip nth_tl intro!: exI [of _ i])
    then show ?thesis using assms by (auto simp: validate_block_sequence_def Let_def)
  qed
  show "expected_root_for_block b (in_batch_meta inp) = bm_tree_root_before (in_batch_meta inp)
      \<and> (bi_expected_tree_root b = 0 \<or> bi_expected_tree_root b = bm_tree_root_before (in_batch_meta inp))" if "b \<in> set ?b" for b
    using assms that by (auto simp: validate_block_sequence_def validate_expected_tree_roots_def Let_def expected_root_for_block_def)
qed

lemma block_numbers:
  assumes "validate_block_sequence sc inp spec = Ok ()" and "i < length (in_blocks inp)"
  shows "bi_number (in_blocks inp ! i) = bm_block_number_before (in_batch_meta inp) + 1 + of_nat i"
  using assms(2)
proof (induction i)
  case 0
  then show ?case using validate_block_sequenceD(2) [OF assms(1)] by simp
next
  case (Suc i)
  then show ?case using validate_block_sequenceD(4) [OF assms(1), of i] by (simp add: algebra_simps)
qed

lemma block_timestamps:
  assumes "validate_block_sequence sc inp spec = Ok ()" and "j < length (in_blocks inp)"
  shows "i \<le> j \<Longrightarrow> bi_timestamp (in_blocks inp ! i) \<le> bi_timestamp (in_blocks inp ! j)"
    and "bm_last_block_timestamp_before (in_batch_meta inp) \<le> bi_timestamp (in_blocks inp ! j)"
proof -
  have mono: "i \<le> j \<Longrightarrow> j < length (in_blocks inp) \<Longrightarrow> bi_timestamp (in_blocks inp ! i) \<le> bi_timestamp (in_blocks inp ! j)" for i j
  proof (induction j)
    case (Suc j)
    then show ?case
      using validate_block_sequenceD(4) [OF assms(1), of j] by (cases "i = Suc j") (auto intro: order_trans)
  qed simp
  then show "i \<le> j \<Longrightarrow> bi_timestamp (in_blocks inp ! i) \<le> bi_timestamp (in_blocks inp ! j)" using assms(2) by blast
  show "bm_last_block_timestamp_before (in_batch_meta inp) \<le> bi_timestamp (in_blocks inp ! j)"
    using mono [OF le0 assms(2)] validate_block_sequenceD(3) [OF assms(1)] by (rule order_trans [rotated])
qed

lemma resolve_validates:
  "resolve_spec_and_validate sc inp = Ok spec \<Longrightarrow> validate_block_sequence sc inp spec = Ok ()"
  by (auto simp: resolve_spec_and_validate_def Let_def split: option.splits)

section \<open>REVM reads the database and does not change it\<close>

text \<open>
  \<open>CacheDB\<close> writes to its own overlay; the database it wraps is only read. No EVM operation
  changes the wrapped database.
\<close>

definition evm_db :: "('evm, 'tx, 'log) revm \<Rightarrow> 'evm \<Rightarrow> proven_db" where
  "evm_db rv e = cd_db (rv_cache_db rv e)"

definition keeps_db :: "('evm, 'tx, 'log) revm \<Rightarrow> bool" where
  "keeps_db rv \<longleftrightarrow>
     (\<forall>cache spec cfg env. evm_db rv (rv_build_zk rv cache spec cfg env) = cd_db cache) \<and>
     (\<forall>n e. evm_db rv (rv_set_tx_number rv n e) = evm_db rv e) \<and>
     (\<forall>tx e. evm_db rv (snd (rv_transact rv tx e)) = evm_db rv e) \<and>
     (\<forall>s e. evm_db rv (rv_commit rv s e) = evm_db rv e) \<and>
     (\<forall>e. evm_db rv (snd (rv_take_l2_to_l1_logs rv e)) = evm_db rv e) \<and>
     (\<forall>a i v cache cache'. rv_insert_account_storage rv a i v cache = Some cache' \<longrightarrow> cd_db cache' = cd_db cache)"

lemma run_tx_keeps_db:
  assumes "keeps_db rv" and "run_tx c cr rv v4 gl cap x st = Ok st'"
  shows "evm_db rv (el_evm st') = evm_db rv (el_evm st)"
proof -
  obtain i inp where x: "x = (i, inp)" by fastforce
  let ?e = "rv_set_tx_number rv (of_nat i) (el_evm st)"
  obtain tx h ty where tx: "build_proven_tx c cr inp gl cap = Ok (tx, h, ty)"
    using assms(2) by (auto simp: run_tx_def x Let_def)
  obtain res state e1 where tr: "rv_transact rv tx ?e = (Some (res, state), e1)"
    using assms(2) by (auto simp: run_tx_def x Let_def tx split: prod.splits option.splits)
  have "el_evm st' = snd (rv_take_l2_to_l1_logs rv (rv_commit rv state e1))"
    using assms(2) by (auto simp: run_tx_def x Let_def tx tr split: prod.splits)
  then have "evm_db rv (el_evm st') = evm_db rv e1" using assms(1) by (simp add: keeps_db_def)
  also have "\<dots> = evm_db rv (snd (rv_transact rv tx ?e))" by (simp add: tr)
  also have "\<dots> = evm_db rv (el_evm st)" using assms(1) by (simp add: keeps_db_def)
  finally show ?thesis .
qed

lemma run_evm_block_keeps_db:
  assumes "keeps_db rv" and "run_evm_block c cr rv cid spec block cap large cache = Ok (exec, cache')"
  shows "cd_db cache' = cd_db cache"
proof -
  let ?e = "rv_build_zk rv cache spec (configure_evm (rv_large_contracts_max_code_size rv) cid spec large
    (rv_default_cfg rv spec)) (block_env_of block)"
  obtain st' where f: "foldR (run_tx c cr rv (sc_is_enabled_in rv AtlasV4 spec) (bi_gas_limit block) cap)
      (enumerate 0 (bi_transactions block)) (initial_evm_loop ?e) = Ok st'"
    and c: "cache' = rv_cache_db rv (el_evm st')"
    using assms(2) by (auto simp: run_evm_block_def Let_def)
  have "evm_db rv (el_evm st') = evm_db rv ?e"
    using f by (rule foldR_invariant [where I = "\<lambda>s. evm_db rv (el_evm s) = evm_db rv ?e"])
      (auto simp: initial_evm_loop_def dest: run_tx_keeps_db [OF assms(1)])
  then show ?thesis using assms(1) by (simp add: c evm_db_def [symmetric] keeps_db_def)
qed

lemma pre_block_write_keeps_db:
  assumes "keeps_db rv" and "apply_pre_block_write c rv n h cache = Ok (w, cache')"
  shows "cd_db cache' = cd_db cache"
  using assms by (auto simp: apply_pre_block_write_def Let_def keeps_db_def split: if_splits)

section \<open>One block\<close>

text \<open>The computed hash is the hash of a header with the block's own fields and the given parent.\<close>

definition seals :: "crypto \<Rightarrow> block_input \<Rightarrow> b256 \<Rightarrow> block_result \<Rightarrow> bool" where
  "seals c block parent res \<longleftrightarrow>
     br_block_number res = bi_number block \<and>
     (\<exists>h. br_computed_block_header_hash res = compute_block_header_hash c h \<and> ha_parent_hash h = parent \<and>
       ha_number h = bi_number block \<and> ha_timestamp h = bi_timestamp block \<and>
       ha_beneficiary h = bi_coinbase block \<and> ha_gas_limit h = bi_gas_limit block \<and>
       ha_gas_used h = sum_list (map to_gas_used (br_tx_results res)) \<and>
       ha_mix_hash h = bi_prev_randao block \<and> ha_base_fee_per_gas h = bi_base_fee block)"

lemma execute_block_parts:
  assumes "execute_block_proven c cr rv cid spec block cap large cache = Ok ((res, effects), cache')"
  obtains w cache1 exec tx_root receipts_root where
    "(if sc_is_enabled_in rv AtlasV4 spec
      then apply_pre_block_write c rv (bi_number block) (parent_hash_of (cd_db cache) (bi_number block)) cache
      else Ok (None, cache)) = Ok (w, cache1)"
    "run_evm_block c cr rv cid spec block cap large cache1 = Ok (exec, cache')"
    "header_roots c rv spec exec = Ok (tx_root, receipts_root)"
    "effects = merge_pre_block_write w (bx_state_effects exec)"
    "res = \<lparr>br_block_number = bi_number block,
      br_computed_block_header_hash = compute_block_header_hash c
        (block_header_args block (parent_hash_of (cd_db cache) (bi_number block)) tx_root receipts_root exec),
      br_tx_results = bx_tx_results exec, br_l2_to_l1_logs = bx_l2_to_l1_logs exec\<rparr>"
    "\<not> sc_is_enabled_in rv AtlasV4 spec \<or> bi_block_header_hash block \<noteq> 0"
    "bi_block_header_hash block = 0 \<or> br_computed_block_header_hash res = bi_block_header_hash block"
  using assms unfolding execute_block_proven_def Let_def
  by (simp split del: if_split add: split_beta) (metis prod.collapse block_result.select_convs(2))

lemma execute_block_seals:
  assumes "execute_block_proven c cr rv cid spec block cap large cache = Ok ((res, effects), cache')"
  shows "seals c block (parent_hash_of (cd_db cache) (bi_number block)) res"
proof -
  obtain w cache1 exec tx_root rr where
    "res = \<lparr>br_block_number = bi_number block,
      br_computed_block_header_hash = compute_block_header_hash c
        (block_header_args block (parent_hash_of (cd_db cache) (bi_number block)) tx_root rr exec),
      br_tx_results = bx_tx_results exec, br_l2_to_l1_logs = bx_l2_to_l1_logs exec\<rparr>"
    using execute_block_parts [OF assms] by metis
  then show ?thesis unfolding seals_def
    by (intro conjI exI [of _ "block_header_args block (parent_hash_of (cd_db cache) (bi_number block)) tx_root rr exec"])
       (simp_all add: block_header_args_def)
qed

lemma execute_block_keeps_db:
  assumes "keeps_db rv" and "execute_block_proven c cr rv cid spec block cap large cache = Ok ((res, effects), cache')"
  shows "cd_db cache' = cd_db cache"
proof -
  obtain w cache1 exec where
    w: "(if sc_is_enabled_in rv AtlasV4 spec
         then apply_pre_block_write c rv (bi_number block) (parent_hash_of (cd_db cache) (bi_number block)) cache
         else Ok (None, cache)) = Ok (w, cache1)"
    and r: "run_evm_block c cr rv cid spec block cap large cache1 = Ok (exec, cache')"
    using execute_block_parts [OF assms(2)] by metis
  have "cd_db cache1 = cd_db cache"
    using w pre_block_write_keeps_db [OF assms(1)] by (auto split: if_splits)
  then show ?thesis using run_evm_block_keeps_db [OF assms(1) r] by simp
qed

section \<open>The loop over the blocks\<close>

abbreviation result_hash :: "block_result \<Rightarrow> b256" where
  "result_hash \<equiv> br_computed_block_header_hash"

lemma run_blocks_results:
  assumes "foldR (run_block c cr rv cid spec cap large) blocks st = Ok st'"
  shows "\<exists>rs. lp_block_results st' = lp_block_results st @ rs \<and> length rs = length blocks \<and>
    map br_block_number rs = map bi_number blocks \<and>
    lp_computed_block_hashes st' =
      lp_computed_block_hashes st ++ map_of (rev (zip (map bi_number blocks) (map result_hash rs)))"
  using assms
proof (induction blocks arbitrary: st)
  case (Cons b blocks)
  then obtain st1 where st1: "run_block c cr rv cid spec cap large b st = Ok st1"
    and rest: "foldR (run_block c cr rv cid spec cap large) blocks st1 = Ok st'" by auto
  obtain res where res: "lp_block_results st1 = lp_block_results st @ [res]" "br_block_number res = bi_number b"
      "lp_computed_block_hashes st1 = (lp_computed_block_hashes st)(bi_number b \<mapsto> result_hash res)"
    using st1 by (fastforce simp: run_block_def Let_def seals_def dest: execute_block_seals)
  obtain rs where "lp_block_results st' = lp_block_results st1 @ rs" "length rs = length blocks"
      "map br_block_number rs = map bi_number blocks"
      "lp_computed_block_hashes st' =
        lp_computed_block_hashes st1 ++ map_of (rev (zip (map bi_number blocks) (map result_hash rs)))"
    using Cons.IH [OF rest] by blast
  then show ?case using res
    by (intro exI [of _ "res # rs"]) (auto simp: map_add_def fun_eq_iff split: option.splits)
qed auto

section \<open>The header chain\<close>

definition extend_history :: "(int \<Rightarrow> b256) \<Rightarrow> int \<Rightarrow> b256 list \<Rightarrow> int \<Rightarrow> b256" where
  "extend_history hist f hs n = (if f \<le> n \<and> n < f + int (length hs) then hs ! nat (n - f) else hist n)"

lemma extend_history_append:
  "n < f + int (length hs) \<Longrightarrow> extend_history hist f (hs @ hs') n = extend_history hist f hs n"
  by (auto simp: extend_history_def nth_append)

lemma extend_history_at:
  "i < length hs \<Longrightarrow> extend_history hist f hs (f + int i) = hs ! i"
  by (simp add: extend_history_def)

lemma extend_history_genesis:
  "0 \<le> f \<Longrightarrow> n < 0 \<Longrightarrow> hist n = 0 \<Longrightarrow> extend_history hist f hs n = 0"
  by (simp add: extend_history_def)

definition serves :: "(int \<Rightarrow> b256) \<Rightarrow> int \<Rightarrow> b256 list \<Rightarrow> proven_db \<Rightarrow> bool" where
  "serves hist f hs db \<longleftrightarrow> (\<forall>m. f - 256 \<le> uint m \<and> uint m < f + int (length hs) \<longrightarrow>
     served db m = extend_history hist f hs (uint m))"

lemma serves_insert:
  assumes "serves hist f hs db" and "uint number = f + int (length hs)"
  shows "serves hist f (hs @ [h]) (insert_block_hash number h db)"
  unfolding serves_def
proof (intro allI impI)
  fix m :: u64 assume m: "f - 256 \<le> uint m \<and> uint m < f + int (length (hs @ [h]))"
  show "served (insert_block_hash number h db) m = extend_history hist f (hs @ [h]) (uint m)"
  proof (cases "m = number")
    case True
    then show ?thesis by (simp add: served_def insert_block_hash_def assms(2) extend_history_def)
  next
    case False
    then have "uint m \<noteq> uint number" by (metis word_of_int_uint)
    then have "uint m < f + int (length hs)" using m assms(2) by simp
    then show ?thesis using m False assms(1)
      by (simp add: served_def insert_block_hash_def serves_def extend_history_append)
  qed
qed

lemma parent_served:
  assumes "serves hist f hs db" and "uint number = f + int (length hs)" and "1 \<le> f"
  shows "parent_hash_of db number = extend_history hist f hs (uint number - 1)"
proof -
  have n: "1 \<le> number" using assms(2,3) by (simp add: word_le_def)
  then have u: "uint (number - 1) = uint number - 1" by (simp add: uint_sub_if' word_le_def)
  then show ?thesis using n assms
    by (simp add: parent_hash_of_def block_hash_ref_def serves_def served_def)
qed

lemma run_blocks_chain:
  assumes "keeps_db rv" and "1 \<le> f"
    and "foldR (run_block c cr rv cid spec cap large) blocks st = Ok st'"
    and "serves hist f (map result_hash (lp_block_results st)) (cd_db (lp_cache st))"
    and "\<And>i. i < length blocks \<Longrightarrow> uint (bi_number (blocks ! i)) = f + int (length (lp_block_results st) + i)"
  shows "\<forall>i < length blocks. seals c (blocks ! i)
    (extend_history hist f (map result_hash (lp_block_results st')) (uint (bi_number (blocks ! i)) - 1))
    (lp_block_results st' ! (length (lp_block_results st) + i))"
  using assms(3-)
proof (induction blocks arbitrary: st)
  case (Cons b blocks)
  let ?rs = "lp_block_results st" and ?hs = "map result_hash (lp_block_results st)"
  obtain st1 where st1: "run_block c cr rv cid spec cap large b st = Ok st1"
    and rest: "foldR (run_block c cr rv cid spec cap large) blocks st1 = Ok st'" using Cons.prems(1) by auto
  obtain res effects cache where ex: "execute_block_proven c cr rv cid spec b cap large (lp_cache st) = Ok ((res, effects), cache)"
    and r1: "lp_block_results st1 = ?rs @ [res]"
    and db1: "cd_db (lp_cache st1) = insert_block_hash (bi_number b) (result_hash res) (cd_db cache)"
    using st1 by (auto simp: run_block_def Let_def)
  have num: "uint (bi_number b) = f + int (length ?rs)" using Cons.prems(3) [of 0] by simp
  have "serves hist f (map result_hash (lp_block_results st1)) (cd_db (lp_cache st1))"
    using serves_insert [OF Cons.prems(2)] num by (simp add: r1 db1 execute_block_keeps_db [OF assms(1) ex])
  note IH = Cons.IH [OF rest this]
  have tail: "\<forall>i < length blocks. seals c (blocks ! i)
      (extend_history hist f (map result_hash (lp_block_results st')) (uint (bi_number (blocks ! i)) - 1))
      (lp_block_results st' ! (length ?rs + Suc i))"
    using IH Cons.prems(3) [of "Suc _"] by (auto simp: r1)
  obtain rs' where r': "lp_block_results st' = ?rs @ [res] @ rs'"
    using run_blocks_results [OF rest] r1 by auto
  have "parent_hash_of (cd_db (lp_cache st)) (bi_number b) = extend_history hist f ?hs (uint (bi_number b) - 1)"
    using parent_served [OF Cons.prems(2) _ assms(2)] num by simp
  also have "\<dots> = extend_history hist f (map result_hash (lp_block_results st')) (uint (bi_number b) - 1)"
    using extend_history_append [of "uint (bi_number b) - 1" f ?hs hist "map result_hash ([res] @ rs')"] num
    by (simp add: r')
  finally have "seals c b (extend_history hist f (map result_hash (lp_block_results st')) (uint (bi_number b) - 1)) res"
    using execute_block_seals [OF ex] by simp
  then have "seals c b (extend_history hist f (map result_hash (lp_block_results st')) (uint (bi_number b) - 1))
      (lp_block_results st' ! length ?rs)"
    by (simp add: r' nth_append)
  then show ?case using tail by (auto simp: less_Suc_eq_0_disj)
qed simp

section \<open>The ring after the batch\<close>

lemma run_blocksD:
  assumes "run_blocks c cr rv inp spec db ring = Ok lp"
  shows "map br_block_number (lp_block_results lp) = map bi_number (in_blocks inp)"
    and "lp_computed_block_hashes lp = map_of (rev (zip (map bi_number (in_blocks inp)) (map result_hash (lp_block_results lp))))"
    and "length (lp_block_results lp) = length (in_blocks inp)"
proof -
  obtain cap large cache where "foldR (run_block c cr rv (in_chain_id inp) spec cap large) (in_blocks inp) (initial_loop cache) = Ok lp"
    using assms unfolding run_blocks_def Let_def by blast
  from run_blocks_results [OF this]
  obtain rs where rs: "lp_block_results lp = rs" "length rs = length (in_blocks inp)"
      "map br_block_number rs = map bi_number (in_blocks inp)"
      "lp_computed_block_hashes lp = map_of (rev (zip (map bi_number (in_blocks inp)) (map result_hash rs)))"
    unfolding initial_loop_def batch_loop.select_convs append_Nil empty_map_add by blast
  then show "map br_block_number (lp_block_results lp) = map bi_number (in_blocks inp)"
    and "lp_computed_block_hashes lp = map_of (rev (zip (map bi_number (in_blocks inp)) (map result_hash (lp_block_results lp))))"
    and "length (lp_block_results lp) = length (in_blocks inp)" by (simp_all only: rs(1))
qed

definition no_number_overflow :: "batch_input \<Rightarrow> bool" where
  "no_number_overflow inp \<longleftrightarrow> unat (bm_block_number_before (in_batch_meta inp)) + length (in_blocks inp) < 2 ^ 64"

lemma block_numbers_uint:
  assumes "validate_block_sequence sc inp spec = Ok ()" and "no_number_overflow inp" and "i < length (in_blocks inp)"
  shows "uint (bi_number (in_blocks inp ! i)) = uint (bm_block_number_before (in_batch_meta inp)) + 1 + int i"
proof -
  let ?b = "bm_block_number_before (in_batch_meta inp)"
  have "uint (word_of_int (uint ?b + 1 + int i) :: u64) = uint ?b + 1 + int i"
  proof (rule uint_u64_of_int)
    have "int (unat ?b) = uint ?b" by simp
    moreover have "int (unat ?b + length (in_blocks inp)) < int (2 ^ 64)"
      using assms(2) unfolding no_number_overflow_def of_nat_less_iff .
    moreover have "int (2 ^ 64) = 2 ^ 64" by simp
    ultimately show "uint ?b + 1 + int i < 2 ^ 64" using assms(3) by linarith
  qed simp
  then show ?thesis using block_numbers [OF assms(1,3)] by simp
qed


lemma first_last_number:
  assumes "validate_block_sequence sc inp spec = Ok ()" and "no_number_overflow inp"
  shows "uint (bi_number (hd (in_blocks inp))) = uint (bm_block_number_before (in_batch_meta inp)) + 1"
    and "uint (bi_number (last (in_blocks inp))) =
      uint (bm_block_number_before (in_batch_meta inp)) + int (length (in_blocks inp))"
proof -
  have ne: "in_blocks inp \<noteq> []" by (rule validate_block_sequenceD(1) [OF assms(1)])
  then show "uint (bi_number (hd (in_blocks inp))) = uint (bm_block_number_before (in_batch_meta inp)) + 1"
    using block_numbers_uint [OF assms, of 0] by (simp add: hd_conv_nth)
  have "1 \<le> length (in_blocks inp)" using ne by (simp add: Suc_le_eq)
  then show "uint (bi_number (last (in_blocks inp))) =
      uint (bm_block_number_before (in_batch_meta inp)) + int (length (in_blocks inp))"
    using block_numbers_uint [OF assms, of "length (in_blocks inp) - 1"] ne by (simp add: last_conv_nth of_nat_diff)
qed

text \<open>The loop starts from the ring's own history and the blocks extend it.\<close>

lemma batch_history:
  assumes keeps: "keeps_db rv" and v: "validate_block_sequence rv inp spec = Ok ()"
    and no: "no_number_overflow inp" and f: "f = bi_number (hd (in_blocks inp))"
    and run: "run_blocks c cr rv inp spec db (ring_window hist (uint f)) = Ok lp"
  shows "\<forall>i < length (in_blocks inp). seals c (in_blocks inp ! i)
    (extend_history hist (uint f) (map result_hash (lp_block_results lp)) (uint f + int i - 1)) (lp_block_results lp ! i)"
proof -
  let ?blocks = "in_blocks inp" and ?before = "bm_block_number_before (in_batch_meta inp)"
  have uf: "uint f = uint ?before + 1" unfolding f by (rule first_last_number(1) [OF v no])
  let ?cache = "\<lparr>cd_db = set_block_hashes (pre_batch_block_hashes (ring_window hist (uint f)) f) db, cd_accounts = []\<rparr>"
  obtain cap large where fold: "foldR (run_block c cr rv (in_chain_id inp) spec cap large) ?blocks (initial_loop ?cache) = Ok lp"
    using run by (auto simp: run_blocks_def Let_def new_cache_db_def f)
  have "serves hist (uint f) (map result_hash (lp_block_results (initial_loop ?cache))) (cd_db (lp_cache (initial_loop ?cache)))"
    by (simp add: initial_loop_def serves_def served_seeded extend_history_def)
  from run_blocks_chain [OF keeps _ fold this]
  have "\<forall>i < length ?blocks. seals c (?blocks ! i)
    (extend_history hist (uint f) (map result_hash (lp_block_results lp)) (uint (bi_number (?blocks ! i)) - 1)) (lp_block_results lp ! i)"
    using block_numbers_uint [OF v no] uf by (simp add: initial_loop_def)
  then show ?thesis using block_numbers_uint [OF v no] uf by (simp add: algebra_simps)
qed

lemma computed_hash:
  assumes v: "validate_block_sequence sc inp spec = Ok ()" and no: "no_number_overflow inp"
    and run: "run_blocks c cr rv inp spec' db ring = Ok lp" and i: "i < length (in_blocks inp)"
  shows "lp_computed_block_hashes lp (bi_number (in_blocks inp ! i)) = Some (result_hash (lp_block_results lp ! i))"
proof -
  let ?ns = "map bi_number (in_blocks inp)" and ?hs = "map result_hash (lp_block_results lp)"
  note r = run_blocksD [OF run]
  have "inj_on (\<lambda>i. bi_number (in_blocks inp ! i)) {..<length (in_blocks inp)}"
    by (rule inj_onI) (metis (no_types, lifting) block_numbers_uint [OF v no] lessThan_iff add_left_cancel of_nat_eq_iff)
  then have d: "distinct ?ns" by (auto simp: distinct_conv_nth inj_on_def)
  have "map_of (rev (zip ?ns ?hs)) = map_of (zip ?ns ?hs)"
    using d r(3) by (subst map_of_inject_set) (simp_all add: rev_map [symmetric])
  moreover have "map_of (zip ?ns ?hs) (?ns ! i) = Some (?hs ! i)"
    using d i r(3) by (intro map_of_zip_nth) simp_all
  ultimately show ?thesis using i r(3) by (simp add: r(2))
qed

lemma ring_window_extend:
  "owner \<le> f \<Longrightarrow> ring_window (extend_history hist f hs) owner = ring_window hist owner"
  by (simp add: ring_window_def extend_history_def)

lemma ring_advances:
  assumes v: "validate_block_sequence sc inp spec = Ok ()" and no: "no_number_overflow inp"
    and run: "run_blocks c cr rv inp spec' db (ring_window hist (uint f)) = Ok lp"
    and f: "f = bi_number (hd (in_blocks inp))" and l: "l = bi_number (last (in_blocks inp))"
    and pre: "\<And>n. n < 0 \<Longrightarrow> hist n = 0"
  shows "reconstruct_block_hashes_blake_after c f l (ring_window hist (uint f)) (lp_computed_block_hashes lp)
      (result_hash (last (lp_block_results lp))) =
    Ok (ring_commitment c (ring_window (extend_history hist (uint f) (map result_hash (lp_block_results lp))) (uint l + 1)))"
proof -
  let ?hs = "map result_hash (lp_block_results lp)" and ?n = "length (in_blocks inp)"
  let ?hist = "extend_history hist (uint f) ?hs"
  have ne: "in_blocks inp \<noteq> []" by (rule validate_block_sequenceD(1) [OF v])
  have len: "length (lp_block_results lp) = ?n" by (rule run_blocksD(3) [OF run])
  have num: "uint (bi_number (in_blocks inp ! i)) = uint f + int i" if "i < ?n" for i
    using block_numbers_uint [OF v no that] first_last_number(1) [OF v no] by (simp add: f)
  have ul: "uint l = uint f + int (?n - 1)" using num [of "?n - 1"] ne by (simp add: l last_conv_nth)
  have comp: "lp_computed_block_hashes lp n = Some (?hist (uint n))" if "f \<le> n" "n < l" for n
  proof -
    define i where "i = nat (uint n - uint f)"
    have "uint f \<le> uint n" "uint n < uint l" using that by (simp_all add: word_le_def word_less_def)
    then have i: "i < ?n" "uint n = uint f + int i" using ul by (auto simp: i_def)
    then have "n = bi_number (in_blocks inp ! i)" using num [OF i(1)] by (metis word_of_int_uint)
    then show ?thesis using computed_hash [OF v no run i(1)] i extend_history_at [of i ?hs hist "uint f"]
      by (simp add: len)
  qed
  have last: "result_hash (last (lp_block_results lp)) = ?hist (uint l)"
  proof -
    have "lp_block_results lp \<noteq> []" using ne len by auto
    then show ?thesis using extend_history_at [of "?n - 1" ?hs hist "uint f"] ne
      by (simp add: ul len last_conv_nth)
  qed
  show ?thesis
  proof (rule ring_after_window [where hist = ?hist, OF _ _ comp _ last])
    show "ring_window hist (uint f) = ring_window ?hist (uint f)" by (simp add: ring_window_extend)
    show "f \<le> l" by (simp add: word_le_def ul)
    show "?hist n = 0" if "n < 0" for n using that pre [OF that] by (simp add: extend_history_genesis)
  qed
qed

end
