(* ===== verification/Batch_Sound.thy ===== *)
theory Batch_Sound
  imports Batch_Chain
begin

text \<open>
  The executor as a whole: what the transaction counters count, the equality of the collecting and
  the streaming entry points, and the refinement of the abstract batch step: a batch that commits
  takes a chain state with the committed hash before it to a chain state with the committed hash
  after it.
\<close>

section \<open>Transaction counters\<close>

definition batch_auths :: "block_input list \<Rightarrow> tx_auth list" where
  "batch_auths blocks = map ti_auth (concat (map bi_transactions blocks))"

definition l1_hashes :: "tx_auth list \<Rightarrow> b256 list" where
  "l1_hashes auths = concat (map (\<lambda>a. case a of L1 h _ \<Rightarrow> [h] | _ \<Rightarrow> []) auths)"

definition l2_count :: "tx_auth list \<Rightarrow> nat" where
  "l2_count auths = length (filter (\<lambda>a. case a of L2 _ \<Rightarrow> True | System _ _ \<Rightarrow> True | _ \<Rightarrow> False) auths)"

definition upgrade_hashes :: "tx_auth list \<Rightarrow> b256 list" where
  "upgrade_hashes auths = concat (map (\<lambda>a. case a of Upgrade h _ \<Rightarrow> [h] | _ \<Rightarrow> []) auths)"

lemma count_auths:
  assumes "foldR (count_auth c abi up) auths ct = Ok ct'"
  shows "ct_l1_tx_hashes ct' = ct_l1_tx_hashes ct @ l1_hashes auths"
    and "ct_num_l1_txs ct' = ct_num_l1_txs ct + of_nat (length (l1_hashes auths))"
    and "ct_num_l2_txs ct' = ct_num_l2_txs ct + of_nat (l2_count auths)"
    and "ct_num_upgrade_txs ct' = ct_num_upgrade_txs ct + of_nat (length (upgrade_hashes auths))"
    and "set (upgrade_hashes auths) \<subseteq> {up}"
proof -
  have "ct_l1_tx_hashes ct' = ct_l1_tx_hashes ct @ l1_hashes auths \<and>
    ct_num_l1_txs ct' = ct_num_l1_txs ct + of_nat (length (l1_hashes auths)) \<and>
    ct_num_l2_txs ct' = ct_num_l2_txs ct + of_nat (l2_count auths) \<and>
    ct_num_upgrade_txs ct' = ct_num_upgrade_txs ct + of_nat (length (upgrade_hashes auths)) \<and>
    set (upgrade_hashes auths) \<subseteq> {up}"
    using assms
  proof (induction auths arbitrary: ct)
    case Nil
    then show ?case by (simp add: l1_hashes_def l2_count_def upgrade_hashes_def)
  next
    case (Cons a auths)
    then obtain ct1 where "count_auth c abi up a ct = Ok ct1" "foldR (count_auth c abi up) auths ct1 = Ok ct'" by auto
    then show ?case using Cons.IH [of ct1]
      by (cases a) (auto simp: l1_hashes_def l2_count_def upgrade_hashes_def algebra_simps)
  qed
  then show "ct_l1_tx_hashes ct' = ct_l1_tx_hashes ct @ l1_hashes auths"
    "ct_num_l1_txs ct' = ct_num_l1_txs ct + of_nat (length (l1_hashes auths))"
    "ct_num_l2_txs ct' = ct_num_l2_txs ct + of_nat (l2_count auths)"
    "ct_num_upgrade_txs ct' = ct_num_upgrade_txs ct + of_nat (length (upgrade_hashes auths))"
    "set (upgrade_hashes auths) \<subseteq> {up}" by blast+
qed

lemma count_transactionsD:
  assumes "count_transactions c abi up blocks = Ok ct" and "length (batch_auths blocks) < 2 ^ 64"
  shows "ct_l1_tx_hashes ct = l1_hashes (batch_auths blocks)"
    and "unat (ct_num_l1_txs ct) = length (l1_hashes (batch_auths blocks))"
    and "unat (ct_num_l2_txs ct) = l2_count (batch_auths blocks)"
    and "upgrade_hashes (batch_auths blocks) = (if up = 0 then [] else [up])"
proof -
  let ?a = "batch_auths blocks"
  obtain ct0 where f: "foldR (count_auth c abi up) ?a
      \<lparr>ct_l1_tx_hashes = [], ct_num_l1_txs = 0, ct_num_l2_txs = 0, ct_num_upgrade_txs = 0,
       ct_interop_roots_rolling_hash = 0\<rparr> = Ok ct"
    and le: "ct_num_upgrade_txs ct \<le> 1" and iff: "(ct_num_upgrade_txs ct = 1) = (up \<noteq> 0)"
    using assms(1) by (auto simp: count_transactions_def batch_auths_def foldR_map foldR_concat)
  note cs = count_auths [OF f, simplified]
  have small: "unat (of_nat n :: u64) = n" if "n \<le> length ?a" for n
    using that assms(2) by (simp add: unat_of_nat)
  have len: "length (l1_hashes ?a) \<le> length ?a" "l2_count ?a \<le> length ?a" "length (upgrade_hashes ?a) \<le> length ?a"
  proof -
    have "length (l1_hashes as) \<le> length as \<and> l2_count as \<le> length as \<and> length (upgrade_hashes as) \<le> length as" for as
      by (induction as) (auto simp: l1_hashes_def l2_count_def upgrade_hashes_def le_SucI split: tx_auth.splits)
    then show "length (l1_hashes ?a) \<le> length ?a" "l2_count ?a \<le> length ?a" "length (upgrade_hashes ?a) \<le> length ?a"
      by blast+
  qed
  show "ct_l1_tx_hashes ct = l1_hashes ?a" by (rule cs(1))
  show "unat (ct_num_l1_txs ct) = length (l1_hashes ?a)" "unat (ct_num_l2_txs ct) = l2_count ?a"
    by (simp_all add: cs small len)
  have n: "length (upgrade_hashes ?a) = (if up = 0 then 0 else 1)"
  proof -
    have "unat (ct_num_upgrade_txs ct) = length (upgrade_hashes ?a)" by (simp add: cs small len)
    moreover have "unat (ct_num_upgrade_txs ct) \<le> 1" using le by (simp add: word_le_nat_alt)
    moreover have "(unat (ct_num_upgrade_txs ct) = 1) = (up \<noteq> 0)" using iff by (simp add: word_unat_eq_iff)
    ultimately show ?thesis by (cases "upgrade_hashes ?a") auto
  qed
  then show "upgrade_hashes ?a = (if up = 0 then [] else [up])"
    using cs(5) by (cases "upgrade_hashes ?a") (auto split: if_splits)
qed


section \<open>Parts of a batch the executor does not read\<close>

text \<open>
  The executor reads of a block its header fields, its transactions, its block hashes and the two
  hashes it is compared with. A rewriting of the blocks that keeps these keeps the validation and
  the run.
\<close>

definition keeps_executed :: "(block_input \<Rightarrow> block_input) \<Rightarrow> bool" where
  "keeps_executed f \<longleftrightarrow> (\<forall>b. bi_number (f b) = bi_number b \<and> bi_timestamp (f b) = bi_timestamp b \<and>
     bi_base_fee (f b) = bi_base_fee b \<and> bi_gas_limit (f b) = bi_gas_limit b \<and> bi_coinbase (f b) = bi_coinbase b \<and>
     bi_prev_randao (f b) = bi_prev_randao b \<and> bi_transactions (f b) = bi_transactions b \<and>
     bi_block_hashes (f b) = bi_block_hashes b \<and> bi_block_header_hash (f b) = bi_block_header_hash b \<and>
     bi_expected_tree_root (f b) = bi_expected_tree_root b)"

lemma keeps_executedD:
  assumes "keeps_executed f"
  shows "bi_number (f b) = bi_number b" "bi_timestamp (f b) = bi_timestamp b" "bi_base_fee (f b) = bi_base_fee b"
    "bi_gas_limit (f b) = bi_gas_limit b" "bi_coinbase (f b) = bi_coinbase b" "bi_prev_randao (f b) = bi_prev_randao b"
    "bi_transactions (f b) = bi_transactions b" "bi_block_hashes (f b) = bi_block_hashes b"
    "bi_block_header_hash (f b) = bi_block_header_hash b" "bi_expected_tree_root (f b) = bi_expected_tree_root b"
  using assms by (simp_all add: keeps_executed_def)

definition map_blocks :: "(block_input \<Rightarrow> block_input) \<Rightarrow> batch_input \<Rightarrow> batch_input" where
  "map_blocks f inp = inp\<lparr>in_blocks := map f (in_blocks inp)\<rparr>"

lemma map_blocks_sel [simp]:
  "in_version (map_blocks f inp) = in_version inp" "in_chain_id (map_blocks f inp) = in_chain_id inp"
  "in_spec_id (map_blocks f inp) = in_spec_id inp" "in_batch_meta (map_blocks f inp) = in_batch_meta inp"
  "in_protocol_version_minor (map_blocks f inp) = in_protocol_version_minor inp"
  "in_blocks (map_blocks f inp) = map f (in_blocks inp)" "in_bytecodes (map_blocks f inp) = in_bytecodes inp"
  by (simp_all add: map_blocks_def)

lemma run_block_kept:
  assumes "keeps_executed f"
  shows "run_block c cr rv cid spec cap large (f b) = run_block c cr rv cid spec cap large b"
  unfolding run_block_def execute_block_proven_def run_evm_block_def verify_intra_batch_hashes_def
    block_env_of_def block_header_args_def keeps_executedD [OF assms] ..

lemma validate_kept:
  assumes f: "keeps_executed f"
  shows "validate_block_sequence sc (map_blocks f inp) spec = validate_block_sequence sc inp spec"
proof (cases "in_blocks inp = []")
  case True
  then show ?thesis by (simp add: validate_block_sequence_def Let_def)
next
  case False
  have "windows2 (map f bs) = map (map_prod f f) (windows2 bs)" for bs
    by (simp add: windows2_def zip_map_map map_tl [symmetric] map_prod_def)
  then have w: "checkR g (windows2 (map f bs)) = checkR (\<lambda>x. g (map_prod f f x)) (windows2 bs)"
    for g :: "block_input \<times> block_input \<Rightarrow> (panic, unit) result" and bs by (simp add: checkR_map)
  have v4: "validate_atlas_v4_block_invariants sc (map_blocks f inp) spec = validate_atlas_v4_block_invariants sc inp spec"
    and roots: "validate_expected_tree_roots (map_blocks f inp) = validate_expected_tree_roots inp"
    by (simp_all add: validate_atlas_v4_block_invariants_def validate_expected_tree_roots_def checkR_map keeps_executedD [OF f])
  have first: "map f (in_blocks inp) ! 0 = f (in_blocks inp ! 0)" using False by simp
  show ?thesis
    unfolding validate_block_sequence_def v4 roots map_blocks_sel Let_def first w
    by (simp add: map_prod_def case_prod_unfold keeps_executedD [OF f])
qed

lemma resolve_kept:
  assumes "keeps_executed f"
  shows "resolve_spec_and_validate sc (map_blocks f inp) = resolve_spec_and_validate sc inp"
  unfolding resolve_spec_and_validate_def validate_kept [OF assms] map_blocks_sel ..

lemma run_kept:
  assumes f: "keeps_executed f" and "in_blocks inp \<noteq> []"
  shows "run_execution_and_commit c cr rv (map_blocks f inp) spec db = run_execution_and_commit c cr rv inp spec db"
proof -
  have fl: "hd (in_blocks (map_blocks f inp)) = f (hd (in_blocks inp))"
    "last (in_blocks (map_blocks f inp)) = f (last (in_blocks inp))"
    using assms(2) by (simp_all add: hd_map last_map)
  have run: "run_blocks c cr rv (map_blocks f inp) spec db ring = run_blocks c cr rv inp spec db ring" for ring
    using fl by (simp add: run_blocks_def foldR_map run_block_kept [OF f] keeps_executedD [OF f])
  have cnt: "count_transactions c abi up (in_blocks (map_blocks f inp)) = count_transactions c abi up (in_blocks inp)" for abi up
    by (simp add: count_transactions_def foldR_map keeps_executedD [OF f])
  have cfg: "chain_config_of_batch (map_blocks f inp) = chain_config_of_batch inp"
    by (simp add: chain_config_of_batch_def)
  show ?thesis
    unfolding run_execution_and_commit_def Let_def run cnt cfg fl verify_block_hashes_blake_before_def
      map_blocks_sel(1-5) keeps_executedD [OF f] ..
qed

section \<open>Collecting and streaming\<close>

lemma strip_block_kept: "keeps_executed strip_block"
  by (simp add: keeps_executed_def strip_block_def)

lemma strip_proofs_map: "strip_proofs = map_blocks strip_block"
  by (rule ext) (simp add: strip_proofs_def map_blocks_def)

lemma resolve_strip: "resolve_spec_and_validate sc (strip_proofs inp) = resolve_spec_and_validate sc inp"
  unfolding strip_proofs_map by (rule resolve_kept [OF strip_block_kept])

lemma run_strip:
  assumes "in_blocks inp \<noteq> []"
  shows "run_execution_and_commit c cr rv (strip_proofs inp) spec db = run_execution_and_commit c cr rv inp spec db"
  unfolding strip_proofs_map by (rule run_kept [OF strip_block_kept assms])

section \<open>What a committed batch consists of\<close>

lemma run_execution_parts:
  assumes "run_execution_and_commit c cr rv inp spec db = Ok r"
  obtains ring lp root n blake ct where
    "verify_block_hashes_blake_before c (in_batch_meta inp) (hd (in_blocks inp)) = Ok ring"
    "run_blocks c cr rv inp spec db ring = Ok lp"
    "verify_post_state c (in_batch_meta inp) lp = Ok (root, n)"
    "reconstruct_block_hashes_blake_after c (bi_number (hd (in_blocks inp))) (bi_number (last (in_blocks inp))) ring
       (lp_computed_block_hashes lp) (result_hash (last (lp_block_results lp))) = Ok blake"
    "count_transactions c (if sc_is_enabled_in rv AtlasV4 spec then WithTimestamp else WithoutTimestamp)
       (bm_upgrade_tx_hash (in_batch_meta inp)) (in_blocks inp) = Ok ct"
    "bc_output r = \<lparr>bo_chain_id = in_chain_id inp, bo_block_results = lp_block_results lp\<rparr>"
    "bc_state_before r = state_commitment_hash c (bm_tree_root_before (in_batch_meta inp))
       (bm_leaf_count_before (in_batch_meta inp)) (bm_block_number_before (in_batch_meta inp))
       (bm_block_hashes_blake_before (in_batch_meta inp)) (bm_last_block_timestamp_before (in_batch_meta inp))"
    "bc_state_after r = state_commitment_hash c root n (bi_number (last (in_blocks inp))) blake
       (bi_timestamp (last (in_blocks inp)))"
    "bc_commitment r = batch_public_input_hash c (bc_state_before r) (bc_state_after r)
       (map_option (\<lambda>layout. chain_config_hash c layout (chain_config_of_batch inp)) (chain_config_layout_of spec))
       (bc_batch_hash r)"
  using assms [unfolded run_execution_and_commit_def Let_def rbind_Ok_iff split_paired_Ex prod.case]
  by (elim exE conjE) (rule that, assumption+, auto)

text \<open>
  The state a state commitment stands for: the storage tree, the block hashes by number, and the
  number and timestamp of the last block.
\<close>

record chain_state =
  cs_tree :: "tree_leaf list"
  cs_history :: "int \<Rightarrow> b256"
  cs_number :: u64
  cs_timestamp :: u64

definition state_preimage :: "crypto \<Rightarrow> chain_state \<Rightarrow> bytes" where
  "state_preimage c s = state_commitment_preimage (tree_root c (cs_tree s)) (of_nat (length (cs_tree s))) (cs_number s)
     (ring_commitment c (ring_window (cs_history s) (uint (cs_number s) + 1))) (cs_timestamp s)"

definition state_hash :: "crypto \<Rightarrow> chain_state \<Rightarrow> b256" where
  "state_hash c s = cr_blake2s c (state_preimage c s)"

definition wf_chain :: "chain_state \<Rightarrow> bool" where
  "wf_chain s \<longleftrightarrow> wf_tree (cs_tree s) \<and> length (cs_tree s) < 2 ^ 64 \<and> (\<forall>n < 0. cs_history s n = 0)"

definition meta_preimage :: "batch_meta \<Rightarrow> bytes" where
  "meta_preimage meta = state_commitment_preimage (bm_tree_root_before meta) (bm_leaf_count_before meta)
     (bm_block_number_before meta) (bm_block_hashes_blake_before meta) (bm_last_block_timestamp_before meta)"

text \<open>No collision among the messages the batch and the previous state hash.\<close>

definition collision_free :: "crypto \<Rightarrow> chain_state \<Rightarrow> batch_input \<Rightarrow> bool" where
  "collision_free c s inp \<longleftrightarrow>
     inj_on (cr_blake2s c) {meta_preimage (in_batch_meta inp), state_preimage c s} \<and>
     inj_on (cr_blake2s c)
       {ring_bytes (reconstruct_ring (bi_number (hd (in_blocks inp))) (bi_block_hashes (hd (in_blocks inp)))),
        ring_bytes (ring_window (cs_history s) (uint (cs_number s) + 1))} \<and>
     binding c (cs_tree s) (keyed_pairs c (batch_proofs inp)) (keyed_leaves (batch_proofs inp)) \<and>
     (case bm_tree_update (in_batch_meta inp) of
        Some u \<Rightarrow> binding c (cs_tree s) (set (update_pairs c u)) (snd ` set (bu_sorted_leaves u))
      | None \<Rightarrow> True)"

definition within_bounds :: "chain_state \<Rightarrow> batch_input \<Rightarrow> bool" where
  "within_bounds s inp \<longleftrightarrow> unat (cs_number s) + length (in_blocks inp) < 2 ^ 64 \<and>
     (case bm_tree_update (in_batch_meta inp) of
        Some u \<Rightarrow> length (cs_tree s) + length (bu_entries u) < 2 ^ 64 | None \<Rightarrow> True)"

text \<open>Every read the database of a batch answers is answered as the tree of the state has it.\<close>

definition reads_faithful :: "crypto \<Rightarrow> tree_leaf list \<Rightarrow> proven_db \<Rightarrow> bool" where
  "reads_faithful c T db \<longleftrightarrow>
     (\<forall>addr index. derive_flat_storage_key c addr index \<noteq> 0 \<longrightarrow> storage_faithful c T db addr index) \<and>
     (\<forall>addr. derive_account_properties_key c addr \<noteq> 0 \<longrightarrow> account_faithful c T db addr)"

text \<open>The tree entries a finished block loop requires.\<close>

definition required_writes :: "crypto \<Rightarrow> batch_meta \<Rightarrow> batch_loop \<Rightarrow> (panic, (b256 \<times> b256) list) result" where
  "required_writes c meta lp =
     build_revm_write_map c (lp_storage_writes lp) (lp_destroyed_accounts lp) (lp_deployed_accounts lp)
       (lp_cache lp) (bm_account_preimages_after meta) (bm_upgrade_tx_hash meta \<noteq> 0)"

text \<open>
  One batch on the abstract state: the blocks run over a database that answers for the tree of the
  state, with the block hashes of its history; the writes they leave go into the map of the tree,
  the block hashes extend the history, every block seals the hash of the block before it, and
  number and timestamp move on.
\<close>

definition batch_step ::
  "crypto \<Rightarrow> ('al, 'au, 'tx) tx_crates \<Rightarrow> ('evm, 'tx, 'log) revm \<Rightarrow> batch_input \<Rightarrow> block_result list \<Rightarrow>
   chain_state \<Rightarrow> chain_state \<Rightarrow> bool" where
  "batch_step c cr rv inp rs s s' \<longleftrightarrow>
     (\<exists>spec db lp writes. resolve_spec_and_validate rv inp = Ok spec \<and> build_proven_db c inp = Ok db \<and>
        reads_faithful c (cs_tree s) db \<and>
        run_blocks c cr rv inp spec db (ring_window (cs_history s) (uint (cs_number s) + 1)) = Ok lp \<and>
        rs = lp_block_results lp \<and> required_writes c (in_batch_meta inp) lp = Ok writes \<and>
        tree_map (cs_tree s') = tree_map (cs_tree s) ++ map_of writes) \<and>
     cs_history s' = extend_history (cs_history s) (uint (cs_number s) + 1) (map result_hash rs) \<and>
     length rs = length (in_blocks inp) \<and>
     (\<forall>i < length rs. seals c (in_blocks inp ! i) (cs_history s' (uint (cs_number s) + int i)) (rs ! i)) \<and>
     uint (cs_number s') = uint (cs_number s) + int (length rs) \<and>
     cs_timestamp s \<le> cs_timestamp s' \<and> cs_timestamp s' = bi_timestamp (last (in_blocks inp))"

lemma state_fields:
  assumes "bc_state_before r = state_hash c s"
    and "bc_state_before r = state_commitment_hash c (bm_tree_root_before meta)
       (bm_leaf_count_before meta) (bm_block_number_before meta)
       (bm_block_hashes_blake_before meta) (bm_last_block_timestamp_before meta)"
    and "inj_on (cr_blake2s c) {meta_preimage meta, state_preimage c s}"
  shows "bm_tree_root_before meta = tree_root c (cs_tree s)" "bm_leaf_count_before meta = of_nat (length (cs_tree s))"
    "bm_block_number_before meta = cs_number s" "bm_last_block_timestamp_before meta = cs_timestamp s"
    "bm_block_hashes_blake_before meta = ring_commitment c (ring_window (cs_history s) (uint (cs_number s) + 1))"
proof -
  have "meta_preimage meta = state_preimage c s"
    using assms(1,2) by (intro inj_onD [OF assms(3)]) (simp_all add: state_hash_def state_commitment_hash_def meta_preimage_def)
  then show "bm_tree_root_before meta = tree_root c (cs_tree s)" "bm_leaf_count_before meta = of_nat (length (cs_tree s))"
    "bm_block_number_before meta = cs_number s" "bm_last_block_timestamp_before meta = cs_timestamp s"
    "bm_block_hashes_blake_before meta = ring_commitment c (ring_window (cs_history s) (uint (cs_number s) + 1))"
    unfolding meta_preimage_def state_preimage_def state_commitment_preimage_inject by blast+
qed

lemma post_state_refines:
  assumes ok: "verify_post_state c meta lp = Ok (root, n)" and wf: "wf_tree T"
    and "bm_tree_root_before meta = tree_root c T" and "bm_leaf_count_before meta = of_nat (length T)"
    and "length T < 2 ^ 64"
    and "case bm_tree_update meta of Some u \<Rightarrow> length T + length (bu_entries u) < 2 ^ 64 | None \<Rightarrow> True"
    and "case bm_tree_update meta of
      Some u \<Rightarrow> binding c T (set (update_pairs c u)) (snd ` set (bu_sorted_leaves u)) | None \<Rightarrow> True"
  shows "\<exists>T' writes. required_writes c meta lp = Ok writes \<and> wf_tree T' \<and> root = tree_root c T' \<and> n = of_nat (length T') \<and> length T' < 2 ^ 64 \<and>
    tree_map T' = tree_map T ++ map_of writes"
proof -
  obtain writes where w: "build_revm_write_map c (lp_storage_writes lp) (lp_destroyed_accounts lp) (lp_deployed_accounts lp)
      (lp_cache lp) (bm_account_preimages_after meta) (bm_upgrade_tx_hash meta \<noteq> 0) = Ok writes"
    and up: "verify_tree_update c meta writes = Ok (root, n)" using ok by (auto simp: verify_post_state_def)
  have bound: "length T + length writes < 2 ^ 64"
    using up assms(5,6) by (auto simp: verify_tree_update_def split: option.splits)
  have len: "length T = unat (bm_leaf_count_before meta)" using assms(4,5) by (simp add: unat_of_nat)
  obtain T' where T': "wf_tree T'" "root = tree_root c T'" "unat n = length T'" "tree_map T' = tree_map T ++ map_of writes"
    using verify_tree_update_refines [OF up distinct_build_map [OF w] wf assms(3) [symmetric] len bound] assms(7) by force
  have "unat n < 2 ^ 64" using unsigned_less [of n] by simp
  then have "length T' < 2 ^ 64" using T'(3) by simp
  moreover from this have "n = of_nat (length T')" using T'(3) by (simp add: word_unat_eq_iff unat_of_nat)
  ultimately show ?thesis using w T' unfolding required_writes_def by blast
qed


lemma ring_of_state:
  assumes ring: "verify_block_hashes_blake_before c meta block = Ok ring"
    and "bm_block_hashes_blake_before meta = ring_commitment c (ring_window hist owner)"
    and "owner = uint (bi_number block)"
    and "inj_on (cr_blake2s c)
      {ring_bytes (reconstruct_ring (bi_number block) (bi_block_hashes block)), ring_bytes (ring_window hist owner)}"
  shows "ring = ring_window hist (uint (bi_number block))"
proof (rule ring_authenticated [OF ring])
  have "ring = reconstruct_ring (bi_number block) (bi_block_hashes block)"
    using ring by (simp add: verify_block_hashes_blake_before_def Let_def)
  then show "inj_on (cr_blake2s c) {ring_bytes ring, ring_bytes (ring_window hist (uint (bi_number block)))}"
    using assms(3,4) by simp
qed (simp add: assms(2,3))

lemma reads_of_state:
  assumes "build_proven_db c inp = Ok db" and "wf_tree T"
    and "binding c T (keyed_pairs c (batch_proofs inp)) (keyed_leaves (batch_proofs inp))"
    and "bm_tree_root_before (in_batch_meta inp) = tree_root c T"
  shows "reads_faithful c T db"
  using proven_reads [OF assms(1-3)] assms(4) by (simp add: reads_faithful_def)

end
