(* ===== verification/Block_Effects.thy ===== *)
theory Block_Effects
  imports Block_Exec
begin

text \<open>
  What the execution of one block guarantees whatever REVM answers: the EIP-2935 slots and branches,
  the counters of the transaction loop, and the net storage changes of the block as a function of
  the journals of its transactions.
\<close>

section \<open>The history ring\<close>

lemma history_slot_value:
  assumes "1 \<le> n"
  shows "unat (history_slot n) = (unat n - 1) mod 8191"
proof -
  have "unat (n - 1) = unat n - 1" using assms by (simp add: unat_sub)
  then have "unat ((n - 1) mod HISTORY_SERVE_WINDOW) = (unat n - 1) mod 8191"
    by (simp add: unat_mod_distrib HISTORY_SERVE_WINDOW_def)
  moreover have "(unat n - 1) mod 8191 < 2 ^ 256"
    by (rule less_trans [OF mod_less_divisor]) simp_all
  ultimately show ?thesis by (simp add: history_slot_def unsigned_ucast_eq take_bit_nat_eq_self)
qed

text \<open>Two blocks within one window of 8191 blocks never share a slot.\<close>

lemma history_slots_distinct:
  assumes "1 \<le> m" and "m < n" and "unat n - unat m < 8191"
  shows "history_slot m \<noteq> history_slot n"
proof
  assume eq: "history_slot m = history_slot n"
  have le: "unat m < unat n" using assms(2) by (simp add: word_less_nat_alt)
  have m1: "1 \<le> unat m" using assms(1) by (simp add: word_le_nat_alt)
  have n1: "1 \<le> n" using assms(1,2) by (simp add: word_le_nat_alt word_less_nat_alt)
  have "(unat m - 1) mod 8191 = (unat n - 1) mod 8191"
    using eq history_slot_value [OF assms(1)] history_slot_value [OF n1] by simp
  then have "8191 dvd (unat n - 1) - (unat m - 1)" using le by (metis diff_le_mono less_or_eq_imp_le mod_eq_dvd_iff_nat)
  moreover have "(unat n - 1) - (unat m - 1) = unat n - unat m" using m1 le by simp
  ultimately show False using assms(3) le by (auto dest: dvd_imp_le)
qed

text \<open>What the step does, branch by branch, once it does not panic.\<close>

lemma pre_block_write_cases:
  assumes "apply_pre_block_write c rv n h cache = Ok (w, cache')"
  shows "1 \<le> n"
    and "\<exists>account. basic_ref c (cd_db cache) HISTORY_STORAGE_ADDRESS = Ok account \<and>
      (if account = None \<or> \<not> history_is_contract (cd_db cache) then w = None \<and> cache' = cache
       else rv_insert_account_storage rv HISTORY_STORAGE_ADDRESS (history_slot n) h cache = Some cache' \<and>
         (\<exists>previous. rv_storage_ref rv cache HISTORY_STORAGE_ADDRESS (history_slot n) = Some previous \<and>
            w = (if previous = h then None else Some ((HISTORY_STORAGE_ADDRESS, history_slot n), h))))"
  using assms by (auto simp: apply_pre_block_write_def Let_def split: if_splits)

section \<open>The transactions of a block\<close>

text \<open>
  The loop keeps its counters in step: one result and one hash per transaction, one receipt leaf per
  transaction from AtlasV4 on, and a cumulative gas equal to the sum of the results.
\<close>

definition in_step :: "bool \<Rightarrow> nat \<Rightarrow> 'evm evm_loop \<Rightarrow> bool" where
  "in_step v4 n st \<longleftrightarrow> length (el_tx_results st) = n \<and> length (el_tx_hashes st) = n \<and>
     length (el_receipt_leaves st) = (if v4 then n else 0) \<and>
     el_cumulative_gas_used st = sum_list (map to_gas_used (el_tx_results st))"

lemma run_txD:
  assumes "run_tx c cr rv v4 gl cap (i, inp) st = Ok st'"
  obtains tx h ty res state e1 where
    "build_proven_tx c cr inp gl cap = Ok (tx, h, ty)" "\<not> v4 \<or> ty \<noteq> BLOB_TX_TYPE"
    "rv_transact rv tx (rv_set_tx_number rv (of_nat i) (el_evm st)) = (Some (res, state), e1)"
    "el_evm st' = snd (rv_take_l2_to_l1_logs rv (rv_commit rv state e1))"
    "el_l2_to_l1_logs st' = el_l2_to_l1_logs st @ fst (rv_take_l2_to_l1_logs rv (rv_commit rv state e1))"
    "el_tx_hashes st' = el_tx_hashes st @ [h]"
    "el_cumulative_gas_used st' = el_cumulative_gas_used st + er_tx_gas_used res"
    "\<exists>out. el_tx_results st' = el_tx_results st @
      [\<lparr>to_success = er_is_success res, to_gas_used = er_tx_gas_used res, to_output = out\<rparr>]"
    "el_receipt_leaves st' = el_receipt_leaves st @
      (if v4 then [receipt_leaf c (rv_rlp_receipt rv) ty (er_is_success res) (el_cumulative_gas_used st') (er_logs res)] else [])"
    "el_journal st' = fold record_account state (el_journal st)"
proof -
  obtain tx h ty where b: "build_proven_tx c cr inp gl cap = Ok (tx, h, ty)" "\<not> v4 \<or> ty \<noteq> BLOB_TX_TYPE"
    using assms by (auto simp: run_tx_def Let_def)
  obtain res state e1 where t: "rv_transact rv tx (rv_set_tx_number rv (of_nat i) (el_evm st)) = (Some (res, state), e1)"
    using assms b by (auto simp: run_tx_def Let_def split: prod.splits option.splits)
  show thesis by (rule that [OF b t]) (use assms b t in \<open>auto simp: run_tx_def Let_def split: prod.splits\<close>)
qed

lemma run_tx_in_step:
  "in_step v4 n st \<Longrightarrow> run_tx c cr rv v4 gl cap x st = Ok st' \<Longrightarrow> in_step v4 (Suc n) st'"
  by (cases x) (auto elim!: run_txD simp: in_step_def)

text \<open>
  What REVM is asked and what it answers, transaction by transaction: the authenticated transaction
  is transacted under its number, its journal is committed and the logs are taken before the next.
  An output is the authenticated hash, the result and the journal of one transaction.
\<close>

inductive evm_run ::
  "crypto \<Rightarrow> ('al, 'au, 'tx) tx_crates \<Rightarrow> ('evm, 'tx, 'log) revm \<Rightarrow> u64 \<Rightarrow> u64 option \<Rightarrow> nat \<Rightarrow>
   tx_input list \<Rightarrow> 'evm \<Rightarrow> (b256 \<times> 'log exec_result \<times> evm_state) list \<Rightarrow> 'evm \<Rightarrow> bool"
  for c cr rv gas_limit cap where
  finished: "evm_run c cr rv gas_limit cap i [] e [] e"
| transact: "build_proven_tx c cr inp gas_limit cap = Ok (tx, h, ty) \<Longrightarrow>
    rv_transact rv tx (rv_set_tx_number rv (of_nat i) e) = (Some (res, state), e1) \<Longrightarrow>
    evm_run c cr rv gas_limit cap (Suc i) inps (snd (rv_take_l2_to_l1_logs rv (rv_commit rv state e1))) outs e' \<Longrightarrow>
    evm_run c cr rv gas_limit cap i (inp # inps) e ((h, res, state) # outs) e'"

inductive_cases evm_run_NilE: "evm_run c cr rv gas_limit cap i [] e outs e'"
inductive_cases evm_run_ConsE: "evm_run c cr rv gas_limit cap i (inp # inps) e outs e'"

definition journals :: "(b256 \<times> 'log exec_result \<times> evm_state) list \<Rightarrow> evm_state list" where
  "journals outs = map (\<lambda>(_, _, state). state) outs"

lemma run_txs_in_step:
  assumes "foldR (run_tx c cr rv v4 gl cap) xs st = Ok st'" and "in_step v4 n st"
  shows "in_step v4 (n + length xs) st'"
  using assms by (induction xs arbitrary: st n) (fastforce dest: run_tx_in_step)+

lemma run_txs:
  assumes "foldR (run_tx c cr rv v4 gl cap) (enumerate i inps) st = Ok st'"
  shows "\<exists>outs. evm_run c cr rv gl cap i inps (el_evm st) outs (el_evm st') \<and>
    el_journal st' = fold (fold record_account) (journals outs) (el_journal st) \<and>
    el_tx_hashes st' = el_tx_hashes st @ map fst outs \<and>
    map to_gas_used (el_tx_results st') = map to_gas_used (el_tx_results st) @ map (\<lambda>(_, res, _). er_tx_gas_used res) outs"
  using assms
proof (induction inps arbitrary: i st)
  case Nil
  then show ?case by (intro exI [of _ "[]"]) (auto simp: journals_def intro: evm_run.finished)
next
  case (Cons inp inps)
  obtain st1 where st1: "run_tx c cr rv v4 gl cap (i, inp) st = Ok st1"
    and rest: "foldR (run_tx c cr rv v4 gl cap) (enumerate (Suc i) inps) st1 = Ok st'" using Cons.prems by auto
  from Cons.IH [OF rest] obtain outs where outs: "evm_run c cr rv gl cap (Suc i) inps (el_evm st1) outs (el_evm st')"
      "el_journal st' = fold (fold record_account) (journals outs) (el_journal st1)"
      "el_tx_hashes st' = el_tx_hashes st1 @ map fst outs"
      "map to_gas_used (el_tx_results st') = map to_gas_used (el_tx_results st1) @ map (\<lambda>(_, res, _). er_tx_gas_used res) outs"
    by blast
  show ?case
  proof (rule run_txD [OF st1], goal_cases)
    case (1 tx h ty res state e1)
    have "evm_run c cr rv gl cap i (inp # inps) (el_evm st) ((h, res, state) # outs) (el_evm st')"
      using 1(1,3) outs(1) by (auto simp: 1(4) intro: evm_run.transact)
    then show ?case using 1(6,8,10) outs(2-4)
      by (intro exI [of _ "(h, res, state) # outs"]) (auto simp: journals_def)
  qed
qed

section \<open>Net storage changes\<close>

type_synonym slot_event = "(address \<times> u256) \<times> u256 \<times> u256"

text \<open>The changed slots of the accounts a transaction leaves standing, in journal order.\<close>

definition account_events :: "address \<times> evm_account \<Rightarrow> slot_event list" where
  "account_events = (\<lambda>(addr, account). if ea_is_selfdestructed account then []
     else map (\<lambda>(index, s). ((addr, index), es_original_value s, es_present_value s))
            (filter (\<lambda>(_, s). es_is_changed s) (ea_storage account)))"

definition journal_events :: "evm_state list \<Rightarrow> slot_event list" where
  "journal_events states = concat (map account_events (concat states))"

definition net_change :: "slot_event list \<Rightarrow> address \<times> u256 \<Rightarrow> u256 option" where
  "net_change evs k = (let es = map snd (filter (\<lambda>e. fst e = k) evs)
     in if es = [] \<or> fst (hd es) = snd (last es) then None else Some (snd (last es)))"

definition note_event :: "slot_event \<Rightarrow> slot_event list \<Rightarrow> slot_event list" where
  "note_event = (\<lambda>(k, first, lst) writes. case map_of writes k of
     Some (f, _) \<Rightarrow> AList.update k (f, lst) writes | None \<Rightarrow> AList.update k (first, lst) writes)"

lemma record_account_events:
  "je_slot_writes (record_account x j) = fold note_event (account_events x) (je_slot_writes j)"
proof -
  have "fold (record_slot addr) xs w =
      fold note_event (map (\<lambda>(index, s). ((addr, index), es_original_value s, es_present_value s))
        (filter (\<lambda>(_, s). es_is_changed s) xs)) w" for addr xs w
    by (induction xs arbitrary: w) (auto simp: record_slot_def note_event_def split: option.splits)
  then show ?thesis by (cases x) (simp add: record_account_def account_events_def Let_def)
qed

lemma fold_record_account_events:
  "je_slot_writes (fold record_account xs j) = fold note_event (concat (map account_events xs)) (je_slot_writes j)"
  by (induction xs arbitrary: j) (simp_all add: record_account_events)

lemma journal_slot_writes:
  "je_slot_writes (fold (fold record_account) states j) = fold note_event (journal_events states) (je_slot_writes j)"
  by (induction states arbitrary: j) (simp_all add: fold_record_account_events journal_events_def)

lemma note_event_lookup:
  "map_of (note_event (k', f, l) w) k =
     (if k = k' then Some (case map_of w k' of Some (f0, _) \<Rightarrow> f0 | None \<Rightarrow> f, l) else map_of w k)"
  by (auto simp: note_event_def update_conv' split: option.splits prod.splits)

lemma distinct_note_events: "distinct (map fst w) \<Longrightarrow> distinct (map fst (fold note_event evs w))"
  by (induction evs arbitrary: w) (auto simp: note_event_def distinct_update split: option.splits prod.splits)

lemma note_events:
  "map_of (fold note_event evs []) k =
     (let es = map snd (filter (\<lambda>e. fst e = k) evs) in if es = [] then None else Some (fst (hd es), snd (last es)))"
proof (induction evs arbitrary: k rule: rev_induct)
  case (snoc e evs)
  obtain k' f l where e: "e = (k', f, l)" by (cases e) auto
  have "map_of (fold note_event (evs @ [e]) []) k =
      (if k = k' then Some (case map_of (fold note_event evs []) k' of Some (f0, _) \<Rightarrow> f0 | None \<Rightarrow> f, l)
       else map_of (fold note_event evs []) k)"
    by (simp only: fold_append comp_apply fold.simps id_apply e note_event_lookup)
  then show ?case unfolding snoc.IH by (auto simp: e Let_def)
qed simp

lemma net_storage_writes_iff:
  "(k, v) \<in> set (net_storage_writes (fold note_event evs [])) \<longleftrightarrow> net_change evs k = Some v"
proof -
  have "(k, v) \<in> set (net_storage_writes w) \<longleftrightarrow> (\<exists>f. map_of w k = Some (f, v) \<and> f \<noteq> v)"
    if "distinct (map fst w)" for w
    using that by (force simp: net_storage_writes_def)
  from this [OF distinct_note_events] show ?thesis
    by (simp del: map_of_eq_Some_iff add: note_events net_change_def Let_def) auto
qed

lemma distinct_net_storage_writes: "distinct (map fst w) \<Longrightarrow> distinct (map fst (net_storage_writes w))"
proof -
  assume d: "distinct (map fst w)"
  have "map fst (net_storage_writes w) = map fst (filter (\<lambda>(_, (first, lst)). first \<noteq> lst) w)"
    by (simp add: net_storage_writes_def comp_def split_beta)
  then show ?thesis using d by (simp add: distinct_map_filter)
qed

definition block_evm ::
  "('evm, 'tx, 'log) revm \<Rightarrow> u64 \<Rightarrow> zk_spec_id \<Rightarrow> block_input \<Rightarrow> bool \<Rightarrow> cache_db \<Rightarrow> 'evm" where
  "block_evm rv cid spec block large cache = rv_build_zk rv cache spec
     (configure_evm (rv_large_contracts_max_code_size rv) cid spec large (rv_default_cfg rv spec)) (block_env_of block)"

text \<open>What a finished block reports, in terms of what REVM answered.\<close>

definition reports :: "bool \<Rightarrow> (b256 \<times> 'log exec_result \<times> evm_state) list \<Rightarrow> block_execution \<Rightarrow> bool" where
  "reports v4 outs exec \<longleftrightarrow> bx_tx_hashes exec = map fst outs \<and>
     map to_gas_used (bx_tx_results exec) = map (\<lambda>(_, res, _). er_tx_gas_used res) outs \<and>
     length (bx_receipt_leaves exec) = (if v4 then length outs else 0) \<and>
     distinct (map fst (se_storage_writes (bx_state_effects exec))) \<and>
     map_of (se_storage_writes (bx_state_effects exec)) = net_change (journal_events (journals outs))"

lemma map_of_net_writes: "map_of (net_storage_writes (fold note_event evs [])) = net_change evs"
proof
  fix k
  have d: "distinct (map fst (net_storage_writes (fold note_event evs [])))"
    by (intro distinct_net_storage_writes distinct_note_events) simp
  show "map_of (net_storage_writes (fold note_event evs [])) k = net_change evs k"
    using net_storage_writes_iff [of k _ evs] map_of_eq_Some_iff [OF d, of k] by (metis not_Some_eq)
qed

lemma length_evm_run: "evm_run c cr rv gl cap i inps e outs e' \<Longrightarrow> length outs = length inps"
  by (induction rule: evm_run.induct) simp_all

lemma run_evm_block_outs:
  assumes "run_evm_block c cr rv cid spec block cap large cache = Ok (exec, cache')"
  shows "\<exists>outs e'. evm_run c cr rv (bi_gas_limit block) cap 0 (bi_transactions block)
      (block_evm rv cid spec block large cache) outs e' \<and> cache' = rv_cache_db rv e' \<and>
    reports (sc_is_enabled_in rv AtlasV4 spec) outs exec"
proof -
  let ?v4 = "sc_is_enabled_in rv AtlasV4 spec" and ?e = "block_evm rv cid spec block large cache"
  obtain st' where f: "foldR (run_tx c cr rv ?v4 (bi_gas_limit block) cap) (enumerate 0 (bi_transactions block))
      (initial_evm_loop ?e) = Ok st'"
    and ex: "bx_tx_results exec = el_tx_results st'" "bx_tx_hashes exec = el_tx_hashes st'"
      "bx_receipt_leaves exec = el_receipt_leaves st'" "cache' = rv_cache_db rv (el_evm st')"
      "se_storage_writes (bx_state_effects exec) = net_storage_writes (je_slot_writes (el_journal st'))"
    using assms by (auto simp: run_evm_block_def block_evm_def Let_def)
  have "in_step ?v4 0 (initial_evm_loop ?e)" by (simp add: in_step_def initial_evm_loop_def)
  then have step: "in_step ?v4 (length (bi_transactions block)) st'"
    using run_txs_in_step [OF f, of 0] by simp
  from run_txs [OF f] obtain outs where ou: "evm_run c cr rv (bi_gas_limit block) cap 0 (bi_transactions block) ?e outs (el_evm st')"
      "je_slot_writes (el_journal st') = fold note_event (journal_events (journals outs)) []"
      "el_tx_hashes st' = map fst outs"
      "map to_gas_used (el_tx_results st') = map (\<lambda>(_, res, _). er_tx_gas_used res) outs"
    by (auto simp: journal_slot_writes initial_evm_loop_def)
  have "distinct (map fst (net_storage_writes (fold note_event (journal_events (journals outs)) [])))"
    by (intro distinct_net_storage_writes distinct_note_events) simp
  then have "reports ?v4 outs exec"
    using step length_evm_run [OF ou(1)] ou(2-4) by (simp add: reports_def ex in_step_def map_of_net_writes)
  then show ?thesis using ou(1) ex(4) by blast
qed

end
