(* ===== verification/Batch_Claims.thy ===== *)
theory Batch_Claims
  imports State_Claims Batch_Sound Block_Effects
begin

text \<open>
  The claims about the executor of \<open>lib/src/executor\<close>: the refinement of the batch step, the
  equality of the two entry points, the block sequence, the block-hash ring, the counters and the
  effects of one block. The witnesses run the sample batch through a sample REVM.
\<close>

section \<open>A sample REVM\<close>

text \<open>
  An EVM that is the cache it was built over; a transaction succeeds, uses 21000 gas and moves
  slot 1 of account 7 from 0 to 5.
\<close>

fun sample_spec_u8 :: "zk_spec_id \<Rightarrow> u8" where
  "sample_spec_u8 AtlasV1 = 0"
| "sample_spec_u8 AtlasV2 = 1"
| "sample_spec_u8 AtlasV3 = 2"
| "sample_spec_u8 AtlasV4 = 3"
| "sample_spec_u8 AtlasV5 = 4"

definition sample_revm :: "(cache_db, unit, unit) revm" where
  "sample_revm = \<lparr>sc_is_enabled_in = \<lambda>x y. sample_spec_u8 x \<le> sample_spec_u8 y, sc_as_u8 = sample_spec_u8,
     rv_large_contracts_max_code_size = 0,
     rv_default_cfg = \<lambda>s. \<lparr>cfg_chain_id = 0, cfg_spec = s, cfg_tx_gas_limit_cap = None, cfg_limit_contract_code_size = None\<rparr>,
     rv_build_zk = \<lambda>cache _ _ _. cache, rv_set_tx_number = \<lambda>_ e. e,
     rv_transact = \<lambda>_ e. (Some (\<lparr>er_is_success = True, er_tx_gas_used = 21000, er_logs = [], er_output = None\<rparr>,
       [(7, \<lparr>ea_is_selfdestructed = False, ea_is_touched = True, ea_is_created = False,
          ea_storage = [(1, \<lparr>es_original_value = 0, es_present_value = 5, es_is_changed = True\<rparr>)]\<rparr>)]), e),
     rv_commit = \<lambda>_ e. e, rv_take_l2_to_l1_logs = \<lambda>e. ([], e), rv_cache_db = \<lambda>e. e,
     rv_rlp_receipt = \<lambda>_ _ _. [], rv_storage_ref = \<lambda>_ _ _. Some 0,
     rv_insert_account_storage = \<lambda>_ _ _ cache. Some cache\<rparr>"

definition sample_envelope :: "(unit, unit) tx_envelope" where
  "sample_envelope = \<lparr>te_to = Some 7, te_value = 0, te_input = [], te_nonce = 0, te_gas_limit = 0, te_max_fee_per_gas = 0,
     te_max_priority_fee_per_gas = None, te_chain_id = None, te_tx_type = 2, te_access_list = None,
     te_authorization_list = None, te_blob_versioned_hashes = None, te_max_fee_per_blob_gas = None\<rparr>"

definition sample_crates :: "(unit, unit, unit) tx_crates" where
  "sample_crates = \<lparr>tc_decode_2718 = \<lambda>_. Some sample_envelope, tc_recover_signer = \<lambda>_. Some 3, tc_build = \<lambda>_. Some ()\<rparr>"

lemma sample_keeps_db: "keeps_db sample_revm"
  by (simp add: keeps_db_def evm_db_def sample_revm_def)

section \<open>The run of the sample batch\<close>

lemma sample_resolve: "resolve_spec_and_validate sample_revm sample_batch = Ok AtlasV1"
  by (simp add: resolve_spec_and_validate_def sample_batch_def SUPPORTED_BATCH_INPUT_VERSIONS_def wire_versions
      newest_spec_of_version_def zk_spec_id_def sample_meta_def validate_block_sequence_def validate_expected_tree_roots_def
      validate_atlas_v4_block_invariants_def sample_revm_def sample_block_def windows2_def)

lemma sample_blake_other: "length bs \<notin> {64, 72} \<Longrightarrow> cr_blake2s sample_crypto bs = 7"
  by (simp add: sample_crypto_def sample_digest_def)

lemma sample_ring_commitment: "length ring = 256 \<Longrightarrow> ring_commitment sample_crypto ring = 7"
  by (simp add: ring_commitment_def block_hashes_blake_def ring_preimage_def sample_blake_other length_concat sum_list_triv comp_def)

lemma sample_ring: "verify_block_hashes_blake_before sample_crypto sample_meta sample_block = Ok (replicate 256 0)"
  using sample_ring_commitment [of "replicate 256 0"]
  by (simp add: verify_block_hashes_blake_before_def sample_block_def reconstruct_ring_def ring_commitment_def sample_meta_def)

definition sample_state :: chain_state where
  "sample_state = \<lparr>cs_tree = sample_tree, cs_history = \<lambda>_. 0, cs_number = 0, cs_timestamp = 9\<rparr>"

lemma sample_ring_window: "ring_window (cs_history sample_state) n = replicate 256 0"
  by (simp add: ring_window_def sample_state_def map_replicate_const)

lemma sample_wf_chain: "wf_chain sample_state"
  by (simp add: wf_chain_def sample_state_def sample_tree_wf) (simp add: sample_tree_def)

lemma sample_preimages: "meta_preimage sample_meta = state_preimage sample_crypto sample_state"
  by (simp add: meta_preimage_def state_preimage_def sample_ring_window sample_ring_commitment)
     (simp add: sample_state_def sample_meta_def sample_root, simp add: sample_tree_def)

lemma sample_collision_free: "collision_free sample_crypto sample_state sample_batch"
proof -
  have "cs_tree sample_state = sample_tree" by (simp add: sample_state_def)
  moreover have "reconstruct_ring (bi_number (hd (in_blocks sample_batch))) (bi_block_hashes (hd (in_blocks sample_batch))) = replicate 256 0"
    by (simp add: sample_batch_def sample_block_def reconstruct_ring_def)
  moreover have "in_batch_meta sample_batch = sample_meta" "bm_tree_update sample_meta = None"
    by (simp_all add: sample_batch_def sample_meta_def)
  ultimately show ?thesis
    using sample_batch_binding unfolding collision_free_def sample_ring_window by (simp add: sample_preimages)
qed

definition sample_result :: block_result where
  "sample_result = \<lparr>br_block_number = 1, br_computed_block_header_hash =
     compute_block_header_hash sample_crypto
      (block_header_args sample_block 0 0 0
        \<lparr>bx_tx_results = [], bx_tx_hashes = [], bx_receipt_leaves = [], bx_l2_to_l1_logs = [],
         bx_state_effects = \<lparr>se_storage_writes = [], se_destroyed_accounts = [], se_deployed_accounts = []\<rparr>\<rparr>),
     br_tx_results = [], br_l2_to_l1_logs = []\<rparr>"

lemma sample_pre_batch: "pre_batch_block_hashes (replicate 256 0) f = Map.empty"
  using pre_batch_lookup [of "replicate 256 0" f] by (auto simp: fun_eq_iff nat_less_iff)

lemma sample_execute:
  "execute_block_proven sample_crypto sample_crates sample_revm 270 AtlasV1 sample_block None False
     \<lparr>cd_db = set_block_hashes Map.empty sample_db, cd_accounts = []\<rparr> =
   Ok ((sample_result, \<lparr>se_storage_writes = [], se_destroyed_accounts = [], se_deployed_accounts = []\<rparr>),
     \<lparr>cd_db = set_block_hashes Map.empty sample_db, cd_accounts = []\<rparr>)"
  by (simp add: execute_block_proven_def sample_revm_def parent_hash_of_def block_hash_ref_def set_block_hashes_def
      run_evm_block_def initial_evm_loop_def header_roots_def transactions_rolling_hash_def net_storage_writes_def
      merge_pre_block_write_def sample_result_def Let_def)
     (simp add: sample_block_def)

definition sample_loop :: batch_loop where
  "sample_loop = \<lparr>lp_cache = \<lparr>cd_db = insert_block_hash 1 (result_hash sample_result) (set_block_hashes Map.empty sample_db), cd_accounts = []\<rparr>,
     lp_block_results = [sample_result], lp_computed_block_hashes = [1 \<mapsto> result_hash sample_result],
     lp_storage_writes = [], lp_destroyed_accounts = [], lp_deployed_accounts = []\<rparr>"

lemma sample_run_blocks:
  "run_blocks sample_crypto sample_crates sample_revm sample_batch AtlasV1 sample_db (replicate 256 0) = Ok sample_loop"
proof -
  have [simp]: "bi_number sample_block = 1" "bi_block_hashes sample_block = []" by (simp_all add: sample_block_def)
  have "sc_is_enabled_in sample_revm AtlasV4 AtlasV1 = False" by (simp add: sample_revm_def)
  then show ?thesis
    by (simp add: run_blocks_def sample_batch_def sample_meta_def sample_pre_batch new_cache_db_def run_block_def
        verify_intra_batch_hashes_def initial_loop_def sample_execute sample_loop_def Let_def)
qed

lemma sample_post_state: "verify_post_state sample_crypto sample_meta sample_loop = Ok (2064, 3)"
  by (simp add: verify_post_state_def build_revm_write_map_def collect_map_def storage_write_map_def sample_loop_def
      verify_tree_update_def sample_meta_def)

lemma sample_run:
  "\<exists>r. execute_and_commit_inner sample_crypto sample_crates sample_revm sample_batch = Ok r \<and>
     bc_state_before r = state_hash sample_crypto sample_state"
proof -
  have in_: "in_blocks sample_batch = [sample_block]" "in_batch_meta sample_batch = sample_meta" by (simp_all add: sample_batch_def)
  have meta: "bm_upgrade_tx_hash sample_meta = 0" "bm_da_commitment_scheme sample_meta = 0" "bi_transactions sample_block = []"
    "bi_number sample_block = 1" by (simp_all add: sample_meta_def sample_block_def)
  have res: "lp_block_results sample_loop = [sample_result]" "br_l2_to_l1_logs sample_result = []"
    by (simp_all add: sample_loop_def sample_result_def)
  let ?hist = "(\<lambda>_. 0)(1 := result_hash sample_result)"
  have w: "replicate 256 0 = ring_window ?hist (uint (1 :: u64))"
    by (rule nth_equalityI) (simp_all add: ring_window_nth)
  obtain blake where "reconstruct_block_hashes_blake_after sample_crypto 1 1 (replicate 256 0) (lp_computed_block_hashes sample_loop)
      (result_hash sample_result) = Ok blake"
    using ring_after_window [OF w, of 1 "lp_computed_block_hashes sample_loop" "result_hash sample_result" sample_crypto] by auto
  moreover have "count_transactions sample_crypto abi 0 [sample_block] = Ok \<lparr>ct_l1_tx_hashes = [], ct_num_l1_txs = 0, ct_num_l2_txs = 0, ct_num_upgrade_txs = 0,
               ct_interop_roots_rolling_hash = 0\<rparr>" for abi
    by (simp add: count_transactions_def meta)
  moreover obtain root where "l2_to_l1_logs_root sample_crypto [] = Ok root" using l2_to_l1_logs_root_eq [of sample_crypto "[]"] by simp
  moreover have "\<not> sc_is_enabled_in sample_revm AtlasV3 AtlasV1" "\<not> sc_is_enabled_in sample_revm AtlasV4 AtlasV1" by (simp_all add: sample_revm_def)
  ultimately show ?thesis
    using sample_preimages
    by (simp add: execute_and_commit_inner_def sample_resolve sample_build run_execution_and_commit_def in_ sample_ring
      sample_run_blocks sample_post_state meta res derive_interop_def logs_root_hash_def da_commitment_def Let_def
      state_hash_def state_commitment_hash_def meta_preimage_def)
qed

section \<open>Claims on the batch\<close>

text \<open>
  C1. The executor refines the batch step on chain states. If the batch commits and the state
  commitment it starts from is the hash of a well-formed chain state, then the state commitment it
  ends with is the hash of a well-formed chain state that the batch step reaches from it: the
  blocks ran on reads of the old tree, exactly the writes they left went into the new tree, every
  block header seals the hash of the block before it, and number and timestamp have advanced.
  The conditions are that no two of the listed messages collide, that block numbers and leaf
  counts stay below 64 bits and that REVM does not write to the database it wraps.
\<close>

theorem batch_refines:
  assumes run: "execute_and_commit_inner c cr rv inp = Ok r" and prev: "bc_state_before r = state_hash c s"
    and wf: "wf_chain s" and cf: "collision_free c s inp" and bounds: "within_bounds s inp" and keeps: "keeps_db rv"
  shows "\<exists>s'. bc_state_after r = state_hash c s' \<and> wf_chain s' \<and>
    batch_step c cr rv inp (bo_block_results (bc_output r)) s s'"
proof -
  let ?meta = "in_batch_meta inp" and ?first = "hd (in_blocks inp)" and ?last = "last (in_blocks inp)"
  obtain spec db where spec: "resolve_spec_and_validate rv inp = Ok spec" and db: "build_proven_db c inp = Ok db"
    and ex: "run_execution_and_commit c cr rv inp spec db = Ok r"
    using run by (auto simp: execute_and_commit_inner_def)
  obtain ring lp root n blake where
    ring: "verify_block_hashes_blake_before c ?meta ?first = Ok ring"
    and blocks: "run_blocks c cr rv inp spec db ring = Ok lp"
    and post: "verify_post_state c ?meta lp = Ok (root, n)"
    and blake: "reconstruct_block_hashes_blake_after c (bi_number ?first) (bi_number ?last) ring
       (lp_computed_block_hashes lp) (result_hash (last (lp_block_results lp))) = Ok blake"
    and before: "bc_state_before r = state_commitment_hash c (bm_tree_root_before ?meta) (bm_leaf_count_before ?meta)
       (bm_block_number_before ?meta) (bm_block_hashes_blake_before ?meta) (bm_last_block_timestamp_before ?meta)"
    and after: "bc_state_after r = state_commitment_hash c root n (bi_number ?last) blake (bi_timestamp ?last)"
    and res: "bo_block_results (bc_output r) = lp_block_results lp"
    using run_execution_parts [OF ex] by (metis batch_output.select_convs(2))
  note v = resolve_validates [OF spec]
  have ne: "in_blocks inp \<noteq> []" by (rule validate_block_sequenceD(1) [OF v])
  note fs = state_fields [OF prev before conjunct1 [OF cf [unfolded collision_free_def]]]
  have no: "no_number_overflow inp" using bounds fs(3) by (simp add: no_number_overflow_def within_bounds_def)
  have uf: "uint (bi_number ?first) = uint (cs_number s) + 1"
    and ul: "uint (bi_number ?last) = uint (cs_number s) + int (length (in_blocks inp))"
    using first_last_number [OF v no] fs(3) by simp_all
  have rw: "ring = ring_window (cs_history s) (uint (bi_number ?first))"
    by (rule ring_of_state [OF ring _ uf [symmetric]]) (use fs(5) cf in \<open>simp_all add: collision_free_def\<close>)
  obtain T' writes where T': "wf_tree T'" "root = tree_root c T'" "n = of_nat (length T')" "length T' < 2 ^ 64"
      "tree_map T' = tree_map (cs_tree s) ++ map_of writes" "required_writes c ?meta lp = Ok writes"
    using post_state_refines [OF post _ fs(1,2)] wf cf bounds by (auto simp: wf_chain_def collision_free_def within_bounds_def)
  define hist' where "hist' = extend_history (cs_history s) (uint (cs_number s) + 1) (map result_hash (lp_block_results lp))"
  define s' where "s' = \<lparr>cs_tree = T', cs_history = hist', cs_number = bi_number ?last, cs_timestamp = bi_timestamp ?last\<rparr>"
  have "blake = ring_commitment c (ring_window hist' (uint (bi_number ?last) + 1))"
    using ring_advances [OF v no blocks [unfolded rw] refl refl] wf blake
    by (simp add: rw hist'_def uf wf_chain_def)
  then have "bc_state_after r = state_hash c s'"
    by (simp add: after s'_def state_hash_def state_preimage_def state_commitment_hash_def T')
  moreover have "wf_chain s'"
    using T' wf by (auto simp: wf_chain_def s'_def hist'_def intro!: extend_history_genesis)
  moreover have "reads_faithful c (cs_tree s) db"
    by (rule reads_of_state [OF db _ _ fs(1)]) (use wf cf in \<open>simp_all add: wf_chain_def collision_free_def\<close>)
  then have "\<exists>spec db lp writes. resolve_spec_and_validate rv inp = Ok spec \<and> build_proven_db c inp = Ok db \<and>
      reads_faithful c (cs_tree s) db \<and>
      run_blocks c cr rv inp spec db (ring_window (cs_history s) (uint (cs_number s) + 1)) = Ok lp \<and>
      bo_block_results (bc_output r) = lp_block_results lp \<and> required_writes c ?meta lp = Ok writes \<and>
      tree_map (cs_tree s') = tree_map (cs_tree s) ++ map_of writes"
    using spec db blocks [unfolded rw uf] res T'(5,6) by (auto simp: s'_def)
  then have "batch_step c cr rv inp (bo_block_results (bc_output r)) s s'"
    using batch_history [OF keeps v no refl blocks [unfolded rw]] block_timestamps(2) [OF v, of "length (in_blocks inp) - 1"]
      run_blocksD(3) [OF blocks] ne ul fs(4)
    by (simp add: batch_step_def s'_def res hist'_def uf last_conv_nth)
  ultimately show ?thesis by blast
qed

theorem batch_refines_witness:
  "\<exists>r s'. execute_and_commit_inner sample_crypto sample_crates sample_revm sample_batch = Ok r \<and>
     bc_state_after r = state_hash sample_crypto s' \<and> wf_chain s' \<and>
     batch_step sample_crypto sample_crates sample_revm sample_batch (bo_block_results (bc_output r)) sample_state s'"
proof -
  obtain r where r: "execute_and_commit_inner sample_crypto sample_crates sample_revm sample_batch = Ok r"
      "bc_state_before r = state_hash sample_crypto sample_state"
    using sample_run by blast
  have "within_bounds sample_state sample_batch"
    by (simp add: within_bounds_def sample_state_def sample_batch_def sample_meta_def)
  then show ?thesis
    using batch_refines [OF r sample_wf_chain sample_collision_free _ sample_keeps_db] r(1) by blast
qed

text \<open>
  C9. The streaming entry point accepts exactly what the collecting one accepts, with the same
  output and commitment. The hypothesis is that the encoding leads with the version, as bincode's
  positional encoding of a struct does.
\<close>

theorem streaming_is_collecting:
  assumes "version_leads bc data"
  shows "execute_and_commit_streaming c cr rv bc data = Ok r \<longleftrightarrow> execute_and_commit_from_bincode c cr rv bc data = Ok r"
proof -
  have "execute_and_commit_streaming c cr rv bc data = Ok r \<longleftrightarrow>
    (\<exists>inp db spec x. decode_batch_input bc data = Ok inp \<and> build_proven_db c inp = Ok db \<and>
       resolve_spec_and_validate rv inp = Ok spec \<and>
       run_execution_and_commit c cr rv (strip_proofs inp) spec db = Ok x \<and> r = (bc_output x, bc_commitment x))"
    using stream_equiv [OF assms, of c] by (auto simp: execute_and_commit_streaming_def resolve_strip)
  also have "\<dots> \<longleftrightarrow> (\<exists>inp db spec x. decode_batch_input bc data = Ok inp \<and> build_proven_db c inp = Ok db \<and>
       resolve_spec_and_validate rv inp = Ok spec \<and>
       run_execution_and_commit c cr rv inp spec db = Ok x \<and> r = (bc_output x, bc_commitment x))"
    using run_strip validate_block_sequenceD(1) [OF resolve_validates] by metis
  also have "\<dots> \<longleftrightarrow> execute_and_commit_from_bincode c cr rv bc data = Ok r"
    by (auto simp: execute_and_commit_from_bincode_def execute_and_commit_def execute_and_commit_inner_def)
  finally show ?thesis .
qed

definition sample_bincode :: "unit bincode" where
  "sample_bincode = \<lparr>bc_u32 = \<lambda>_. Ok 6, bc_v3 = \<lambda>_. Err (), bc_v5 = \<lambda>_. Err (), bc_current = \<lambda>_. Ok sample_batch\<rparr>"

lemma sample_version_leads: "version_leads sample_bincode []"
  by (simp add: version_leads_def sample_bincode_def sample_batch_def)

lemma sample_decode: "decode_batch_input sample_bincode [] = Ok sample_batch"
  by (simp add: decode_batch_input_def batch_input_version_def sample_bincode_def wire_versions)

theorem streaming_is_collecting_witness:
  "\<exists>r. execute_and_commit_streaming sample_crypto sample_crates sample_revm sample_bincode [] = Ok r"
proof -
  obtain r where "execute_and_commit_inner sample_crypto sample_crates sample_revm sample_batch = Ok r"
    using sample_run by blast
  then have "execute_and_commit_from_bincode sample_crypto sample_crates sample_revm sample_bincode [] =
      Ok (bc_output r, bc_commitment r)"
    by (simp add: execute_and_commit_from_bincode_def sample_decode execute_and_commit_def)
  then show ?thesis using streaming_is_collecting [OF sample_version_leads] by blast
qed

text \<open>
  In a validated batch the block numbers are consecutive from the number before the batch
  on, in the wrap-around arithmetic of the code, and the timestamps never decrease, from the
  timestamp before the batch on.
\<close>

theorem block_sequence_valid:
  assumes "resolve_spec_and_validate sc inp = Ok spec" and "j < length (in_blocks inp)" and "i \<le> j"
  shows "bi_number (in_blocks inp ! j) = bm_block_number_before (in_batch_meta inp) + 1 + of_nat j \<and>
    bm_last_block_timestamp_before (in_batch_meta inp) \<le> bi_timestamp (in_blocks inp ! i) \<and>
    bi_timestamp (in_blocks inp ! i) \<le> bi_timestamp (in_blocks inp ! j)"
  using block_numbers [OF resolve_validates [OF assms(1)]] block_timestamps [OF resolve_validates [OF assms(1)]] assms(2,3)
  by simp

theorem block_sequence_valid_witness:
  "bi_number (in_blocks sample_batch ! 0) = bm_block_number_before (in_batch_meta sample_batch) + 1 + of_nat 0 \<and>
   bm_last_block_timestamp_before (in_batch_meta sample_batch) \<le> bi_timestamp (in_blocks sample_batch ! 0) \<and>
   bi_timestamp (in_blocks sample_batch ! 0) \<le> bi_timestamp (in_blocks sample_batch ! 0)"
  by (rule block_sequence_valid [OF sample_resolve]) (simp_all add: sample_batch_def)

text \<open>
  C10. The block-hash ring is authenticated: if the commitment before the batch is that of the last
  256 hashes of a history, an accepted witness ring is that window of the history, whatever hashes
  the witness lists.
\<close>

theorem ring_before_authenticated:
  assumes "verify_block_hashes_blake_before c meta block = Ok ring"
    and "bm_block_hashes_blake_before meta = ring_commitment c (ring_window hist (uint (bi_number block)))"
    and "inj_on (cr_blake2s c) {ring_bytes ring, ring_bytes (ring_window hist (uint (bi_number block)))}"
  shows "ring = ring_window hist (uint (bi_number block))"
  using assms by (rule ring_authenticated)

theorem ring_before_authenticated_witness:
  "replicate 256 0 = ring_window (cs_history sample_state) (uint (bi_number sample_block))"
  by (rule ring_before_authenticated [OF sample_ring])
     (simp_all add: sample_ring_window sample_ring_commitment, simp add: sample_meta_def)

text \<open>
  The ring after the batch: from the window before the first block and the hashes computed
  for the blocks but the last, the reconstruction returns the commitment of the window that ends
  with the last block. The hypotheses say that the computed hashes and the ring are those of one
  history, with nothing before block zero.
\<close>

theorem ring_after_reconstructed:
  assumes "before_ring = ring_window hist (uint f)" and "f \<le> l"
    and "\<And>n. f \<le> n \<Longrightarrow> n < l \<Longrightarrow> computed n = Some (hist (uint n))"
    and "\<And>n. n < 0 \<Longrightarrow> hist n = 0" and "computed_last = hist (uint l)"
  shows "reconstruct_block_hashes_blake_after c f l before_ring computed computed_last =
    Ok (ring_commitment c (ring_window hist (uint l + 1)))"
  using assms by (rule ring_after_window)

theorem ring_after_reconstructed_witness:
  "reconstruct_block_hashes_blake_after sample_crypto 1 2 (ring_window (\<lambda>n. if n < 0 then 0 else 9) (uint (1 :: u64)))
     (\<lambda>_. Some 9) 9 = Ok (ring_commitment sample_crypto (ring_window (\<lambda>n. if n < 0 then 0 else 9) (uint (2 :: u64) + 1)))"
  by (rule ring_after_reconstructed [OF refl]) simp_all

text \<open>
  C11. The transaction counters of an accepted batch: the L1 hashes in order and their number, the
  number of L2 and system transactions, and an upgrade hash that is non-zero exactly when the
  batch has one upgrade transaction, which then has this hash.
\<close>

theorem transactions_counted:
  assumes "count_transactions c abi up blocks = Ok ct" and "length (batch_auths blocks) < 2 ^ 64"
  shows "ct_l1_tx_hashes ct = l1_hashes (batch_auths blocks) \<and>
    unat (ct_num_l1_txs ct) = length (l1_hashes (batch_auths blocks)) \<and>
    unat (ct_num_l2_txs ct) = l2_count (batch_auths blocks) \<and>
    upgrade_hashes (batch_auths blocks) = (if up = 0 then [] else [up])"
  using count_transactionsD [OF assms] by blast

definition sample_tx :: "tx_auth \<Rightarrow> tx_input" where
  "sample_tx auth = \<lparr>ti_chain_id = None, ti_gas_used_override = None, ti_force_fail = False, ti_auth = auth\<rparr>"

definition sample_tx_block :: block_input where
  "sample_tx_block = sample_block\<lparr>bi_transactions := [sample_tx (L2 [1]), sample_tx (L1 4 []), sample_tx (Upgrade 8 [])]\<rparr>"

theorem transactions_counted_witness:
  "\<exists>ct. count_transactions sample_crypto WithTimestamp 8 [sample_tx_block] = Ok ct \<and> ct_l1_tx_hashes ct = [4] \<and>
     unat (ct_num_l1_txs ct) = 1 \<and> unat (ct_num_l2_txs ct) = 1"
proof -
  have auths: "batch_auths [sample_tx_block] = [L2 [1], L1 4 [], Upgrade 8 []]"
    by (simp add: batch_auths_def sample_tx_block_def sample_tx_def)
  obtain ct where "count_transactions sample_crypto WithTimestamp 8 [sample_tx_block] = Ok ct"
    by (simp add: count_transactions_def sample_tx_block_def sample_tx_def)
  then show ?thesis using transactions_counted [of sample_crypto WithTimestamp 8 "[sample_tx_block]" ct]
    by (simp add: auths l1_hashes_def l2_count_def)
qed

section \<open>Claims on one block\<close>


definition sample_l2_block :: block_input where
  "sample_l2_block = sample_block\<lparr>bi_transactions := [sample_tx (L2 [1])]\<rparr>"


text \<open>
  The EIP-2935 step writes the parent hash into the history contract exactly when that
  account is proven to be a contract, reports the write exactly when it changes the slot, and is
  never reached for block zero.
\<close>

theorem pre_block_write_branches:
  assumes "apply_pre_block_write c rv n h cache = Ok (w, cache')"
  shows "1 \<le> n \<and> (\<exists>account. basic_ref c (cd_db cache) HISTORY_STORAGE_ADDRESS = Ok account \<and>
    (if account = None \<or> \<not> history_is_contract (cd_db cache) then w = None \<and> cache' = cache
     else rv_insert_account_storage rv HISTORY_STORAGE_ADDRESS (history_slot n) h cache = Some cache' \<and>
       (\<exists>previous. rv_storage_ref rv cache HISTORY_STORAGE_ADDRESS (history_slot n) = Some previous \<and>
          w = (if previous = h then None else Some ((HISTORY_STORAGE_ADDRESS, history_slot n), h)))))"
  using pre_block_write_cases [OF assms] by blast

definition history_cache :: cache_db where
  "history_cache = sample_cache\<lparr>cd_db := sample_db\<lparr>pd_verified_accounts :=
     \<lparr>va_infos = [HISTORY_STORAGE_ADDRESS \<mapsto> Some \<lparr>ai_nonce = 1, ai_balance = 0, ai_code_hash = 7, ai_code = None\<rparr>],
      va_code_fields = [HISTORY_STORAGE_ADDRESS \<mapsto> evm_code_fields sample_crypto [0]]\<rparr>\<rparr>\<rparr>"

theorem pre_block_write_branches_witness:
  "\<exists>w. apply_pre_block_write sample_crypto sample_revm 8192 9 history_cache = Ok (w, history_cache) \<and>
     w = Some ((HISTORY_STORAGE_ADDRESS, history_slot 8192), 9) \<and> (1 :: u64) \<le> 8192"
proof -
  have contract: "history_is_contract (cd_db history_cache)"
    by (simp add: history_is_contract_def pre_state_code_fields_def history_cache_def evm_code_fields_def Let_def
        is_delegation_def versioning_def DEPLOYED_STATUS_BYTE_def DELEGATED_STATUS_BYTE_def EVM_EE_BYTE_def
        ARTIFACTS_CACHING_CODE_VERSION_def)
  obtain info where "basic_ref sample_crypto (cd_db history_cache) HISTORY_STORAGE_ADDRESS = Ok (Some info)"
    by (simp add: basic_ref_def history_cache_def)
  with contract have run: "apply_pre_block_write sample_crypto sample_revm 8192 9 history_cache =
      Ok (Some ((HISTORY_STORAGE_ADDRESS, history_slot 8192), 9), history_cache)"
    by (simp add: apply_pre_block_write_def sample_revm_def)
  then show ?thesis using pre_block_write_branches [OF run] by blast
qed

text \<open>
  The history slot of a block is its predecessor's number modulo 8191, and two blocks less
  than 8191 apart never share a slot.
\<close>

theorem history_slots_apart:
  assumes "1 \<le> m" and "m < n" and "unat n - unat m < 8191"
  shows "unat (history_slot m) = (unat m - 1) mod 8191 \<and> unat (history_slot m) < 8191 \<and> history_slot m \<noteq> history_slot n"
  using history_slot_value [OF assms(1)] history_slots_distinct [OF assms] by simp

theorem history_slots_apart_witness:
  "unat (history_slot 1) = (unat (1 :: u64) - 1) mod 8191 \<and> unat (history_slot 1) < 8191 \<and> history_slot 1 \<noteq> history_slot 8191"
  by (rule history_slots_apart) simp_all

section \<open>Claims on the interop values\<close>

text \<open>
  A derived interop root is the value the pinned tree holds at the slot its own height slot
  leads to: both reads are authenticated, the second at the slot computed from the first.
\<close>

theorem interop_root_is_read:
  assumes "wf_tree T" and "keys_nonzero c addr"
    and "binding c T (keyed_pairs c (engine_proofs c T addr hs base hp rp))
      (keyed_leaves (engine_proofs c T addr hs base hp rp))"
    and "derive_merkle_engine_root c addr hs base hp rp (tree_root c T) = Ok r"
  shows "r = engine_root c T addr hs base"
  using assms by (rule engine_root_sound)

lemma sample_keys_nonzero: "keys_nonzero sample_crypto addr"
proof -
  have "(ucast (b :: u8) :: b256) + 5 \<noteq> 0" for b
  proof
    assume "(ucast b :: b256) + 5 = 0"
    then have "(of_nat (unat b + 5) :: b256) = of_nat 0" by simp
    moreover have "unat b + 5 < 2 ^ 256" using unsigned_less [of b, where 'a = nat] by simp
    ultimately show False using of_nat_b256_inject [of "unat b + 5" 0] by simp
  qed
  then show ?thesis by (simp add: keys_nonzero_def sample_key)
qed

lemma sample_keyed_binding:
  "binding sample_crypto sample_tree (keyed_pairs sample_crypto [(5, Existing (honest_entry sample_crypto sample_tree 2))])
     (keyed_leaves [(5, Existing (honest_entry sample_crypto sample_tree 2))])"
  using sample_batch_binding by (simp add: batch_proofs_def sample_batch_def sample_block_def)

text \<open>The sample proof answers both reads when the height is read at slot 0 and the nodes start at slot 0.\<close>

theorem interop_root_is_read_witness: "(7 :: b256) = engine_root sample_crypto sample_tree 3 0 0"
proof (rule interop_root_is_read [OF sample_tree_wf sample_keys_nonzero])
  let ?pf = "Existing (honest_entry sample_crypto sample_tree 2)"
  have key: "derive_flat_storage_key sample_crypto 3 0 = 5" by (simp add: sample_key)
  have slot: "nodes_root_slot sample_crypto 0 h = 0" for h by (simp add: nodes_root_slot_def sample_crypto_def)
  show "binding sample_crypto sample_tree (keyed_pairs sample_crypto (engine_proofs sample_crypto sample_tree 3 0 0 ?pf ?pf))
      (keyed_leaves (engine_proofs sample_crypto sample_tree 3 0 0 ?pf ?pf))"
    using sample_keyed_binding by (simp add: engine_proofs_def slot key keyed_pairs_def keyed_leaves_def)
  show "derive_merkle_engine_root sample_crypto 3 0 0 ?pf ?pf (tree_root sample_crypto sample_tree) = Ok 7"
    by (simp add: derive_merkle_engine_root_def slot key verify_slot_def sample_recover sample_root or_zero_def)
qed

text \<open>
  The derived settlement-layer chain id is the value the pinned tree holds at slot 0 of the
  system context, and fits in 64 bits.
\<close>

theorem settlement_chain_is_read:
  assumes "wf_tree T" and "derive_flat_storage_key c SYSTEM_CONTEXT_ADDRESS 0 \<noteq> 0"
    and "binding c T (keyed_pairs c [(derive_flat_storage_key c SYSTEM_CONTEXT_ADDRESS 0, pf)])
      (keyed_leaves [(derive_flat_storage_key c SYSTEM_CONTEXT_ADDRESS 0, pf)])"
    and "derive_sl_chain_id c pf (tree_root c T) = Ok n"
  shows "ucast n = tree_read c T SYSTEM_CONTEXT_ADDRESS 0"
  using assms by (rule sl_chain_id_sound)

theorem settlement_chain_is_read_witness: "ucast (7 :: u64) = tree_read sample_crypto sample_tree SYSTEM_CONTEXT_ADDRESS 0"
proof (rule settlement_chain_is_read [OF sample_tree_wf])
  have key: "derive_flat_storage_key sample_crypto SYSTEM_CONTEXT_ADDRESS 0 = 5" by (simp add: sample_key)
  show "derive_flat_storage_key sample_crypto SYSTEM_CONTEXT_ADDRESS 0 \<noteq> 0" by (simp add: key)
  let ?pf = "Existing (honest_entry sample_crypto sample_tree 2)"
  show "binding sample_crypto sample_tree
      (keyed_pairs sample_crypto [(derive_flat_storage_key sample_crypto SYSTEM_CONTEXT_ADDRESS 0, ?pf)])
      (keyed_leaves [(derive_flat_storage_key sample_crypto SYSTEM_CONTEXT_ADDRESS 0, ?pf)])"
    unfolding key by (rule sample_keyed_binding)
  show "derive_sl_chain_id sample_crypto ?pf (tree_root sample_crypto sample_tree) = Ok 7"
    by (simp add: derive_sl_chain_id_def key verify_slot_def sample_recover sample_root or_zero_def)
       (simp add: be_bytes_def le_bytes_def of_be_bytes_def upt_rec)
qed

end
