(* ===== verification/Aggregator.thy ===== *)
theory Aggregator
  imports Hash_Backend
begin

text \<open>
  The proof aggregator: the parsing, validation and commitment library of
  \<open>guest-aggregator/src/lib.rs\<close>, the guest program of \<open>guest-aggregator/src/main.rs\<close> and the host
  side that assembles its input (\<open>prover/src/aggregator_input.rs\<close>). Parameters: the zkVM's slice
  reads, its proof verifier, Keccak-256, and the address of a frame, of which \<open>align_to\<close> looks at
  the residue modulo eight.
\<close>

section \<open>Stream layout\<close>

definition HEADER_WORDS :: nat where "HEADER_WORDS = 2"
definition PROGRAM_VK_WORDS :: nat where "PROGRAM_VK_WORDS = 4"
definition PUBLICS_WORDS :: nat where "PUBLICS_WORDS = 64"
definition VADCOP_VK_WORDS :: nat where "VADCOP_VK_WORDS = 4"
definition HASH_TAG_WORDS :: nat where "HASH_TAG_WORDS = 1"
definition EXPECTED_HASH_TAG :: u64 where "EXPECTED_HASH_TAG = 0"
definition COMMITMENT_WORDS :: nat where "COMMITMENT_WORDS = 8"
definition LEAF_FLAG_WORDS :: nat where "LEAF_FLAG_WORDS = 1"
definition IS_VADCOP_FINAL_PROOF :: u64 where "IS_VADCOP_FINAL_PROOF = 1"
definition EXPECTED_N_PUBLICS :: u64 where
  "EXPECTED_N_PUBLICS = of_nat (LEAF_FLAG_WORDS + PROGRAM_VK_WORDS + PUBLICS_WORDS)"
definition VADCOP_FINAL_BODY_WORDS :: nat where "VADCOP_FINAL_BODY_WORDS = 46141"
definition PROOF_STREAM_WORDS :: nat where
  "PROOF_STREAM_WORDS = HEADER_WORDS + LEAF_FLAG_WORDS + PROGRAM_VK_WORDS + PUBLICS_WORDS +
     VADCOP_FINAL_BODY_WORDS + VADCOP_VK_WORDS + HASH_TAG_WORDS"

lemmas stream_layout = HEADER_WORDS_def PROGRAM_VK_WORDS_def PUBLICS_WORDS_def VADCOP_VK_WORDS_def
  HASH_TAG_WORDS_def COMMITMENT_WORDS_def LEAF_FLAG_WORDS_def VADCOP_FINAL_BODY_WORDS_def PROOF_STREAM_WORDS_def

datatype agg_error =
  Misaligned
| BadCountFrame nat
| NoProofs
| WrongLength nat
| MinimalProof u64
| BadPublicsCount u64
| BadHashTag u64
| NotALeafProof u64
| ProgramVkMismatch
| VadcopVkMismatch

section \<open>Parsing\<close>

definition parse_count_frame :: "bytes \<Rightarrow> (agg_error, nat) result" where
  "parse_count_frame bytes =
     rbind (ensure (length bytes = 8) (BadCountFrame (length bytes))) (\<lambda>_.
     let n = unat (of_le_bytes bytes :: u64)
     in if n = 0 then Err NoProofs else Ok n)"

fun chunks8 :: "bytes \<Rightarrow> bytes list" where
  "chunks8 (a # b # c # d # e # f # g # h # bs) = [a, b, c, d, e, f, g, h] # chunks8 bs"
| "chunks8 bs = []"

definition words_from_bytes :: "nat \<Rightarrow> bytes \<Rightarrow> (agg_error, u64 list) result" where
  "words_from_bytes address bytes =
     (if (address mod 8 = 0 \<or> bytes = []) \<and> length bytes mod 8 = 0 then Ok (map of_le_bytes (chunks8 bytes))
      else Err Misaligned)"

type_synonym proof_frame = "u64 list"

definition frame_parse :: "u64 list \<Rightarrow> (agg_error, proof_frame) result" where
  "frame_parse words =
     (if length words \<noteq> PROOF_STREAM_WORDS then Err (WrongLength (length words))
      else if words ! 0 \<noteq> 0 then Err (MinimalProof (words ! 0))
      else if words ! 1 \<noteq> EXPECTED_N_PUBLICS then Err (BadPublicsCount (words ! 1))
      else let tag = words ! (PROOF_STREAM_WORDS - HASH_TAG_WORDS)
           in if tag \<noteq> EXPECTED_HASH_TAG then Err (BadHashTag tag)
              else if words ! HEADER_WORDS \<noteq> IS_VADCOP_FINAL_PROOF then Err (NotALeafProof (words ! HEADER_WORDS))
              else Ok words)"

definition frame_program_vk :: "proof_frame \<Rightarrow> u64 list" where
  "frame_program_vk words = take PROGRAM_VK_WORDS (drop (HEADER_WORDS + LEAF_FLAG_WORDS) words)"

definition frame_vadcop_vk :: "proof_frame \<Rightarrow> u64 list" where
  "frame_vadcop_vk words =
     (let stop = length words - HASH_TAG_WORDS in take VADCOP_VK_WORDS (drop (stop - VADCOP_VK_WORDS) words))"

definition frame_hash_tag :: "proof_frame \<Rightarrow> u64" where
  "frame_hash_tag words = words ! (length words - HASH_TAG_WORDS)"

definition frame_publics :: "proof_frame \<Rightarrow> u64 list" where
  "frame_publics words = take PUBLICS_WORDS (drop (HEADER_WORDS + LEAF_FLAG_WORDS + PROGRAM_VK_WORDS) words)"

definition frame_commitment :: "proof_frame \<Rightarrow> bytes" where
  "frame_commitment words =
     concat (map (\<lambda>w. le_bytes 4 (ucast w :: u32)) (take COMMITMENT_WORDS (frame_publics words)))"

section \<open>The range public input\<close>

definition shr32 :: "bytes \<Rightarrow> bytes" where
  "shr32 word = zeros 4 @ take 28 word"

fun range_public_input :: "crypto \<Rightarrow> bytes list \<Rightarrow> (agg_error, bytes) result" where
  "range_public_input c [] = Err NoProofs"
| "range_public_input c [single] = Ok (shr32 single)"
| "range_public_input c (a # b # rest) = Ok (shr32 (bytes32 (cr_keccak256 c (concat (a # b # rest)))))"

section \<open>Aggregation\<close>

record aggregator =
  ag_vks :: "(u64 list \<times> u64 list) option"
  ag_batch_public_inputs :: "bytes list"

definition aggregator_new :: aggregator where
  "aggregator_new = \<lparr>ag_vks = None, ag_batch_public_inputs = []\<rparr>"

definition ingest :: "proof_frame \<Rightarrow> aggregator \<Rightarrow> (agg_error, aggregator) result" where
  "ingest frame ag =
     rbind (case ag_vks ag of
              None \<Rightarrow> Ok (Some (frame_program_vk frame, frame_vadcop_vk frame))
            | Some (pvk, vvk) \<Rightarrow>
                if frame_program_vk frame \<noteq> pvk then Err ProgramVkMismatch
                else if frame_vadcop_vk frame \<noteq> vvk then Err VadcopVkMismatch
                else Ok (Some (pvk, vvk))) (\<lambda>vks.
     Ok \<lparr>ag_vks = vks, ag_batch_public_inputs = ag_batch_public_inputs ag @ [frame_commitment frame]\<rparr>)"

definition binding_preimage :: "u64 list \<Rightarrow> u64 list \<Rightarrow> bytes \<Rightarrow> bytes" where
  "binding_preimage program_vk vadcop_vk range_pi =
     concat (map u64_be program_vk) @ concat (map u64_be vadcop_vk) @ range_pi"

definition finalize :: "crypto \<Rightarrow> aggregator \<Rightarrow> (agg_error, bytes) result" where
  "finalize c ag =
     rbind (ok_or (ag_vks ag) NoProofs) (\<lambda>(program_vk, vadcop_vk).
     rbind (range_public_input c (ag_batch_public_inputs ag)) (\<lambda>range_pi.
     Ok (bytes32 (cr_keccak256 c (binding_preimage program_vk vadcop_vk range_pi)))))"

section \<open>The guest\<close>

datatype agg_panic =
  CountFramePanic agg_error
| ProofPanic nat agg_error
| VerificationFailed nat
| FinalizePanic agg_error

text \<open>\<open>read_slice\<close> of the zkVM: the address and the bytes of the i-th input slice.\<close>

type_synonym slices = "nat \<Rightarrow> nat \<times> bytes"

definition read_frame :: "nat \<times> bytes \<Rightarrow> (agg_error, proof_frame) result" where
  "read_frame = (\<lambda>(address, bytes). rbind (words_from_bytes address bytes) frame_parse)"

definition aggregate_one ::
  "(u64 list \<Rightarrow> u64 list \<Rightarrow> u64 list \<Rightarrow> bool) \<Rightarrow> slices \<Rightarrow> nat \<Rightarrow> aggregator \<Rightarrow> (agg_panic, aggregator) result" where
  "aggregate_one verify_zisk_proof read_slice i ag =
     rbind (map_err (ProofPanic i) (read_frame (read_slice (Suc i)))) (\<lambda>frame.
     rbind (map_err (ProofPanic i) (ingest frame ag)) (\<lambda>ag'.
     rbind (ensure (verify_zisk_proof frame (frame_vadcop_vk frame) (frame_program_vk frame)) (VerificationFailed i)) (\<lambda>_.
     Ok ag')))"

definition aggregator_main ::
  "crypto \<Rightarrow> (u64 list \<Rightarrow> u64 list \<Rightarrow> u64 list \<Rightarrow> bool) \<Rightarrow> slices \<Rightarrow> (agg_panic, bytes) result" where
  "aggregator_main c verify_zisk_proof read_slice =
     rbind (map_err CountFramePanic (parse_count_frame (snd (read_slice 0)))) (\<lambda>n.
     rbind (foldR (aggregate_one verify_zisk_proof read_slice) [0..<n] aggregator_new) (\<lambda>ag.
     map_err FinalizePanic (finalize c ag)))"

section \<open>The host side\<close>

definition div_ceil8 :: "nat \<Rightarrow> nat" where
  "div_ceil8 n = (n + 7) div 8"

definition encode_frame :: "bytes \<Rightarrow> bytes" where
  "encode_frame payload =
     (let padded_len = div_ceil8 (length payload) * 8
      in u64_le (of_nat (length payload)) @ payload @ zeros (padded_len - length payload))"

datatype frame_error = TruncatedPrefix nat | PastEnd nat nat | SlicePanic

function decode_frames_from :: "bytes \<Rightarrow> nat \<Rightarrow> (frame_error, bytes list) result" where
  "decode_frames_from bytes pos =
     (if length bytes \<le> pos then Ok []
      else if length bytes < pos + 8 then Err (TruncatedPrefix pos)
      else let len = unat (of_le_bytes (take 8 (drop pos bytes)) :: u64); start = pos + 8
           in if length bytes < uadd start len then Err (PastEnd start len)
              else if uadd start len < start then Err SlicePanic
              else rbind (decode_frames_from bytes (start + div_ceil8 len * 8)) (\<lambda>rest.
                   Ok (take len (drop start bytes) # rest)))"
  by auto
termination by (relation "measure (\<lambda>(bytes, pos). length bytes - pos)") auto

definition decode_frames :: "bytes \<Rightarrow> (frame_error, bytes list) result" where
  "decode_frames bytes = decode_frames_from bytes 0"

datatype assemble_error = NoStreams | StreamError nat agg_error

definition assemble :: "(nat \<times> bytes) list \<Rightarrow> (assemble_error, bytes) result" where
  "assemble streams =
     rbind (ensure (streams \<noteq> []) NoStreams) (\<lambda>_.
     rbind (foldR (\<lambda>(i, stream) ag.
              rbind (map_err (StreamError i) (read_frame stream)) (\<lambda>frame.
              map_err (StreamError i) (ingest frame ag))) (enumerate 0 streams) aggregator_new) (\<lambda>_.
     Ok (foldl (\<lambda>out stream. out @ encode_frame (snd stream))
           (encode_frame (u64_le (of_nat (length streams)))) streams)))"

section \<open>Words and bytes\<close>

lemma chunks8_append: "length xs = 8 \<Longrightarrow> chunks8 (xs @ ys) = xs # chunks8 ys"
  by (auto simp: length_Suc_conv numeral_eq_Suc)

lemma chunks8_words: "chunks8 (concat (map u64_le ws)) = map u64_le ws"
  by (induction ws) (simp_all add: chunks8_append)

lemma length_words: "length (concat (map u64_le ws)) = 8 * length ws"
  by (induction ws) simp_all

lemma words_from_word_bytes:
  "address mod 8 = 0 \<Longrightarrow> words_from_bytes address (concat (map u64_le ws)) = Ok ws"
  by (simp add: words_from_bytes_def chunks8_words length_words comp_def)

section \<open>The range public input is the settlement layer's fold\<close>

lemma of_le_bytes_drop:
  "of_le_bytes (drop n bs) = drop_bit (8 * n) (of_le_bytes bs :: 'a::len word)" if "8 * length bs \<le> LENGTH('a)"
proof (rule bit_word_eqI)
  fix k assume k: "k < LENGTH('a)"
  have e: "(8 * n + k) div 8 = n + k div 8" "(8 * n + k) mod 8 = k mod 8" by simp_all
  show "bit (of_le_bytes (drop n bs) :: 'a word) k = bit (drop_bit (8 * n) (of_le_bytes bs :: 'a word)) k"
  proof (cases "n + k div 8 < length bs")
    case True
    then have "8 * n + k < LENGTH('a)" using that by auto
    then show ?thesis using True k by (auto simp: bit_of_le_bytes bit_drop_bit_eq e add.commute)
  next
    case False
    then show ?thesis by (simp add: bit_of_le_bytes bit_drop_bit_eq e) (auto simp: less_diff_conv add.commute)
  qed
qed

lemma of_le_bytes_zeros: "of_le_bytes (bs @ zeros n) = (of_le_bytes bs :: 'a::len word)"
proof -
  have "of_le_bytes (zeros n) = (0 :: 'a word)" by (induction n) (simp_all add: zeros_def)
  then show ?thesis by (induction bs) simp_all
qed

lemma shr32_value:
  assumes "length w = 32"
  shows "(of_be_bytes (shr32 w) :: u256) = drop_bit 32 (of_be_bytes w)"
proof -
  have "rev (take 28 w) = drop 4 (rev w)" using assms by (simp add: rev_take)
  then have "(of_be_bytes (shr32 w) :: u256) = of_le_bytes (drop 4 (rev w) @ zeros 4)"
    by (simp add: of_be_bytes_def shr32_def zeros_def)
  then show ?thesis using of_le_bytes_drop [of "rev w" 4, where 'a = 256] assms
    by (simp add: of_le_bytes_zeros of_be_bytes_def)
qed

text \<open>\<open>computeZKsyncOSHash(0, publicInputs)\<close> on big-endian numbers.\<close>

definition folded_inputs :: "crypto \<Rightarrow> bytes list \<Rightarrow> u256" where
  "folded_inputs c pis = (case pis of [single] \<Rightarrow> of_be_bytes single | _ \<Rightarrow> cr_keccak256 c (concat pis))"

lemma range_public_input_value:
  assumes "range_public_input c pis = Ok r" and "\<forall>p \<in> set pis. length p = 32"
  shows "length r = 32" and "(of_be_bytes r :: u256) = drop_bit 32 (folded_inputs c pis)"
proof -
  have "\<exists>w. length w = 32 \<and> r = shr32 w \<and> (of_be_bytes w :: u256) = folded_inputs c pis"
  proof (cases "(c, pis)" rule: range_public_input.cases)
    case (3 c' a b rest)
    then show ?thesis using assms
      by (intro exI [of _ "bytes32 (cr_keccak256 c (concat pis))"]) (auto simp: folded_inputs_def)
  qed (use assms in \<open>auto simp: folded_inputs_def\<close>)
  then obtain w where w: "length w = 32" "r = shr32 w" "(of_be_bytes w :: u256) = folded_inputs c pis" by blast
  show "length r = 32" using w(1) by (simp add: w(2) shr32_def)
  show "(of_be_bytes r :: u256) = drop_bit 32 (folded_inputs c pis)" by (simp add: w shr32_value)
qed

section \<open>Shared keys\<close>

definition frame_keys :: "proof_frame \<Rightarrow> u64 list \<times> u64 list" where
  "frame_keys f = (frame_program_vk f, frame_vadcop_vk f)"

lemma ingest_Ok_iff:
  "ingest f ag = Ok ag' \<longleftrightarrow> (ag_vks ag = None \<or> ag_vks ag = Some (frame_keys f)) \<and>
     ag' = \<lparr>ag_vks = Some (frame_keys f), ag_batch_public_inputs = ag_batch_public_inputs ag @ [frame_commitment f]\<rparr>"
  by (auto simp: ingest_def frame_keys_def split: option.splits if_splits)

lemma ingest_all_from:
  "foldR ingest fs \<lparr>ag_vks = Some k, ag_batch_public_inputs = pis\<rparr> = Ok ag \<longleftrightarrow>
     (\<forall>f \<in> set fs. frame_keys f = k) \<and>
     ag = \<lparr>ag_vks = Some k, ag_batch_public_inputs = pis @ map frame_commitment fs\<rparr>"
proof (induction fs arbitrary: pis)
  case (Cons f fs)
  then show ?case by (auto simp: ingest_Ok_iff)
qed auto

lemma ingest_all:
  "foldR ingest fs aggregator_new = Ok ag \<longleftrightarrow>
     (case fs of [] \<Rightarrow> ag = aggregator_new
      | f # _ \<Rightarrow> (\<forall>g \<in> set fs. frame_keys g = frame_keys f) \<and>
          ag = \<lparr>ag_vks = Some (frame_keys f), ag_batch_public_inputs = map frame_commitment fs\<rparr>)"
proof (cases fs)
  case (Cons f gs)
  then show ?thesis by (auto simp: ingest_Ok_iff aggregator_new_def ingest_all_from)
qed auto

text \<open>The indexed loops are a fold of \<open>ingest\<close> over the frames they read.\<close>

lemma foldR_map_read:
  assumes "foldR (\<lambda>x s. rbind (rd x) (\<lambda>y. rbind (map_err (g x) (f y s)) (\<lambda>s'. rbind (chk x y) (\<lambda>_. Ok s')))) xs s = Ok s'"
  shows "\<exists>ys. mapR rd xs = Ok ys \<and> foldR f ys s = Ok s' \<and> list_all2 (\<lambda>x y. chk x y = Ok ()) xs ys"
  using assms by (induction xs arbitrary: s) fastforce+

lemma foldR_map_read_complete:
  assumes "mapR rd xs = Ok ys" and "foldR f ys s = Ok s'" and "list_all2 (\<lambda>x y. chk x y = Ok ()) xs ys"
  shows "foldR (\<lambda>x s. rbind (rd x) (\<lambda>y. rbind (map_err (g x) (f y s)) (\<lambda>s'. rbind (chk x y) (\<lambda>_. Ok s')))) xs s = Ok s'"
  using assms by (induction xs arbitrary: s ys) fastforce+

section \<open>What the guest commits\<close>

text \<open>The settlement layer's digest over a non-empty list of accepted proofs with shared keys.\<close>

definition committed_digest :: "crypto \<Rightarrow> proof_frame list \<Rightarrow> (agg_error, bytes) result" where
  "committed_digest c frames =
     rbind (range_public_input c (map frame_commitment frames)) (\<lambda>range_pi.
     Ok (bytes32 (cr_keccak256 c (binding_preimage (frame_program_vk (hd frames)) (frame_vadcop_vk (hd frames)) range_pi))))"

definition same_keys :: "proof_frame list \<Rightarrow> bool" where
  "same_keys frames \<longleftrightarrow> (\<forall>f \<in> set frames. frame_keys f = frame_keys (hd frames))"

lemma finalize_digest:
  assumes "frames \<noteq> []"
  shows "foldR ingest frames aggregator_new = Ok ag \<Longrightarrow> finalize c ag = committed_digest c frames \<and> same_keys frames"
    and "same_keys frames \<Longrightarrow> \<exists>ag. foldR ingest frames aggregator_new = Ok ag"
proof -
  obtain f gs where fs: "frames = f # gs" using assms by (cases frames) auto
  have all: "foldR ingest frames aggregator_new = Ok ag \<longleftrightarrow> same_keys frames \<and>
      ag = \<lparr>ag_vks = Some (frame_keys f), ag_batch_public_inputs = map frame_commitment frames\<rparr>" for ag
    by (simp only: ingest_all fs list.case same_keys_def list.sel)
  have fin: "finalize c \<lparr>ag_vks = Some (frame_keys f), ag_batch_public_inputs = map frame_commitment frames\<rparr> =
      committed_digest c frames"
    by (simp add: finalize_def committed_digest_def frame_keys_def fs)
  show "foldR ingest frames aggregator_new = Ok ag \<Longrightarrow> finalize c ag = committed_digest c frames \<and> same_keys frames"
    by (simp only: all fin simp_thms)
  show "same_keys frames \<Longrightarrow> \<exists>ag. foldR ingest frames aggregator_new = Ok ag" by (simp only: all simp_thms ex_simps)
qed

lemma aggregate_one_eq:
  "aggregate_one vz rd = (\<lambda>i ag. rbind (map_err (ProofPanic i) (read_frame (rd (Suc i)))) (\<lambda>f.
     rbind (map_err (ProofPanic i) (ingest f ag)) (\<lambda>ag'.
     rbind (ensure (vz f (frame_vadcop_vk f) (frame_program_vk f)) (VerificationFailed i)) (\<lambda>_. Ok ag'))))"
  by (intro ext) (simp add: aggregate_one_def)

lemma aggregator_main_iff:
  "aggregator_main c vz rd = Ok digest \<longleftrightarrow>
     (\<exists>n frames. parse_count_frame (snd (rd 0)) = Ok n \<and> mapR (\<lambda>i. read_frame (rd (Suc i))) [0..<n] = Ok frames \<and>
        same_keys frames \<and> (\<forall>f \<in> set frames. vz f (frame_vadcop_vk f) (frame_program_vk f)) \<and>
        committed_digest c frames = Ok digest)" (is "_ \<longleftrightarrow> ?R")
proof
  let ?rd = "\<lambda>i. map_err (ProofPanic i) (read_frame (rd (Suc i)))"
  let ?chk = "\<lambda>i f. ensure (vz f (frame_vadcop_vk f) (frame_program_vk f)) (VerificationFailed i)"
  have rd_eq: "mapR ?rd xs = Ok ys \<longleftrightarrow> mapR (\<lambda>i. read_frame (rd (Suc i))) xs = Ok ys" for xs ys
    by (simp add: mapR_Ok_iff)
  have pos: "0 < n" if "parse_count_frame b = Ok n" for b n
    using that by (auto simp: parse_count_frame_def Let_def split: if_splits)
  {
    assume "aggregator_main c vz rd = Ok digest"
    then obtain n ag where n: "parse_count_frame (snd (rd 0)) = Ok n"
      and f: "foldR (aggregate_one vz rd) [0..<n] aggregator_new = Ok ag" and d: "finalize c ag = Ok digest"
      by (auto simp: aggregator_main_def)
    obtain frames where fr: "mapR ?rd [0..<n] = Ok frames" "foldR ingest frames aggregator_new = Ok ag"
        "list_all2 (\<lambda>i f. ?chk i f = Ok ()) [0..<n] frames"
      using foldR_map_read [OF f [unfolded aggregate_one_eq]] by blast
    have "frames \<noteq> []" using mapR_Ok_length [OF fr(1)] pos [OF n] by auto
    from finalize_digest(1) [OF this fr(2), of c]
    have "same_keys frames \<and> committed_digest c frames = Ok digest" using d by simp
    moreover have "\<forall>f \<in> set frames. vz f (frame_vadcop_vk f) (frame_program_vk f)"
      using fr(3) by (auto simp: list_all2_conv_all_nth in_set_conv_nth)
    ultimately show ?R using n fr(1) rd_eq by blast
  next
    assume ?R
    then obtain n frames where n: "parse_count_frame (snd (rd 0)) = Ok n" and fr: "mapR ?rd [0..<n] = Ok frames"
      and k: "same_keys frames" and v: "\<forall>f \<in> set frames. vz f (frame_vadcop_vk f) (frame_program_vk f)"
      and d: "committed_digest c frames = Ok digest" using rd_eq by blast
    have "frames \<noteq> []" using mapR_Ok_length [OF fr] pos [OF n] by auto
    then obtain ag where ag: "foldR ingest frames aggregator_new = Ok ag" "finalize c ag = Ok digest"
      using finalize_digest k d by metis
    have "list_all2 (\<lambda>i f. ?chk i f = Ok ()) [0..<n] frames"
      using v mapR_Ok_length [OF fr] by (simp add: list_all2_conv_all_nth)
    from foldR_map_read_complete [OF fr ag(1) this, where g = ProofPanic]
    show "aggregator_main c vz rd = Ok digest" by (simp add: aggregator_main_def n aggregate_one_eq ag(2))
  }
qed

section \<open>Frames\<close>

lemma div_ceil8_ge: "n \<le> div_ceil8 n * 8"
  by (simp add: div_ceil8_def)

lemma decode_frames_done: "length bytes \<le> pos \<Longrightarrow> decode_frames_from bytes pos = Ok []"
  by simp

declare decode_frames_from.simps [simp del]

lemma decode_encode_from:
  assumes "\<forall>p \<in> set ps. length p < 2 ^ 62" and "length pre + length (concat (map encode_frame ps)) < 2 ^ 63"
  shows "decode_frames_from (pre @ concat (map encode_frame ps)) (length pre) = Ok ps"
  using assms
proof (induction ps arbitrary: pre)
  case Nil
  show ?case by (simp add: decode_frames_done)
next
  case (Cons p ps)
  let ?rest = "concat (map encode_frame ps)"
  define B where "B = pre @ encode_frame p @ ?rest"
  have lenp: "length p < 2 ^ 62" using Cons.prems(1) by simp
  have enc: "encode_frame p = u64_le (of_nat (length p)) @ p @ zeros (div_ceil8 (length p) * 8 - length p)"
    by (simp add: encode_frame_def)
  have le: "length (encode_frame p) = 8 + div_ceil8 (length p) * 8" using div_ceil8_ge [of "length p"] by (simp add: enc)
  have "take 8 (drop (length pre) B) = u64_le (of_nat (length p))" by (simp add: B_def enc)
  moreover have "unat (of_nat (length p) :: u64) = length p" using lenp by (simp add: unat_of_nat)
  ultimately have len: "unat (of_le_bytes (take 8 (drop (length pre) B)) :: u64) = length p" by simp
  have u: "uadd (length pre + 8) (length p) = length pre + 8 + length p"
    using lenp Cons.prems(2) by (simp add: uadd_def)
  have "decode_frames_from ((pre @ encode_frame p) @ ?rest) (length (pre @ encode_frame p)) = Ok ps"
    using Cons.prems by (intro Cons.IH) simp_all
  then have tail: "decode_frames_from B (length pre + 8 + div_ceil8 (length p) * 8) = Ok ps"
    by (simp add: le add.assoc B_def)
  have payload: "take (length p) (drop (length pre + 8) B) = p" by (simp add: B_def enc)
  have "length pre + 8 + length p \<le> length B" using div_ceil8_ge [of "length p"] by (simp add: B_def le)
  then have "decode_frames_from B (length pre) = Ok (p # ps)"
    using len tail payload by (subst decode_frames_from.simps) (simp add: u Let_def)
  then show ?case by (simp add: B_def)
qed

lemma decode_encode_frames:
  assumes "\<forall>p \<in> set ps. length p < 2 ^ 62" and "length (concat (map encode_frame ps)) < 2 ^ 63"
  shows "decode_frames (concat (map encode_frame ps)) = Ok ps"
  using decode_encode_from [of ps "[]"] assms by (simp add: decode_frames_def)

section \<open>The assembler and the guest agree\<close>

lemma assemble_Ok_iff:
  "assemble streams = Ok out \<longleftrightarrow> streams \<noteq> [] \<and>
     (\<exists>frames. mapR read_frame streams = Ok frames \<and> same_keys frames) \<and>
     out = concat (map encode_frame (u64_le (of_nat (length streams)) # map snd streams))"
proof -
  let ?step = "\<lambda>(i, stream) ag. rbind (map_err (StreamError i) (read_frame stream)) (\<lambda>frame.
      map_err (StreamError i) (ingest frame ag))"
  have step: "foldR ?step (enumerate k streams) ag = Ok ag' \<longleftrightarrow>
      (\<exists>frames. mapR read_frame streams = Ok frames \<and> foldR ingest frames ag = Ok ag')" for k ag ag' streams
    by (induction streams arbitrary: k ag) auto
  have out: "foldl (\<lambda>out stream. out @ encode_frame (snd stream)) acc ss = acc @ concat (map encode_frame (map snd ss))"
    for acc and ss :: "(nat \<times> bytes) list" by (induction ss arbitrary: acc) simp_all
  have "(\<exists>ag. foldR ingest frames aggregator_new = Ok ag) \<longleftrightarrow> same_keys frames" if "frames \<noteq> []" for frames
    using finalize_digest [OF that] by blast
  moreover have "frames \<noteq> []" if "mapR read_frame streams = Ok frames" "streams \<noteq> []" for frames
    using mapR_Ok_length [OF that(1)] that(2) by auto
  ultimately show ?thesis by (auto simp: assemble_def step out)
qed

text \<open>A stream of the right shape for plumbing tests: it parses and carries the shared synthetic keys.\<close>

definition synthetic_words :: "u32 \<Rightarrow> u64 list" where
  "synthetic_words index =
     [0, EXPECTED_N_PUBLICS, IS_VADCOP_FINAL_PROOF] @
     [0xA5A50001, 0xA5A50002, 0xA5A50003, 0xA5A50004] @
     map (\<lambda>i. (0x10000000 + ucast index) * 8 + of_nat i) [0..<COMMITMENT_WORDS] @
     replicate (PUBLICS_WORDS - COMMITMENT_WORDS) 0 @
     map (\<lambda>i. ((of_nat i * 0x9E3779B9) XOR ucast index) mod 2 ^ 31) [0..<VADCOP_FINAL_BODY_WORDS] @
     [0x5A5A0001, 0x5A5A0002, 0x5A5A0003, 0x5A5A0004] @ [EXPECTED_HASH_TAG]"

definition synthetic_stream :: "u32 \<Rightarrow> bytes" where
  "synthetic_stream index = concat (map u64_le (synthetic_words index))"

lemma length_synthetic_words: "length (synthetic_words index) = PROOF_STREAM_WORDS"
  by (simp add: synthetic_words_def stream_layout)

lemma nth_append_left: "i < length xs \<Longrightarrow> (xs @ ys) ! i = xs ! i"
  by (simp add: nth_append)

lemma synthetic_stream_parses:
  assumes "address mod 8 = 0"
  shows "read_frame (address, synthetic_stream index) = Ok (synthetic_words index)"
proof -
  have "frame_parse (synthetic_words index) = Ok (synthetic_words index)"
  proof -
    have "synthetic_words index ! 0 = 0" "synthetic_words index ! 1 = EXPECTED_N_PUBLICS"
      "synthetic_words index ! HEADER_WORDS = IS_VADCOP_FINAL_PROOF"
      by (simp_all add: synthetic_words_def HEADER_WORDS_def)
    moreover have "synthetic_words index ! (PROOF_STREAM_WORDS - HASH_TAG_WORDS) = EXPECTED_HASH_TAG"
    proof -
      have "synthetic_words index \<noteq> []" by (simp add: synthetic_words_def)
      then have "synthetic_words index ! (length (synthetic_words index) - 1) = last (synthetic_words index)"
        by (simp add: last_conv_nth)
      then show ?thesis by (simp add: length_synthetic_words HASH_TAG_WORDS_def) (simp add: synthetic_words_def)
    qed
    ultimately show ?thesis by (simp add: frame_parse_def length_synthetic_words Let_def)
  qed
  then show ?thesis by (simp add: read_frame_def synthetic_stream_def words_from_word_bytes [OF assms])
qed

section \<open>Claims\<close>


text \<open>
  The range public input is 32 bytes long and is, read as a big-endian number, the folded
  batch inputs shifted right by 32 bits: the single input itself, or the hash of all of them.
\<close>

theorem range_input_is_shifted_fold:
  assumes "range_public_input c pis = Ok r" and "\<forall>p \<in> set pis. length p = 32"
  shows "length r = 32 \<and> (of_be_bytes r :: u256) = drop_bit 32 (folded_inputs c pis)"
  using range_public_input_value [OF assms] by blast

theorem range_input_is_shifted_fold_witness:
  "length (shr32 (bytes32 7)) = 32 \<and>
   (of_be_bytes (shr32 (bytes32 7)) :: u256) =
     drop_bit 32 (folded_inputs \<lparr>cr_node = \<lambda>l r. l, cr_blake2s = \<lambda>_. 0, cr_keccak256 = \<lambda>_. 0\<rparr> [bytes32 7])"
  by (rule range_input_is_shifted_fold) simp_all

text \<open>
  Decoding the frames of a host buffer returns the payloads they were encoded from, whatever
  their lengths and padding, below the sizes at which \<open>usize\<close> sums would wrap.
\<close>

theorem frames_round_trip:
  assumes "\<forall>p \<in> set ps. length p < 2 ^ 62" and "length (concat (map encode_frame ps)) < 2 ^ 63"
  shows "decode_frames (concat (map encode_frame ps)) = Ok ps"
  using assms by (rule decode_encode_frames)

theorem frames_round_trip_witness:
  "decode_frames (concat (map encode_frame [[1, 2, 3], [], replicate 8 4])) = Ok [[1, 2, 3], [], replicate 8 4]"
  by (rule frames_round_trip) (simp_all add: encode_frame_def div_ceil8_def)

text \<open>
  C23. Host and guest agree: the buffer the prover assembles from aligned streams decodes to the
  count frame and the streams, and on these slices the guest commits a digest exactly when the
  verifier accepts every stream under its own keys.
\<close>

theorem assembled_input_read_by_guest:
  assumes "assemble (map (Pair 0) bs) = Ok out" and "length out < 2 ^ 62"
  shows "decode_frames out = Ok (u64_le (of_nat (length bs)) # bs) \<and>
    (\<exists>frames. mapR read_frame (map (Pair 0) bs) = Ok frames \<and>
      (aggregator_main c vz (\<lambda>i. (0, (u64_le (of_nat (length bs)) # bs) ! i)) = Ok digest \<longleftrightarrow>
        list_all (\<lambda>f. vz f (frame_vadcop_vk f) (frame_program_vk f)) frames \<and> committed_digest c frames = Ok digest))"
proof -
  let ?count = "u64_le (of_nat (length bs))" and ?rd = "\<lambda>i. (0 :: nat, (u64_le (of_nat (length bs)) # bs) ! i)"
  obtain frames where ne: "bs \<noteq> []" and fr: "mapR read_frame (map (Pair 0) bs) = Ok frames" and k: "same_keys frames"
    and out: "out = concat (map encode_frame (?count # bs))"
    using assms(1) by (auto simp: assemble_Ok_iff comp_def)
  have "length p \<le> length (concat (map encode_frame ps))" if "p \<in> set ps" for p ps
    using that by (induction ps) (auto simp: encode_frame_def)
  moreover have "length ps \<le> length (concat (map encode_frame ps))" for ps
    by (induction ps) (auto simp: encode_frame_def)
  ultimately have small: "\<forall>p \<in> set (?count # bs). length p < 2 ^ 62" "length bs < 2 ^ 64"
    using assms(2) unfolding out by (metis (no_types, lifting) le_less_trans, fastforce dest: le_less_trans)
  have "decode_frames out = Ok (?count # bs)"
    unfolding out by (rule decode_encode_frames [OF small(1)]) (use assms(2) out in simp)
  moreover have count: "parse_count_frame (snd (?rd 0)) = Ok n \<longleftrightarrow> n = length bs" for n
    using ne small(2) by (auto simp: parse_count_frame_def unat_of_nat)
  have "map (\<lambda>i. ?rd (Suc i)) [0..<length bs] = map (Pair 0) bs"
    by (rule nth_equalityI) simp_all
  then have "mapR (\<lambda>i. read_frame (?rd (Suc i))) [0..<length bs] = mapR read_frame (map (Pair 0) bs)"
    by (metis mapR_map)
  then have "aggregator_main c vz ?rd = Ok digest \<longleftrightarrow>
      list_all (\<lambda>f. vz f (frame_vadcop_vk f) (frame_program_vk f)) frames \<and> committed_digest c frames = Ok digest"
    unfolding aggregator_main_iff count using fr k by (auto simp: list_all_iff)
  ultimately show ?thesis using fr by blast
qed

theorem assembled_input_read_by_guest_witness:
  "\<exists>out. assemble [(0, synthetic_stream 0)] = Ok out \<and> decode_frames out = Ok [u64_le 1, synthetic_stream 0]"
proof -
  obtain out where out: "assemble (map (Pair 0) [synthetic_stream 0]) = Ok out"
      "out = concat (map encode_frame [u64_le 1, synthetic_stream 0])"
    by (simp add: assemble_Ok_iff synthetic_stream_parses same_keys_def)
  have "length (synthetic_stream 0) = 8 * PROOF_STREAM_WORDS"
    by (simp add: synthetic_stream_def length_words length_synthetic_words)
  then have "length out < 2 ^ 62" by (simp add: out(2) encode_frame_def div_ceil8_def stream_layout)
  from assembled_input_read_by_guest [OF out(1) this] out(1) show ?thesis by simp
qed

end
