(* ===== verification/Zisk_Verifier.thy ===== *)
theory Zisk_Verifier
  imports Aggregator
begin

text \<open>
  The off-chain verification helpers of \<open>zisk-verifier/src/lib.rs\<close> and \<open>zisk-verifier/src/stark.rs\<close>.
  SHA-256 and ZiSK's own STARK verifier with its released key are parameters.
\<close>

section \<open>The wire artifact\<close>

definition SNARK_PROOF_BYTES :: nat where "SNARK_PROOF_BYTES = 69 * 32"
definition PUBLIC_VALUES_BYTES :: nat where "PUBLIC_VALUES_BYTES = 576"

definition BN254_FR_MODULUS :: u256 where
  "BN254_FR_MODULUS = 0x30644e72e131a029b85045b68181585d2833e84879b9709143e1f593f0000001"

record expected_program =
  ep_program_vk :: bytes
  ep_root_c_vadcop_final :: bytes

datatype verify_error =
  ProofLength nat
| PublicValuesLength nat
| ProgramVkDiffers
| RootCVadcopFinalMismatch
| StreamMalformed
| StarkInvalid

definition check_wire_form :: "bytes \<Rightarrow> bytes \<Rightarrow> (verify_error, unit) result" where
  "check_wire_form pf public_values =
     rbind (ensure (length pf = SNARK_PROOF_BYTES) (ProofLength (length pf))) (\<lambda>_.
     ensure (length public_values = PUBLIC_VALUES_BYTES) (PublicValuesLength (length public_values)))"

definition public_signal :: "(bytes \<Rightarrow> bytes) \<Rightarrow> bytes \<Rightarrow> (verify_error, bytes) result" where
  "public_signal sha256 public_values =
     rbind (ensure (length public_values = PUBLIC_VALUES_BYTES) (PublicValuesLength (length public_values))) (\<lambda>_.
     let v = (of_be_bytes (sha256 public_values) :: u256)
     in Ok (be_bytes 32 (v mod BN254_FR_MODULUS)))"

definition program_vk_of :: "bytes \<Rightarrow> (verify_error, bytes) result" where
  "program_vk_of public_values =
     rbind (ensure (length public_values = PUBLIC_VALUES_BYTES) (PublicValuesLength (length public_values))) (\<lambda>_.
     Ok (take 32 public_values))"

definition root_c_vadcop_final_of :: "bytes \<Rightarrow> (verify_error, bytes) result" where
  "root_c_vadcop_final_of public_values =
     rbind (ensure (length public_values = PUBLIC_VALUES_BYTES) (PublicValuesLength (length public_values))) (\<lambda>_.
     Ok (take (576 - 544) (drop 544 public_values)))"

definition verify_snark :: "(bytes \<Rightarrow> bytes) \<Rightarrow> bytes \<Rightarrow> bytes \<Rightarrow> (verify_error, unit) result" where
  "verify_snark sha256 pf public_values =
     rbind (check_wire_form pf public_values) (\<lambda>_.
     rbind (public_signal sha256 public_values) (\<lambda>_. Ok ()))"

definition verify_snark_bound ::
  "(bytes \<Rightarrow> bytes) \<Rightarrow> bytes \<Rightarrow> bytes \<Rightarrow> expected_program \<Rightarrow> (verify_error, unit) result" where
  "verify_snark_bound sha256 pf public_values expected =
     rbind (verify_snark sha256 pf public_values) (\<lambda>_.
     rbind (ensure (take 32 public_values = ep_program_vk expected) ProgramVkDiffers) (\<lambda>_.
     ensure (take (576 - 544) (drop 544 public_values) = ep_root_c_vadcop_final expected) RootCVadcopFinalMismatch))"

definition verify_aggregated_range :: "(bytes \<Rightarrow> bytes) \<Rightarrow> bytes \<Rightarrow> bytes \<Rightarrow> (verify_error, unit) result" where
  "verify_aggregated_range sha256 pf public_values = verify_snark sha256 pf public_values"

definition verify_aggregated_range_bound ::
  "(bytes \<Rightarrow> bytes) \<Rightarrow> bytes \<Rightarrow> bytes \<Rightarrow> expected_program \<Rightarrow> (verify_error, unit) result" where
  "verify_aggregated_range_bound sha256 pf public_values expected =
     verify_snark_bound sha256 pf public_values expected"

section \<open>The STARK stream\<close>

datatype upstream_verdict = UpstreamOk | UpstreamInvalidProof | UpstreamError

record stark_crate =
  sk_vadcop_final_vk_poseidon1 :: "u64 list"
  sk_verify_saved_words :: "u64 list \<Rightarrow> u64 list \<Rightarrow> upstream_verdict"
  sk_seed_len_words :: nat
  sk_seed_trailer_tag :: u64

definition verify_vadcop_final_stream :: "stark_crate \<Rightarrow> nat \<Rightarrow> bytes \<Rightarrow> (verify_error, unit) result" where
  "verify_vadcop_final_stream sk address stream =
     rbind (map_err (\<lambda>_. StreamMalformed) (words_from_bytes address stream)) (\<lambda>words.
     rbind (map_err (\<lambda>_. StreamMalformed) (frame_parse words)) (\<lambda>frame.
     rbind (ensure (frame_vadcop_vk frame = sk_vadcop_final_vk_poseidon1 sk) StreamMalformed) (\<lambda>_.
     case sk_verify_saved_words sk frame (sk_vadcop_final_vk_poseidon1 sk) of
       UpstreamOk \<Rightarrow> Ok ()
     | UpstreamInvalidProof \<Rightarrow> Err StarkInvalid
     | UpstreamError \<Rightarrow> Err StreamMalformed)))"

definition stream_from_proof_file :: "stark_crate \<Rightarrow> bytes \<Rightarrow> (verify_error, bytes) result" where
  "stream_from_proof_file sk bytes =
     (let trailer_bytes = (sk_seed_len_words sk + 1) * 8; tag = u64_le (sk_seed_trailer_tag sk)
      in if length bytes mod 8 \<noteq> 0 then Err StreamMalformed
         else if trailer_bytes \<le> length bytes \<and> drop (length bytes - length tag) bytes = tag
              then Ok (take (length bytes - trailer_bytes) bytes) else Ok bytes)"

definition verify_vadcop_final_proof_file :: "stark_crate \<Rightarrow> nat \<Rightarrow> bytes \<Rightarrow> (verify_error, unit) result" where
  "verify_vadcop_final_proof_file sk address bytes =
     rbind (stream_from_proof_file sk bytes) (\<lambda>stream. verify_vadcop_final_stream sk address stream)"

section \<open>What the checks establish\<close>

text \<open>The on-chain layout of the public values.\<close>

definition public_values_of :: "expected_program \<Rightarrow> bytes \<Rightarrow> bytes" where
  "public_values_of expected guest_publics = ep_program_vk expected @ guest_publics @ ep_root_c_vadcop_final expected"

lemma verify_snark_bound_iff:
  assumes "length (ep_program_vk expected) = 32" and "length (ep_root_c_vadcop_final expected) = 32"
  shows "verify_snark_bound sha256 pf pv expected = Ok () \<longleftrightarrow>
    length pf = SNARK_PROOF_BYTES \<and> (\<exists>g. length g = 512 \<and> pv = public_values_of expected g)"
proof
  assume "verify_snark_bound sha256 pf pv expected = Ok ()"
  then have len: "length pf = SNARK_PROOF_BYTES" "length pv = 576"
    and vk: "take 32 pv = ep_program_vk expected" and rc: "take 32 (drop 544 pv) = ep_root_c_vadcop_final expected"
    by (auto simp: verify_snark_bound_def verify_snark_def check_wire_form_def PUBLIC_VALUES_BYTES_def)
  have "drop 544 pv = ep_root_c_vadcop_final expected" using rc len(2) by simp
  moreover have "pv = take 32 pv @ take 512 (drop 32 pv) @ drop 544 pv"
    using append_take_drop_id [of 512 "drop 32 pv"] by simp
  ultimately have "pv = public_values_of expected (take 512 (drop 32 pv))" by (simp add: public_values_of_def vk)
  moreover have "length (take 512 (drop 32 pv)) = 512" using len(2) by simp
  ultimately show "length pf = SNARK_PROOF_BYTES \<and> (\<exists>g. length g = 512 \<and> pv = public_values_of expected g)"
    using len(1) by blast
next
  assume "length pf = SNARK_PROOF_BYTES \<and> (\<exists>g. length g = 512 \<and> pv = public_values_of expected g)"
  then show "verify_snark_bound sha256 pf pv expected = Ok ()" using assms
    by (auto simp: verify_snark_bound_def verify_snark_def check_wire_form_def PUBLIC_VALUES_BYTES_def
        public_signal_def Let_def public_values_of_def)
qed

lemma public_signal_reduced:
  assumes "public_signal sha256 pv = Ok s"
  shows "length s = 32" and "(of_be_bytes s :: u256) < BN254_FR_MODULUS"
proof -
  have s: "s = be_bytes 32 ((of_be_bytes (sha256 pv) :: u256) mod BN254_FR_MODULUS)"
    using assms by (auto simp: public_signal_def Let_def)
  then show "length s = 32" by simp
  have "(0 :: u256) < BN254_FR_MODULUS" by (simp add: BN254_FR_MODULUS_def)
  then have "(of_be_bytes (sha256 pv) :: u256) mod BN254_FR_MODULUS < BN254_FR_MODULUS"
    by (simp add: word_less_nat_alt unat_mod_distrib)
  then show "(of_be_bytes s :: u256) < BN254_FR_MODULUS" by (simp add: s)
qed

text \<open>A stream and the stream behind a seed trailer are read back as the same stream.\<close>

lemma stream_from_file:
  assumes "length stream mod 8 = 0" and "length seed = 8 * sk_seed_len_words sk"
  shows "stream_from_proof_file sk (stream @ seed @ u64_le (sk_seed_trailer_tag sk)) = Ok stream"
proof -
  have "length (stream @ seed @ u64_le (sk_seed_trailer_tag sk)) mod 8 = 0" using assms by (simp flip: dvd_eq_mod_eq_0)
  then show ?thesis using assms(2) by (simp add: stream_from_proof_file_def Let_def)
qed

lemma stream_verified:
  assumes "verify_vadcop_final_stream sk address stream = Ok ()"
  shows "\<exists>frame. read_frame (address, stream) = Ok frame \<and>
    frame_vadcop_vk frame = sk_vadcop_final_vk_poseidon1 sk \<and>
    sk_verify_saved_words sk frame (sk_vadcop_final_vk_poseidon1 sk) = UpstreamOk"
proof -
  have verdict: "(case v of UpstreamOk \<Rightarrow> Ok () | UpstreamInvalidProof \<Rightarrow> Err StarkInvalid
      | UpstreamError \<Rightarrow> Err StreamMalformed) = Ok () \<longleftrightarrow> v = UpstreamOk" for v by (cases v) simp_all
  show ?thesis using assms by (auto simp: verify_vadcop_final_stream_def read_frame_def verdict)
qed

section \<open>Claims\<close>

text \<open>
  C24. The off-chain check accepts an artifact exactly when the proof has the length of the wire
  form and the public values are the expected program key, 512 bytes of guest publics and the
  expected root constant, in this order.
\<close>

theorem snark_artifact_accepted_iff:
  assumes "length (ep_program_vk expected) = 32" and "length (ep_root_c_vadcop_final expected) = 32"
  shows "verify_snark_bound sha256 pf pv expected = Ok () \<longleftrightarrow>
    length pf = SNARK_PROOF_BYTES \<and> (\<exists>g. length g = 512 \<and> pv = public_values_of expected g)"
  using assms by (rule verify_snark_bound_iff)

theorem snark_artifact_accepted_iff_witness:
  "verify_snark_bound (\<lambda>_. []) (zeros SNARK_PROOF_BYTES) (replicate 32 1 @ zeros 512 @ replicate 32 2)
     \<lparr>ep_program_vk = replicate 32 1, ep_root_c_vadcop_final = replicate 32 2\<rparr> = Ok ()"
proof -
  let ?e = "\<lparr>ep_program_vk = replicate 32 1, ep_root_c_vadcop_final = replicate 32 2\<rparr>"
  have "length (ep_program_vk ?e) = 32" "length (ep_root_c_vadcop_final ?e) = 32" by simp_all
  from snark_artifact_accepted_iff [OF this] show ?thesis
    by (simp add: public_values_of_def)
qed

text \<open>
  The public signal is a canonical 32-byte scalar of the BN254 field: the SHA-256 digest
  reduced below the modulus, so that no digest has two accepted signals.
\<close>

theorem public_signal_canonical:
  assumes "public_signal sha256 pv = Ok s"
  shows "length s = 32 \<and> (of_be_bytes s :: u256) < BN254_FR_MODULUS"
  using public_signal_reduced [OF assms] by blast

theorem public_signal_canonical_witness:
  "\<exists>s. public_signal (\<lambda>_. replicate 32 255) (zeros 576) = Ok s \<and> length s = 32 \<and>
     (of_be_bytes s :: u256) < BN254_FR_MODULUS"
proof -
  obtain s where s: "public_signal (\<lambda>_. replicate 32 255) (zeros 576) = Ok s"
    by (simp add: public_signal_def PUBLIC_VALUES_BYTES_def Let_def)
  from public_signal_canonical [OF s] s show ?thesis by blast
qed

text \<open>
  The seed trailer of a proof file is stripped exactly: a stream followed by a seed and the
  trailer tag is read back as the stream.
\<close>

theorem trailer_stripped:
  assumes "length stream mod 8 = 0" and "length seed = 8 * sk_seed_len_words sk"
  shows "stream_from_proof_file sk (stream @ seed @ u64_le (sk_seed_trailer_tag sk)) = Ok stream"
  using assms by (rule stream_from_file)

theorem trailer_stripped_witness:
  "stream_from_proof_file \<lparr>sk_vadcop_final_vk_poseidon1 = [], sk_verify_saved_words = \<lambda>_ _. UpstreamOk, sk_seed_len_words = 2,
     sk_seed_trailer_tag = 77\<rparr> (zeros 8 @ replicate 16 3 @ u64_le (77 :: u64)) = Ok (zeros 8)"
  using trailer_stripped [of "zeros 8" "replicate 16 3" "\<lparr>sk_vadcop_final_vk_poseidon1 = [], sk_verify_saved_words = \<lambda>_ _. UpstreamOk,
    sk_seed_len_words = 2, sk_seed_trailer_tag = 77\<rparr>"] by simp

end
