(* ===== verification/Limb_Bytes.thy ===== *)
theory Limb_Bytes
  imports Zk_Prelude
begin

text \<open>
  The conversions between big-endian byte strings and little-endian vectors of 64-bit limbs of
  \<open>guest/src/hooks.rs\<close>, which the precompile hooks put around every call into ZiSK's library: the
  fixed 32-byte and 64-byte forms of field elements and curve points, and the arbitrary-length form of
  modular exponentiation. Both sides denote a natural number (\<open>be_nat\<close>, \<open>limbs_val\<close>), and each
  conversion is shown to keep it. A slice of ZiSK's \<open>U256\<close> values is the flat vector of their limbs,
  four per value.
\<close>

section \<open>Numbers\<close>

fun le_nat :: "bytes \<Rightarrow> nat" where
  "le_nat [] = 0"
| "le_nat (b # bs) = unat b + 256 * le_nat bs"

definition be_nat :: "bytes \<Rightarrow> nat" where
  "be_nat bs = le_nat (rev bs)"

fun limbs_val :: "u64 list \<Rightarrow> nat" where
  "limbs_val [] = 0"
| "limbs_val (l # ls) = unat l + 2 ^ 64 * limbs_val ls"

section \<open>The conversions\<close>

definition be_bytes_to_u64_le_4 :: "bytes \<Rightarrow> u64 list" where
  "be_bytes_to_u64_le_4 be =
     fold (\<lambda>i limbs. limbs[3 - i := of_be_bytes (take 8 (drop (i * 8) be))]) [0..<4] (replicate 4 0)"

definition g1_limbs_le_to_bytes_be :: "u64 list \<Rightarrow> bytes" where
  "g1_limbs_le_to_bytes_be limbs =
     concat (map (\<lambda>i. u64_be (limbs ! (3 - i))) [0..<4]) @ concat (map (\<lambda>i. u64_be (limbs ! (7 - i))) [0..<4])"

definition limb_count :: "bytes \<Rightarrow> nat" where
  "limb_count bytes = (length bytes + 7) div 8"

definition strip_leading :: "bytes \<Rightarrow> bytes" where
  "strip_leading bytes =
     (let first_nonzero = (case find (\<lambda>i. bytes ! i \<noteq> 0) [0..<length bytes] of Some i \<Rightarrow> i | None \<Rightarrow> length bytes - 1)
      in drop first_nonzero bytes)"

definition or_byte :: "nat \<times> u8 \<Rightarrow> u64 list \<Rightarrow> u64 list" where
  "or_byte = (\<lambda>(i, byte) limbs. limbs[i div 8 := (limbs ! (i div 8)) OR push_bit ((i mod 8) * 8) (ucast byte)])"

definition be_bytes_to_u64_limbs :: "bytes \<Rightarrow> u64 list" where
  "be_bytes_to_u64_limbs bytes =
     (if bytes = [] then [0]
      else let stripped = strip_leading bytes
           in fold or_byte (enumerate 0 (rev stripped)) (replicate (limb_count stripped) 0))"

definition be_bytes_to_u256_le :: "bytes \<Rightarrow> u64 list" where
  "be_bytes_to_u256_le bytes =
     (let limbs = be_bytes_to_u64_limbs bytes; padded_len = (length limbs + 3) div 4 * 4
      in limbs @ replicate (padded_len - length limbs) 0)"

definition put_byte :: "nat \<Rightarrow> nat \<Rightarrow> u64 \<Rightarrow> nat \<Rightarrow> bytes \<Rightarrow> bytes" where
  "put_byte out_len i limb j out =
     (let pos_from_end = i * 8 + j
      in if pos_from_end < out_len
         then out[out_len - 1 - pos_from_end := ucast (drop_bit (j * 8) limb AND 0xff)] else out)"

definition u256_le_to_bytes_be :: "u64 list \<Rightarrow> nat \<Rightarrow> bytes" where
  "u256_le_to_bytes_be flat out_len =
     fold (\<lambda>(i, limb). fold (put_byte out_len i limb) [0..<8]) (enumerate 0 flat) (zeros out_len)"

function chunks_exact :: "nat \<Rightarrow> 'a list \<Rightarrow> 'a list list" where
  "chunks_exact n xs = (if n = 0 \<or> length xs < n then [] else take n xs # chunks_exact n (drop n xs))"
  by auto
termination by (relation "measure (\<lambda>(n, xs). length xs)") auto

declare chunks_exact.simps [simp del]

section \<open>The values\<close>

lemma le_nat_append: "le_nat (xs @ ys) = le_nat xs + 256 ^ length xs * le_nat ys"
  by (induction xs) (simp_all add: algebra_simps)

lemma le_nat_less: "le_nat xs < 256 ^ length xs"
proof (induction xs)
  case (Cons b bs)
  have "unat b < 256" using unsigned_less [of b, where 'a = nat] by simp
  then show ?case using Cons by simp
qed simp

lemma le_nat_zeros [simp]: "le_nat (zeros n) = 0"
  by (induction n) (simp_all add: zeros_def)

lemma le_nat_0: "\<forall>x \<in> set xs. x = 0 \<Longrightarrow> le_nat xs = 0"
  by (induction xs) simp_all

lemma limbs_val_append: "limbs_val (xs @ ys) = limbs_val xs + 2 ^ (64 * length xs) * limbs_val ys"
  by (induction xs) (simp_all add: algebra_simps power_add)

lemma limbs_val_zeros [simp]: "limbs_val (replicate n 0) = 0"
  by (induction n) simp_all

lemma limbs_val_less: "limbs_val ls < 2 ^ (64 * length ls)"
proof (induction ls)
  case (Cons l ls)
  have "unat l < 2 ^ 64" using unsigned_less [of l, where 'a = nat] by simp
  then show ?case using Cons by (simp add: power_add)
qed simp

lemma nat_or_push_bit: "a < 2 ^ k \<Longrightarrow> a OR push_bit k b = a + push_bit k (b :: nat)"
proof -
  assume "a < 2 ^ k"
  then have a: "a = take_bit k a" by (simp add: take_bit_nat_eq_self)
  have "\<not> bit a n \<or> \<not> bit (push_bit k b) n" for n
    by (subst a) (auto simp: bit_take_bit_iff bit_push_bit_iff)
  then show ?thesis by (simp add: disjunctive_add)
qed

lemma unat_or_push_bit:
  fixes l b :: "'a::len word"
  assumes "unat l < 2 ^ k" and "unat b * 2 ^ k < 2 ^ LENGTH('a)"
  shows "unat (l OR push_bit k b) = unat l + unat b * 2 ^ k"
  using assms nat_or_push_bit [of "unat l" k "unat b"]
  by (simp add: unsigned_or_eq unsigned_push_bit_eq take_bit_nat_eq_self push_bit_nat_def)

lemma unat_of_le_bytes: "8 * length bs \<le> LENGTH('a) \<Longrightarrow> unat (of_le_bytes bs :: 'a::len word) = le_nat bs"
proof (induction bs)
  case (Cons b bs)
  have b: "unat b < 2 ^ 8" using unsigned_less [of b, where 'a = nat] by simp
  have "le_nat bs * 2 ^ 8 < 256 ^ length bs * 2 ^ 8" using le_nat_less [of bs] by simp
  also have "\<dots> = 2 ^ (8 * length (b # bs))" by (simp add: power_add power_mult)
  also have "\<dots> \<le> 2 ^ LENGTH('a)" using Cons.prems by (intro power_increasing) auto
  finally have "le_nat bs * 2 ^ 8 < 2 ^ LENGTH('a)" .
  moreover have "unat b < 2 ^ LENGTH('a)"
    using b Cons.prems power_increasing [of 8 "LENGTH('a)" "2 :: nat"] by simp
  then have "unat (ucast b :: 'a word) = unat b" by (simp add: unsigned_ucast_eq take_bit_nat_eq_self)
  ultimately show ?case using b Cons by (simp add: unat_or_push_bit)
qed simp

lemma unat_of_be_bytes: "8 * length bs \<le> LENGTH('a) \<Longrightarrow> unat (of_be_bytes bs :: 'a::len word) = be_nat bs"
  by (simp add: of_be_bytes_def be_nat_def unat_of_le_bytes)

lemma be_nat_append: "be_nat (xs @ ys) = 256 ^ length ys * be_nat xs + be_nat ys"
  by (simp add: be_nat_def le_nat_append)

lemma le_nat_le_bytes: "LENGTH('a) \<le> 8 * n \<Longrightarrow> 8 * n \<le> LENGTH('a) \<Longrightarrow> le_nat (le_bytes n w) = unat (w :: 'a::len word)"
  using unat_of_le_bytes [of "le_bytes n w", where 'a = 'a] by simp

lemma be_nat_be_bytes: "LENGTH('a) = 8 * n \<Longrightarrow> be_nat (be_bytes n w) = unat (w :: 'a::len word)"
  by (simp add: be_nat_def be_bytes_def le_nat_le_bytes)

section \<open>Fixed-length conversions\<close>

lemma limbs_4: "length be = 32 \<Longrightarrow> be_bytes_to_u64_le_4 be =
    map of_be_bytes [drop 24 be, take 8 (drop 16 be), take 8 (drop 8 be), take 8 be]"
  by (simp add: be_bytes_to_u64_le_4_def upt_rec numeral_eq_Suc)

lemma split_32: "length be = 32 \<Longrightarrow> be = take 8 be @ take 8 (drop 8 be) @ take 8 (drop 16 be) @ drop 24 be"
  using append_take_drop_id [of 8 be] append_take_drop_id [of 8 "drop 8 be"] append_take_drop_id [of 8 "drop 16 be"]
  by simp

lemma be_bytes_to_u64_le_4_value:
  assumes "length be = 32"
  shows "length (be_bytes_to_u64_le_4 be) = 4" and "limbs_val (be_bytes_to_u64_le_4 be) = be_nat be"
proof -
  show "length (be_bytes_to_u64_le_4 be) = 4" using assms by (simp add: limbs_4)
  have "be_nat be = 256 ^ 24 * be_nat (take 8 be) + 256 ^ 16 * be_nat (take 8 (drop 8 be)) +
      256 ^ 8 * be_nat (take 8 (drop 16 be)) + be_nat (drop 24 be)"
    using assms by (subst split_32 [OF assms]) (simp add: be_nat_append)
  then show "limbs_val (be_bytes_to_u64_le_4 be) = be_nat be"
    using assms by (simp add: limbs_4 unat_of_be_bytes)
qed

lemma length_4: "length ls = 4 \<Longrightarrow> \<exists>a b c d. ls = [a, b, c, d]"
  by (auto simp: length_Suc_conv numeral_eq_Suc)

lemma be_nat_limbs: "be_nat (concat (map u64_be (rev ls))) = limbs_val ls"
proof (induction ls)
  case (Cons l ls)
  then show ?case by (simp add: be_nat_append be_nat_be_bytes)
qed (simp add: be_nat_def)

lemma length_limb_bytes [simp]: "length (concat (map u64_be ls)) = 8 * length ls"
  by (induction ls) simp_all

lemma g1_limbs_rev:
  assumes "length xs = 4" and "length ys = 4"
  shows "g1_limbs_le_to_bytes_be (xs @ ys) = concat (map u64_be (rev xs)) @ concat (map u64_be (rev ys))"
proof -
  obtain a b c d e f g h where l: "xs = [a, b, c, d]" "ys = [e, f, g, h]"
    using length_4 [OF assms(1)] length_4 [OF assms(2)] by blast
  have u: "[0..<4] = [0, 1, 2, 3 :: nat]" by (simp add: upt_rec)
  show ?thesis by (simp add: g1_limbs_le_to_bytes_be_def u l)
qed

lemma g1_limbs_value:
  assumes "length xs = 4" and "length ys = 4"
  shows "length (g1_limbs_le_to_bytes_be (xs @ ys)) = 64"
    and "be_nat (take 32 (g1_limbs_le_to_bytes_be (xs @ ys))) = limbs_val xs"
    and "be_nat (drop 32 (g1_limbs_le_to_bytes_be (xs @ ys))) = limbs_val ys"
  using assms by (simp_all add: g1_limbs_rev be_nat_limbs)

section \<open>Arbitrary-length conversions\<close>

lemma limbs_val_or_byte:
  assumes "limbs_val limbs < 256 ^ i" and "i div 8 < length limbs"
  shows "limbs_val (or_byte (i, b) limbs) = limbs_val limbs + unat b * 256 ^ i"
proof -
  let ?q = "i div 8" and ?r = "i mod 8"
  let ?l = "limbs ! ?q" and ?pre = "take ?q limbs" and ?post = "drop (Suc ?q) limbs"
  have limbs: "limbs = ?pre @ ?l # ?post" using assms(2) by (rule id_take_nth_drop)
  have pre: "length ?pre = ?q" using assms(2) by simp
  have pow: "(256 :: nat) ^ i = 2 ^ (64 * ?q) * 2 ^ (8 * ?r)"
  proof -
    have "(256 :: nat) ^ i = 2 ^ (8 * i)" by (simp add: power_mult)
    also have "8 * i = 64 * ?q + 8 * ?r" by presburger
    finally show ?thesis by (simp add: power_add)
  qed
  have "limbs_val limbs = limbs_val ?pre + 2 ^ (64 * ?q) * (unat ?l + 2 ^ 64 * limbs_val ?post)"
    by (subst limbs) (simp only: limbs_val_append pre limbs_val.simps)
  then have "2 ^ (64 * ?q) * (unat ?l + 2 ^ 64 * limbs_val ?post) < 2 ^ (64 * ?q) * 2 ^ (8 * ?r)"
    using assms(1) pow by linarith
  then have lt: "unat ?l + 2 ^ 64 * limbs_val ?post < 2 ^ (8 * ?r)" by simp
  have b: "unat b < 256" using unsigned_less [of b, where 'a = nat] by simp
  have "unat b * 2 ^ (8 * ?r) < 256 * 2 ^ (8 * ?r)" using b by simp
  also have "\<dots> = 2 ^ (8 * ?r + 8)" by (simp add: power_add)
  also have "\<dots> \<le> (2 :: nat) ^ 64" by (intro power_increasing) auto
  finally have fit: "unat (ucast b :: u64) * 2 ^ (8 * ?r) < 2 ^ LENGTH(64)"
    using b by (simp add: unsigned_ucast_eq take_bit_nat_eq_self)
  have "unat (?l OR push_bit (?r * 8) (ucast b)) = unat ?l + unat b * 2 ^ (8 * ?r)"
    using unat_or_push_bit [OF _ fit, of ?l] lt b
    by (simp add: unsigned_ucast_eq take_bit_nat_eq_self mult.commute [of _ 8])
  moreover have "or_byte (i, b) limbs = ?pre @ (?l OR push_bit (?r * 8) (ucast b)) # ?post"
    using assms(2) by (simp add: or_byte_def upd_conv_take_nth_drop)
  ultimately have "limbs_val (or_byte (i, b) limbs) =
      limbs_val ?pre + 2 ^ (64 * ?q) * ((unat ?l + unat b * 2 ^ (8 * ?r)) + 2 ^ 64 * limbs_val ?post)"
    by (simp only: limbs_val_append pre limbs_val.simps)
  then show ?thesis
    using \<open>limbs_val limbs = _\<close> by (simp add: pow algebra_simps)
qed

lemma length_or_byte [simp]: "length (or_byte x limbs) = length limbs"
  by (cases x) (simp add: or_byte_def)

lemma fold_or_byte:
  assumes "length bs \<le> 8 * n"
  shows "length (fold or_byte (enumerate 0 bs) (replicate n 0)) = n"
    and "limbs_val (fold or_byte (enumerate 0 bs) (replicate n 0)) = le_nat bs"
proof -
  have "length (fold or_byte (enumerate 0 bs) (replicate n 0)) = n \<and>
      limbs_val (fold or_byte (enumerate 0 bs) (replicate n 0)) = le_nat bs"
    using assms
  proof (induction bs rule: rev_induct)
    case (snoc b bs)
    then show ?case using le_nat_less [of bs]
      by (simp add: enumerate_append_eq limbs_val_or_byte le_nat_append)
  qed simp
  then show "length (fold or_byte (enumerate 0 bs) (replicate n 0)) = n"
    and "limbs_val (fold or_byte (enumerate 0 bs) (replicate n 0)) = le_nat bs" by blast+
qed

lemma strip_leading_value:
  assumes "bytes \<noteq> []"
  shows "be_nat (strip_leading bytes) = be_nat bytes" and "strip_leading bytes \<noteq> []"
    and "hd (strip_leading bytes) \<noteq> 0 \<or> length (strip_leading bytes) = 1"
proof -
  have z: "be_nat (take i bytes) = 0" if "\<forall>j < i. bytes ! j = 0" for i
    using that by (auto simp: be_nat_def in_set_conv_nth intro!: le_nat_0)
  obtain i where i: "strip_leading bytes = drop i bytes" "i < length bytes" "\<forall>j < i. bytes ! j = 0"
    "bytes ! i \<noteq> 0 \<or> i = length bytes - 1"
  proof (cases "find (\<lambda>i. bytes ! i \<noteq> 0) [0..<length bytes]")
    case None
    then have "\<forall>j < length bytes. bytes ! j = 0" by (auto simp: find_None_iff)
    with None assms show ?thesis by (intro that [of "length bytes - 1"]) (auto simp: strip_leading_def)
  next
    case (Some i)
    then have "i < length bytes \<and> bytes ! i \<noteq> 0 \<and> (\<forall>j < i. bytes ! j = 0)"
      by (auto simp: find_Some_iff)
    with Some show ?thesis by (intro that [of i]) (auto simp: strip_leading_def)
  qed
  have "be_nat bytes = be_nat (take i bytes @ drop i bytes)" by simp
  also have "\<dots> = be_nat (drop i bytes)" using z [OF i(3)] by (simp add: be_nat_append del: append_take_drop_id)
  finally show "be_nat (strip_leading bytes) = be_nat bytes" by (simp add: i(1))
  show "strip_leading bytes \<noteq> []" using i by simp
  show "hd (strip_leading bytes) \<noteq> 0 \<or> length (strip_leading bytes) = 1"
    using i(2,4) by (auto simp: i(1) hd_drop_conv_nth)
qed

lemma be_bytes_to_u64_limbs_value:
  shows "limbs_val (be_bytes_to_u64_limbs bytes) = be_nat bytes"
    and "be_bytes_to_u64_limbs bytes \<noteq> []"
proof -
  have "limbs_val (be_bytes_to_u64_limbs bytes) = be_nat bytes \<and> be_bytes_to_u64_limbs bytes \<noteq> []"
  proof (cases "bytes = []")
    case True
    then show ?thesis by (simp add: be_bytes_to_u64_limbs_def be_nat_def)
  next
    case False
    let ?s = "strip_leading bytes"
    have ne: "?s \<noteq> []" and v: "be_nat ?s = be_nat bytes" using strip_leading_value [OF False] by blast+
    have "length (rev ?s) \<le> 8 * limb_count ?s" by (simp add: limb_count_def)
    note f = fold_or_byte [OF this]
    have "limb_count ?s \<noteq> 0" using ne by (simp add: limb_count_def div_greater_zero_iff Suc_le_eq)
    then show ?thesis using f v False by (auto simp: be_bytes_to_u64_limbs_def Let_def be_nat_def)
  qed
  then show "limbs_val (be_bytes_to_u64_limbs bytes) = be_nat bytes"
    and "be_bytes_to_u64_limbs bytes \<noteq> []" by blast+
qed

text \<open>The top limb of a stripped string is not zero, unless it is the only one.\<close>

lemma limbs_normalized:
  assumes "last (be_bytes_to_u64_limbs bytes) = 0"
  shows "length (be_bytes_to_u64_limbs bytes) = 1"
proof (cases "bytes = []")
  case True
  then show ?thesis by (simp add: be_bytes_to_u64_limbs_def)
next
  case False
  let ?s = "strip_leading bytes" and ?ls = "be_bytes_to_u64_limbs bytes"
  have ne: "?s \<noteq> []" and v: "be_nat ?s = be_nat bytes"
    and h: "hd ?s \<noteq> 0 \<or> length ?s = 1" using strip_leading_value [OF False] by blast+
  have len: "length ?ls = limb_count ?s"
    using fold_or_byte(1) [of "rev ?s" "limb_count ?s"] False
    by (simp add: be_bytes_to_u64_limbs_def Let_def limb_count_def)
  have nel: "?ls \<noteq> []" by (rule be_bytes_to_u64_limbs_value)
  then have split: "?ls = butlast ?ls @ [0]" using assms append_butlast_last_id [OF nel] by simp
  have "be_nat ?s = limbs_val ?ls" using v be_bytes_to_u64_limbs_value(1) by simp
  also have "\<dots> = limbs_val (butlast ?ls)" by (subst split) (simp add: limbs_val_append)
  also have "\<dots> < 2 ^ (64 * (limb_count ?s - 1))" using limbs_val_less [of "butlast ?ls"] len by simp
  finally have lt: "be_nat ?s < 2 ^ (64 * (limb_count ?s - 1))" .
  show ?thesis
  proof (cases "length ?s = 1")
    case True
    then show ?thesis using len by (simp add: limb_count_def)
  next
    case long: False
    then have "1 \<le> unat (hd ?s)" using h by (simp add: Suc_le_eq unat_gt_0)
    then have "256 ^ (length ?s - 1) * 1 \<le> 256 ^ (length ?s - 1) * unat (hd ?s)" by (intro mult_le_mono2)
    also have "\<dots> \<le> be_nat ?s"
    proof -
      obtain b bs where "?s = b # bs" using ne by (cases ?s) auto
      then show ?thesis using be_nat_append [of "[b]" bs] by (simp add: be_nat_def)
    qed
    finally have "(2 :: nat) ^ (8 * (length ?s - 1)) \<le> be_nat ?s" by (simp add: power_mult)
    then have "(2 :: nat) ^ (8 * (length ?s - 1)) < 2 ^ (64 * (limb_count ?s - 1))" using lt by linarith
    then have "8 * (length ?s - 1) < 64 * (limb_count ?s - 1)" by (rule power_less_imp_less_exp [rotated]) simp
    moreover have "8 * (limb_count ?s - 1) \<le> length ?s - 1" using ne by (simp add: limb_count_def)
    ultimately have False by linarith
    then show ?thesis ..
  qed
qed

lemma be_bytes_to_u256_le_value:
  shows "limbs_val (be_bytes_to_u256_le bytes) = be_nat bytes"
    and "length (be_bytes_to_u256_le bytes) mod 4 = 0" and "be_bytes_to_u256_le bytes \<noteq> []"
  using be_bytes_to_u64_limbs_value [of bytes] by (simp_all add: be_bytes_to_u256_le_def Let_def limbs_val_append)

section \<open>Back to bytes\<close>

definition flat_byte :: "u64 list \<Rightarrow> nat \<Rightarrow> u8" where
  "flat_byte flat p = ucast (drop_bit (8 * (p mod 8)) (flat ! (p div 8)))"

lemma ucast_and_mask: "(ucast (w AND 0xff :: u64) :: u8) = ucast w"
proof -
  have m: "(0xff :: u64) = mask 8" by (simp add: mask_eq_exp_minus_1)
  show ?thesis unfolding m take_bit_eq_mask [symmetric] by (intro bit_word_eqI) (auto simp: bit_simps)
qed

lemma fold_put_byte:
  assumes "m \<le> 8" and "length out = n"
  shows "length (fold (put_byte n i limb) [0..<m] out) = n"
    and "\<And>p. p < n \<Longrightarrow> fold (put_byte n i limb) [0..<m] out ! (n - 1 - p) =
      (if i * 8 \<le> p \<and> p < i * 8 + m then ucast (drop_bit (8 * (p - i * 8)) limb) else out ! (n - 1 - p))"
proof -
  have "length (fold (put_byte n i limb) [0..<m] out) = n \<and> (\<forall>p < n.
      fold (put_byte n i limb) [0..<m] out ! (n - 1 - p) =
      (if i * 8 \<le> p \<and> p < i * 8 + m then ucast (drop_bit (8 * (p - i * 8)) limb) else out ! (n - 1 - p)))"
    using assms
  proof (induction m)
    case (Suc m)
    define o' where "o' = fold (put_byte n i limb) [0..<m] out"
    have IH: "length o' = n" "\<And>p. p < n \<Longrightarrow> o' ! (n - 1 - p) =
      (if i * 8 \<le> p \<and> p < i * 8 + m then ucast (drop_bit (8 * (p - i * 8)) limb) else out ! (n - 1 - p))"
      using Suc by (simp_all add: o'_def)
    have step: "fold (put_byte n i limb) [0..<Suc m] out = put_byte n i limb m o'" by (simp add: o'_def)
    have "put_byte n i limb m o' ! (n - 1 - p) =
      (if i * 8 \<le> p \<and> p < i * 8 + Suc m then ucast (drop_bit (8 * (p - i * 8)) limb) else out ! (n - 1 - p))"
      if p: "p < n" for p
    proof (cases "p = i * 8 + m")
      case True
      then show ?thesis using p IH(1) by (simp add: put_byte_def ucast_and_mask mult.commute [of _ 8])
    next
      case False
      then have "i * 8 + m < n \<Longrightarrow> n - 1 - (i * 8 + m) \<noteq> n - 1 - p" using p by linarith
      then have "put_byte n i limb m o' ! (n - 1 - p) = o' ! (n - 1 - p)" by (auto simp: put_byte_def Let_def)
      then show ?thesis using IH(2) [OF p] False by auto
    qed
    moreover have "length (put_byte n i limb m o') = n" using IH(1) by (simp add: put_byte_def Let_def)
    ultimately show ?case unfolding step by blast
  qed auto
  then show "length (fold (put_byte n i limb) [0..<m] out) = n"
    and "\<And>p. p < n \<Longrightarrow> fold (put_byte n i limb) [0..<m] out ! (n - 1 - p) =
      (if i * 8 \<le> p \<and> p < i * 8 + m then ucast (drop_bit (8 * (p - i * 8)) limb) else out ! (n - 1 - p))" by blast+
qed

lemma u256_le_to_bytes_be_nth:
  shows "length (u256_le_to_bytes_be flat n) = n"
    and "\<And>p. p < n \<Longrightarrow> u256_le_to_bytes_be flat n ! (n - 1 - p) = (if p < 8 * length flat then flat_byte flat p else 0)"
proof -
  have "length (u256_le_to_bytes_be flat n) = n \<and> (\<forall>p < n. u256_le_to_bytes_be flat n ! (n - 1 - p) =
      (if p < 8 * length flat then flat_byte flat p else 0))"
  proof (induction flat rule: rev_induct)
    case Nil
    then show ?case by (simp add: u256_le_to_bytes_be_def zeros_def)
  next
    case (snoc limb flat)
    have step: "u256_le_to_bytes_be (flat @ [limb]) n =
        fold (put_byte n (length flat) limb) [0..<8] (u256_le_to_bytes_be flat n)"
      by (simp add: u256_le_to_bytes_be_def enumerate_append_eq)
    note put = fold_put_byte [where m = 8 and out = "u256_le_to_bytes_be flat n" and n = n and i = "length flat" and limb = limb]
    have "u256_le_to_bytes_be (flat @ [limb]) n ! (n - 1 - p) =
        (if p < 8 * length (flat @ [limb]) then flat_byte (flat @ [limb]) p else 0)" if p: "p < n" for p
    proof -
      have a: "p div 8 = length flat \<and> p mod 8 = p - length flat * 8"
        if "length flat * 8 \<le> p" "p < length flat * 8 + 8" using that by presburger
      have b: "p div 8 < length flat" if "p < length flat * 8" using that by presburger
      show ?thesis using put(2) [OF _ _ p] snoc p a b
        by (auto simp: step flat_byte_def nth_append)
    qed
    then show ?case using put(1) snoc by (simp add: step)
  qed
  then show "length (u256_le_to_bytes_be flat n) = n"
    and "\<And>p. p < n \<Longrightarrow> u256_le_to_bytes_be flat n ! (n - 1 - p) = (if p < 8 * length flat then flat_byte flat p else 0)"
    by blast+
qed

lemma limb_bytes_nth: "p < 8 * length flat \<Longrightarrow> concat (map u64_le flat) ! p = flat_byte flat p"
proof (induction flat arbitrary: p)
  case (Cons l flat)
  show ?case
  proof (cases "p < 8")
    case True
    then show ?thesis by (simp add: nth_append flat_byte_def le_bytes_def)
  next
    case False
    moreover from this have "p div 8 = Suc ((p - 8) div 8)" "(p - 8) mod 8 = p mod 8"
      by (simp_all add: le_div_geq le_mod_geq)
    ultimately show ?thesis using Cons by (simp add: nth_append flat_byte_def)
  qed
qed simp

lemma length_le_limbs [simp]: "length (concat (map u64_le ls)) = 8 * length ls"
  by (induction ls) simp_all

lemma le_nat_limbs: "le_nat (concat (map u64_le ls)) = limbs_val ls"
  by (induction ls) (simp_all add: le_nat_append le_nat_le_bytes)

lemma le_nat_take: "n \<le> length xs \<Longrightarrow> le_nat (take n xs) = le_nat xs mod 256 ^ n"
proof -
  assume n: "n \<le> length xs"
  have "le_nat xs = le_nat (take n xs) + 256 ^ n * le_nat (drop n xs)"
    using n by (subst append_take_drop_id [of n xs, symmetric]) (simp only: le_nat_append, simp)
  moreover have "le_nat (take n xs) < 256 ^ n" using le_nat_less [of "take n xs"] n by simp
  ultimately show ?thesis by simp
qed

lemma u256_le_to_bytes_be_value: "be_nat (u256_le_to_bytes_be flat n) = limbs_val flat mod 256 ^ n"
proof -
  let ?all = "concat (map u64_le flat) @ zeros n"
  have "rev (u256_le_to_bytes_be flat n) = take n ?all"
  proof (rule nth_equalityI)
    show "length (rev (u256_le_to_bytes_be flat n)) = length (take n ?all)" by (simp add: u256_le_to_bytes_be_nth)
  next
    fix p assume "p < length (rev (u256_le_to_bytes_be flat n))"
    then have p: "p < n" by (simp add: u256_le_to_bytes_be_nth)
    have "rev (u256_le_to_bytes_be flat n) ! p = u256_le_to_bytes_be flat n ! (n - 1 - p)"
      using p by (simp add: rev_nth u256_le_to_bytes_be_nth(1))
    also have "\<dots> = take n ?all ! p"
      using p by (simp add: u256_le_to_bytes_be_nth(2) [OF p, simplified] nth_append limb_bytes_nth zeros_def)
    finally show "rev (u256_le_to_bytes_be flat n) ! p = take n ?all ! p" .
  qed
  then have "be_nat (u256_le_to_bytes_be flat n) = le_nat (take n ?all)" by (simp add: be_nat_def)
  also have "\<dots> = le_nat ?all mod 256 ^ n" by (rule le_nat_take) simp
  finally show ?thesis by (simp add: le_nat_append le_nat_limbs)
qed

section \<open>Digits of a number\<close>

definition limbs_of :: "nat \<Rightarrow> nat \<Rightarrow> u64 list" where
  "limbs_of n v = map (\<lambda>i. of_nat (v div 2 ^ (64 * i))) [0..<n]"

lemma limbs_of_value: "limbs_val (limbs_of n v) = v mod 2 ^ (64 * n)"
proof (induction n)
  case (Suc n)
  have "limbs_val (limbs_of (Suc n) v) = limbs_val (limbs_of n v) + 2 ^ (64 * n) * (v div 2 ^ (64 * n) mod 2 ^ 64)"
    by (simp add: limbs_of_def limbs_val_append unat_of_nat)
  also have "\<dots> = v mod (2 ^ (64 * n) * 2 ^ 64)" using Suc by (simp add: mod_mult2_eq)
  finally show ?case by (simp add: power_add mult.commute)
qed (simp add: limbs_of_def)

end
