(* ===== verification/Evm_Hooks.thy ===== *)
theory Evm_Hooks
  imports Hash_Backend Limb_Bytes
begin

text \<open>
  The precompile hooks of the batch guest: the bodies of \<open>guest/src/hooks.rs\<close> and the C symbols of
  \<open>guest/src/main.rs\<close> that expose them to the library. ZiSK's library is a parameter, gathered in the
  record \<open>zisklib\<close> with one field per function the hooks call. A point or field element is its vector of
  64-bit limbs there. An output buffer is passed in and returned, next to the return code.
\<close>

section \<open>ZiSK's library\<close>

record zisklib_bn254 =
  bn_g1_bytes_be_to_u64_le :: "bytes \<Rightarrow> u64 list"
  bn_g2_bytes_be_to_u64_le :: "bytes \<Rightarrow> u64 list"
  bn_scalar_bytes_be_to_u64_le :: "bytes \<Rightarrow> u64 list"
  bn_add_complete_safe :: "u64 list \<Rightarrow> u64 list \<Rightarrow> (u8, u64 list) result"
  bn_scalar_mul_complete_safe :: "u64 list \<Rightarrow> u64 list \<Rightarrow> (u8, u64 list) result"
  bn_pairing_check_safe :: "u64 list list \<Rightarrow> u64 list list \<Rightarrow> (u8, bool) result"

record zisklib_bls12_381 =
  bls_g1_bytes_be_to_u64_le :: "bytes \<Rightarrow> u64 list"
  bls_g1_u64_le_to_bytes_be :: "u64 list \<Rightarrow> bytes"
  bls_g2_bytes_be_to_u64_le :: "bytes \<Rightarrow> u64 list"
  bls_g2_u64_le_to_bytes_be :: "u64 list \<Rightarrow> bytes"
  bls_scalar_bytes_be_to_u64_le :: "bytes \<Rightarrow> u64 list"
  bls_fp_bytes_be_to_u64_le :: "bytes \<Rightarrow> u64 list"
  bls_fp2_bytes_be_to_u64_le :: "bytes \<Rightarrow> u64 list"
  bls_add_complete_safe :: "u64 list \<Rightarrow> u64 list \<Rightarrow> (u8, u64 list) result"
  bls_msm_complete_safe :: "u64 list list \<Rightarrow> u64 list list \<Rightarrow> (u8, u64 list) result"
  bls_add_complete_safe_twist :: "u64 list \<Rightarrow> u64 list \<Rightarrow> (u8, u64 list) result"
  bls_msm_complete_safe_twist :: "u64 list list \<Rightarrow> u64 list list \<Rightarrow> (u8, u64 list) result"
  bls_pairing_check_safe :: "u64 list list \<Rightarrow> u64 list list \<Rightarrow> (u8, bool) result"
  bls_map_to_curve_g1 :: "u64 list \<Rightarrow> (u8, u64 list) result"
  bls_map_to_curve_g2 :: "u64 list \<Rightarrow> (u8, u64 list) result"

record zisklib =
  zl_bn254 :: zisklib_bn254
  zl_bls12_381 :: zisklib_bls12_381
  zl_sha256 :: "bytes \<Rightarrow> bytes"
  zl_modexp :: "u64 list \<Rightarrow> u64 list \<Rightarrow> u64 list \<Rightarrow> u64 list"
  zl_ecdsa_verify_secp256r1 :: "u64 list \<Rightarrow> u64 list \<Rightarrow> u64 list \<Rightarrow> u64 list \<Rightarrow> bool"
  zl_blake2b_compress :: "u32 \<Rightarrow> u64 list \<Rightarrow> u64 list \<Rightarrow> u64 list \<Rightarrow> bool \<Rightarrow> u64 list"
  zl_syscall_blake2sf :: permutation
  zl_verify_kzg_proof :: "bytes \<Rightarrow> bytes \<Rightarrow> bytes \<Rightarrow> bytes \<Rightarrow> bool"
  zl_zkvm_secp256k1_ecrecover :: "bytes \<Rightarrow> bytes \<Rightarrow> u8 \<Rightarrow> 32 word \<times> bytes"
  zl_native_keccak256 :: "bytes \<Rightarrow> bytes"

section \<open>The hooks\<close>

definition BN254_FP_BE :: bytes where
  "BN254_FP_BE =
    [0x30, 0x64, 0x4e, 0x72, 0xe1, 0x31, 0xa0, 0x29, 0xb8, 0x50, 0x45, 0xb6, 0x81, 0x81, 0x58,
     0x5d, 0x97, 0x81, 0x6a, 0x91, 0x68, 0x71, 0xca, 0x8d, 0x3c, 0x20, 0x8c, 0x16, 0xd8, 0x7c,
     0xfd, 0x47]"

text \<open>Slices compare lexicographically.\<close>

fun slice_less :: "bytes \<Rightarrow> bytes \<Rightarrow> bool" where
  "slice_less [] ys = (ys \<noteq> [])"
| "slice_less (x # xs) [] = False"
| "slice_less (x # xs) (y # ys) = (x < y \<or> (x = y \<and> slice_less xs ys))"

definition fq_is_canonical :: "bytes \<Rightarrow> bool" where
  "fq_is_canonical be = slice_less be BN254_FP_BE"

definition hook_sha256 :: "zisklib \<Rightarrow> bytes \<Rightarrow> bytes" where
  "hook_sha256 zl input = zl_sha256 zl input"

text \<open>The match every point-valued hook ends with: \<open>n\<close> limbs, all zero at infinity.\<close>

definition point_output ::
  "nat \<Rightarrow> (u64 list \<Rightarrow> bytes) \<Rightarrow> (u8, u64 list) result \<Rightarrow> bytes \<Rightarrow> u8 \<times> bytes" where
  "point_output n encode r out =
     (case r of
        Ok point \<Rightarrow> if point = replicate n 0 then (1, zeros (length out)) else (0, encode point)
      | Err code \<Rightarrow> (code, out))"

definition hook_bn254_g1_add :: "zisklib \<Rightarrow> bytes \<Rightarrow> bytes \<Rightarrow> bytes \<Rightarrow> u8 \<times> bytes" where
  "hook_bn254_g1_add zl p1 p2 out =
     (let bn = zl_bn254 zl; a = bn_g1_bytes_be_to_u64_le bn p1; b = bn_g1_bytes_be_to_u64_le bn p2
      in point_output 8 g1_limbs_le_to_bytes_be (bn_add_complete_safe bn a b) out)"

definition hook_bn254_g1_mul :: "zisklib \<Rightarrow> bytes \<Rightarrow> bytes \<Rightarrow> bytes \<Rightarrow> u8 \<times> bytes" where
  "hook_bn254_g1_mul zl point scalar out =
     (let bn = zl_bn254 zl; p = bn_g1_bytes_be_to_u64_le bn point; k = bn_scalar_bytes_be_to_u64_le bn scalar
      in point_output 8 g1_limbs_le_to_bytes_be (bn_scalar_mul_complete_safe bn p k) out)"

definition check_pair :: "zisklib \<Rightarrow> bytes \<Rightarrow> (u8, u64 list \<times> u64 list) result" where
  "check_pair zl pair =
     (let g1 = take 64 pair; g2 = drop 64 pair
      in if \<not> fq_is_canonical (take 32 g1) \<or> \<not> fq_is_canonical (drop 32 g1) then Err 2
         else if list_ex (\<lambda>c. \<not> fq_is_canonical c) (chunks_exact 32 g2) then Err 4
         else Ok (bn_g1_bytes_be_to_u64_le (zl_bn254 zl) g1, bn_g2_bytes_be_to_u64_le (zl_bn254 zl) g2))"

definition pairing_code :: "(u8, bool) result \<Rightarrow> u8" where
  "pairing_code r = (case r of Ok True \<Rightarrow> 0 | Ok False \<Rightarrow> 1 | Err code \<Rightarrow> code)"

definition hook_bn254_pairing_check :: "zisklib \<Rightarrow> bytes \<Rightarrow> u8" where
  "hook_bn254_pairing_check zl pairs =
     (case mapR (check_pair zl) (chunks_exact 192 pairs) of
        Err code \<Rightarrow> code
      | Ok points \<Rightarrow> pairing_code (bn_pairing_check_safe (zl_bn254 zl) (map fst points) (map snd points)))"

definition hook_modexp :: "zisklib \<Rightarrow> bytes \<Rightarrow> bytes \<Rightarrow> bytes \<Rightarrow> bytes \<Rightarrow> nat \<times> bytes" where
  "hook_modexp zl base expo modulus out =
     (if list_all (\<lambda>b. b = 0) modulus then (length out, zeros (length out))
      else let base_u256 = be_bytes_to_u256_le base; exp_u64 = be_bytes_to_u64_limbs expo;
               modulus_u256 = be_bytes_to_u256_le modulus;
               res = zl_modexp zl base_u256 exp_u64 modulus_u256
           in (length out, u256_le_to_bytes_be res (length out)))"

definition hook_secp256r1_verify :: "zisklib \<Rightarrow> bytes \<Rightarrow> bytes \<Rightarrow> bytes \<Rightarrow> bool" where
  "hook_secp256r1_verify zl msg sig pk =
     (let z = be_bytes_to_u64_le_4 msg;
          r = be_bytes_to_u64_le_4 (take 32 sig); s = be_bytes_to_u64_le_4 (drop 32 sig);
          x = be_bytes_to_u64_le_4 (take 32 pk); y = be_bytes_to_u64_le_4 (drop 32 pk)
      in zl_ecdsa_verify_secp256r1 zl (x @ y) z r s)"

definition hook_blake2b_compress ::
  "zisklib \<Rightarrow> u32 \<Rightarrow> u64 list \<Rightarrow> u64 list \<Rightarrow> u64 list \<Rightarrow> bool \<Rightarrow> u64 list" where
  "hook_blake2b_compress zl rounds h m t f = zl_blake2b_compress zl rounds h m t f"

definition hook_blake2sf :: "zisklib \<Rightarrow> permutation" where
  "hook_blake2sf zl v m = zl_syscall_blake2sf zl v m"

definition hook_verify_kzg_proof :: "zisklib \<Rightarrow> bytes \<Rightarrow> bytes \<Rightarrow> bytes \<Rightarrow> bytes \<Rightarrow> bool" where
  "hook_verify_kzg_proof zl z y commitment pf = zl_verify_kzg_proof zl z y commitment pf"

definition hook_bls12_381_g1_add :: "zisklib \<Rightarrow> bytes \<Rightarrow> bytes \<Rightarrow> bytes \<Rightarrow> u8 \<times> bytes" where
  "hook_bls12_381_g1_add zl a b out =
     (let bls = zl_bls12_381 zl
      in point_output 12 (bls_g1_u64_le_to_bytes_be bls)
           (bls_add_complete_safe bls (bls_g1_bytes_be_to_u64_le bls a) (bls_g1_bytes_be_to_u64_le bls b)) out)"

definition hook_bls12_381_g1_msm :: "zisklib \<Rightarrow> bytes \<Rightarrow> bytes \<Rightarrow> u8 \<times> bytes" where
  "hook_bls12_381_g1_msm zl pairs out =
     (let bls = zl_bls12_381 zl; chunks = chunks_exact 128 pairs;
          points = map (\<lambda>pair. bls_g1_bytes_be_to_u64_le bls (take 96 pair)) chunks;
          scalars = map (\<lambda>pair. bls_scalar_bytes_be_to_u64_le bls (drop 96 pair)) chunks
      in point_output 12 (bls_g1_u64_le_to_bytes_be bls) (bls_msm_complete_safe bls points scalars) out)"

definition hook_bls12_381_g2_add :: "zisklib \<Rightarrow> bytes \<Rightarrow> bytes \<Rightarrow> bytes \<Rightarrow> u8 \<times> bytes" where
  "hook_bls12_381_g2_add zl a b out =
     (let bls = zl_bls12_381 zl
      in point_output 24 (bls_g2_u64_le_to_bytes_be bls)
           (bls_add_complete_safe_twist bls (bls_g2_bytes_be_to_u64_le bls a) (bls_g2_bytes_be_to_u64_le bls b)) out)"

definition hook_bls12_381_g2_msm :: "zisklib \<Rightarrow> bytes \<Rightarrow> bytes \<Rightarrow> u8 \<times> bytes" where
  "hook_bls12_381_g2_msm zl pairs out =
     (let bls = zl_bls12_381 zl; chunks = chunks_exact 224 pairs;
          points = map (\<lambda>pair. bls_g2_bytes_be_to_u64_le bls (take 192 pair)) chunks;
          scalars = map (\<lambda>pair. bls_scalar_bytes_be_to_u64_le bls (drop 192 pair)) chunks
      in point_output 24 (bls_g2_u64_le_to_bytes_be bls) (bls_msm_complete_safe_twist bls points scalars) out)"

definition hook_bls12_381_pairing_check :: "zisklib \<Rightarrow> bytes \<Rightarrow> u8" where
  "hook_bls12_381_pairing_check zl pairs =
     (let bls = zl_bls12_381 zl; chunks = chunks_exact 288 pairs;
          g1_points = map (\<lambda>pair. bls_g1_bytes_be_to_u64_le bls (take 96 pair)) chunks;
          g2_points = map (\<lambda>pair. bls_g2_bytes_be_to_u64_le bls (drop 96 pair)) chunks
      in pairing_code (bls_pairing_check_safe bls g1_points g2_points))"

definition map_output :: "(u64 list \<Rightarrow> bytes) \<Rightarrow> (u8, u64 list) result \<Rightarrow> bytes \<Rightarrow> u8 \<times> bytes" where
  "map_output encode r out = (case r of Ok point \<Rightarrow> (0, encode point) | Err code \<Rightarrow> (code, out))"

definition hook_bls12_381_fp_to_g1 :: "zisklib \<Rightarrow> bytes \<Rightarrow> bytes \<Rightarrow> u8 \<times> bytes" where
  "hook_bls12_381_fp_to_g1 zl fp out =
     (let bls = zl_bls12_381 zl
      in map_output (bls_g1_u64_le_to_bytes_be bls) (bls_map_to_curve_g1 bls (bls_fp_bytes_be_to_u64_le bls fp)) out)"

definition hook_bls12_381_fp2_to_g2 :: "zisklib \<Rightarrow> bytes \<Rightarrow> bytes \<Rightarrow> u8 \<times> bytes" where
  "hook_bls12_381_fp2_to_g2 zl fp2 out =
     (let bls = zl_bls12_381 zl
      in map_output (bls_g2_u64_le_to_bytes_be bls) (bls_map_to_curve_g2 bls (bls_fp2_bytes_be_to_u64_le bls fp2)) out)"

section \<open>The C symbols\<close>

text \<open>
  A pointer is the memory from its address on; a symbol reads as many bytes as it assumes the caller's
  buffer to have. The symbols that only forward their buffers are the hooks themselves.
\<close>

definition sha256_c :: "zisklib \<Rightarrow> bytes \<Rightarrow> nat \<Rightarrow> bytes" where
  "sha256_c zl input input_len = hook_sha256 zl (take input_len input)"

definition bn254_g1_add_c :: "zisklib \<Rightarrow> bytes \<Rightarrow> bytes \<Rightarrow> bytes \<Rightarrow> u8 \<times> bytes" where
  "bn254_g1_add_c zl p1 p2 ret = hook_bn254_g1_add zl (take 64 p1) (take 64 p2) ret"

definition bn254_g1_mul_c :: "zisklib \<Rightarrow> bytes \<Rightarrow> bytes \<Rightarrow> bytes \<Rightarrow> u8 \<times> bytes" where
  "bn254_g1_mul_c zl point scalar ret = hook_bn254_g1_mul zl (take 64 point) (take 32 scalar) ret"

definition bn254_pairing_check_c :: "zisklib \<Rightarrow> bytes \<Rightarrow> nat \<Rightarrow> u8" where
  "bn254_pairing_check_c zl pairs num_pairs = hook_bn254_pairing_check zl (take (num_pairs * 192) pairs)"

definition modexp_bytes_c ::
  "zisklib \<Rightarrow> bytes \<Rightarrow> nat \<Rightarrow> bytes \<Rightarrow> nat \<Rightarrow> bytes \<Rightarrow> nat \<Rightarrow> bytes \<Rightarrow> nat \<times> bytes" where
  "modexp_bytes_c zl base base_len expo exp_len modulus modulus_len ret =
     hook_modexp zl (take base_len base) (take exp_len expo) (take modulus_len modulus) (take modulus_len ret)"

definition secp256r1_ecdsa_verify_c :: "zisklib \<Rightarrow> bytes \<Rightarrow> bytes \<Rightarrow> bytes \<Rightarrow> bool" where
  "secp256r1_ecdsa_verify_c zl msg sig pk = hook_secp256r1_verify zl (take 32 msg) (take 64 sig) (take 64 pk)"

definition secp256k1_ecdsa_address_recover_c :: "zisklib \<Rightarrow> bytes \<Rightarrow> u8 \<Rightarrow> bytes \<Rightarrow> bytes \<Rightarrow> u8 \<times> bytes" where
  "secp256k1_ecdsa_address_recover_c zl sig recid msg output =
     (let (status, pubkey) = zl_zkvm_secp256k1_ecrecover zl msg sig recid
      in if status \<noteq> 0 then (1, output)
         else let hash = zl_native_keccak256 zl pubkey in (0, zeros 12 @ drop 12 hash))"

definition blake2b_compress_c ::
  "zisklib \<Rightarrow> u32 \<Rightarrow> u64 list \<Rightarrow> u64 list \<Rightarrow> u64 list \<Rightarrow> u8 \<Rightarrow> u64 list" where
  "blake2b_compress_c zl rounds h m t f = hook_blake2b_compress zl rounds h m t (f \<noteq> 0)"

definition blake2sf_c :: "zisklib \<Rightarrow> permutation" where
  "blake2sf_c zl v m = hook_blake2sf zl v m"

definition verify_kzg_proof_c :: "zisklib \<Rightarrow> bytes \<Rightarrow> bytes \<Rightarrow> bytes \<Rightarrow> bytes \<Rightarrow> bool" where
  "verify_kzg_proof_c zl z y commitment pf =
     hook_verify_kzg_proof zl (take 32 z) (take 32 y) (take 48 commitment) (take 48 pf)"

definition bls12_381_g1_add_c :: "zisklib \<Rightarrow> bytes \<Rightarrow> bytes \<Rightarrow> bytes \<Rightarrow> u8 \<times> bytes" where
  "bls12_381_g1_add_c zl ret a b = hook_bls12_381_g1_add zl (take 96 a) (take 96 b) ret"

definition bls12_381_g1_msm_c :: "zisklib \<Rightarrow> bytes \<Rightarrow> bytes \<Rightarrow> nat \<Rightarrow> u8 \<times> bytes" where
  "bls12_381_g1_msm_c zl ret pairs num_pairs = hook_bls12_381_g1_msm zl (take (num_pairs * 128) pairs) ret"

definition bls12_381_g2_add_c :: "zisklib \<Rightarrow> bytes \<Rightarrow> bytes \<Rightarrow> bytes \<Rightarrow> u8 \<times> bytes" where
  "bls12_381_g2_add_c zl ret a b = hook_bls12_381_g2_add zl (take 192 a) (take 192 b) ret"

definition bls12_381_g2_msm_c :: "zisklib \<Rightarrow> bytes \<Rightarrow> bytes \<Rightarrow> nat \<Rightarrow> u8 \<times> bytes" where
  "bls12_381_g2_msm_c zl ret pairs num_pairs = hook_bls12_381_g2_msm zl (take (num_pairs * 224) pairs) ret"

definition bls12_381_pairing_check_c :: "zisklib \<Rightarrow> bytes \<Rightarrow> nat \<Rightarrow> u8" where
  "bls12_381_pairing_check_c zl pairs num_pairs = hook_bls12_381_pairing_check zl (take (num_pairs * 288) pairs)"

definition bls12_381_fp_to_g1_c :: "zisklib \<Rightarrow> bytes \<Rightarrow> bytes \<Rightarrow> u8 \<times> bytes" where
  "bls12_381_fp_to_g1_c zl ret fp = hook_bls12_381_fp_to_g1 zl (take 48 fp) ret"

definition bls12_381_fp2_to_g2_c :: "zisklib \<Rightarrow> bytes \<Rightarrow> bytes \<Rightarrow> u8 \<times> bytes" where
  "bls12_381_fp2_to_g2_c zl ret fp2 = hook_bls12_381_fp2_to_g2 zl (take 96 fp2) ret"

end
