(* ===== verification/Evm_Crypto.thy ===== *)
theory Evm_Crypto
  imports Evm_Hooks
begin

text \<open>
  The crypto provider of the library, \<open>lib/src/crypto/impls.rs\<close>: REVM's precompiles and the signer
  recovery of transactions go through \<open>CustomEvmCrypto\<close>. On the zkVM target a method packs its arguments
  and calls a C symbol of the guest; on any other target it calls REVM's default crypto, a parameter, and
  for signers the \<open>k256\<close> crate, another one. The datatype \<open>target\<close> selects between the two builds. The hint
  emission that a third build (\<open>zisk_hints\<close>) adds is left out: it does not change a result.
\<close>

section \<open>Targets\<close>

datatype precompile_halt =
  HaltOther string
| Bn254FieldPointNotAMember
| Secp256k1RecoverFailed
| BlobVerifyKzgProofFailed
| Bls12381G1NotOnCurve
| Bls12381G1NotInSubgroup
| Bls12381G2NotOnCurve
| Bls12381G2NotInSubgroup
| HostHalt string

type_synonym g1_point = "bytes \<times> bytes"
type_synonym g2_point = "bytes \<times> bytes \<times> bytes \<times> bytes"
type_synonym 'a halting = "(precompile_halt, 'a) result"

record default_crypto =
  dc_sha256 :: "bytes \<Rightarrow> bytes"
  dc_bn254_g1_add :: "bytes \<Rightarrow> bytes \<Rightarrow> bytes halting"
  dc_bn254_g1_mul :: "bytes \<Rightarrow> bytes \<Rightarrow> bytes halting"
  dc_bn254_pairing_check :: "(bytes \<times> bytes) list \<Rightarrow> bool halting"
  dc_secp256k1_ecrecover :: "bytes \<Rightarrow> u8 \<Rightarrow> bytes \<Rightarrow> bytes halting"
  dc_modexp :: "bytes \<Rightarrow> bytes \<Rightarrow> bytes \<Rightarrow> bytes halting"
  dc_blake2_compress :: "u32 \<Rightarrow> u64 list \<Rightarrow> u64 list \<Rightarrow> u64 list \<Rightarrow> bool \<Rightarrow> u64 list"
  dc_secp256r1_verify_signature :: "bytes \<Rightarrow> bytes \<Rightarrow> bytes \<Rightarrow> bool"
  dc_verify_kzg_proof :: "bytes \<Rightarrow> bytes \<Rightarrow> bytes \<Rightarrow> bytes \<Rightarrow> unit halting"
  dc_bls12_381_g1_add :: "g1_point \<Rightarrow> g1_point \<Rightarrow> bytes halting"
  dc_bls12_381_g1_msm :: "(g1_point \<times> bytes) halting list \<Rightarrow> bytes halting"
  dc_bls12_381_g2_add :: "g2_point \<Rightarrow> g2_point \<Rightarrow> bytes halting"
  dc_bls12_381_g2_msm :: "(g2_point \<times> bytes) halting list \<Rightarrow> bytes halting"
  dc_bls12_381_pairing_check :: "(g1_point \<times> g2_point) list \<Rightarrow> bool halting"
  dc_bls12_381_fp_to_g1 :: "bytes \<Rightarrow> bytes halting"
  dc_bls12_381_fp2_to_g2 :: "bytes \<times> bytes \<Rightarrow> bytes halting"

datatype target = ZkVm zisklib | Native default_crypto

section \<open>The precompiles\<close>

definition evm_sha256 :: "target \<Rightarrow> bytes \<Rightarrow> bytes" where
  "evm_sha256 tgt input =
     (case tgt of ZkVm zl \<Rightarrow> sha256_c zl input (length input) | Native dc \<Rightarrow> dc_sha256 dc input)"

definition evm_bn254_g1_add :: "target \<Rightarrow> bytes \<Rightarrow> bytes \<Rightarrow> bytes halting" where
  "evm_bn254_g1_add tgt p1 p2 =
     (case tgt of
        ZkVm zl \<Rightarrow>
          (let (ret, res) = bn254_g1_add_c zl p1 p2 (zeros 64)
           in if ret = 0 \<or> ret = 1 then Ok res
              else if ret = 2 then Err (HaltOther ''bn254_g1_add inputs not in field'')
              else if ret = 3 then Err Bn254FieldPointNotAMember
              else Err (HaltOther ''bn254_g1_add failed''))
      | Native dc \<Rightarrow> dc_bn254_g1_add dc p1 p2)"

definition evm_bn254_g1_mul :: "target \<Rightarrow> bytes \<Rightarrow> bytes \<Rightarrow> bytes halting" where
  "evm_bn254_g1_mul tgt point scalar =
     (case tgt of
        ZkVm zl \<Rightarrow>
          (let (ret, res) = bn254_g1_mul_c zl point scalar (zeros 64)
           in if ret = 0 \<or> ret = 1 then Ok res
              else if ret = 2 then Err (HaltOther ''bn254_g1_mul inputs not in field'')
              else if ret = 3 then Err Bn254FieldPointNotAMember
              else Err (HaltOther ''bn254_g1_mul failed''))
      | Native dc \<Rightarrow> dc_bn254_g1_mul dc point scalar)"

definition evm_bn254_pairing_check :: "target \<Rightarrow> (bytes \<times> bytes) list \<Rightarrow> bool halting" where
  "evm_bn254_pairing_check tgt pairs =
     (case tgt of
        ZkVm zl \<Rightarrow>
          (let pairs_bytes = concat (map (\<lambda>(g1, g2). g1 @ g2) pairs);
               ret = bn254_pairing_check_c zl pairs_bytes (length pairs)
           in if ret = 0 then Ok True
              else if ret = 1 then Ok False
              else if ret = 2 then Err (HaltOther ''bn254 G1 inputs not in field'')
              else if ret = 3 then Err Bn254FieldPointNotAMember
              else if ret = 4 then Err (HaltOther ''bn254 G2 inputs not in field'')
              else if ret = 5 then Err (HaltOther ''bn254 G2 point not on curve'')
              else if ret = 6 then Err (HaltOther ''bn254 pairing check subgroup check failed'')
              else Err (HaltOther ''bn254_pairing_check failed''))
      | Native dc \<Rightarrow> dc_bn254_pairing_check dc pairs)"

definition evm_secp256k1_ecrecover :: "target \<Rightarrow> bytes \<Rightarrow> u8 \<Rightarrow> bytes \<Rightarrow> bytes halting" where
  "evm_secp256k1_ecrecover tgt sig recid msg =
     (case tgt of
        ZkVm zl \<Rightarrow>
          (let (ret, output) = secp256k1_ecdsa_address_recover_c zl sig recid msg (zeros 32)
           in if ret = 0 then Ok output else Err Secp256k1RecoverFailed)
      | Native dc \<Rightarrow> dc_secp256k1_ecrecover dc sig recid msg)"

definition evm_modexp :: "target \<Rightarrow> bytes \<Rightarrow> bytes \<Rightarrow> bytes \<Rightarrow> bytes halting" where
  "evm_modexp tgt base expo modulus =
     (case tgt of
        ZkVm zl \<Rightarrow>
          Ok (snd (modexp_bytes_c zl base (length base) expo (length expo) modulus (length modulus)
                (zeros (length modulus))))
      | Native dc \<Rightarrow> dc_modexp dc base expo modulus)"

definition evm_blake2_compress ::
  "target \<Rightarrow> u32 \<Rightarrow> u64 list \<Rightarrow> u64 list \<Rightarrow> u64 list \<Rightarrow> bool \<Rightarrow> u64 list" where
  "evm_blake2_compress tgt rounds h m t f =
     (case tgt of
        ZkVm zl \<Rightarrow> blake2b_compress_c zl rounds h m t (of_bool f)
      | Native dc \<Rightarrow> dc_blake2_compress dc rounds h m t f)"

definition evm_secp256r1_verify_signature :: "target \<Rightarrow> bytes \<Rightarrow> bytes \<Rightarrow> bytes \<Rightarrow> bool" where
  "evm_secp256r1_verify_signature tgt msg sig pk =
     (case tgt of
        ZkVm zl \<Rightarrow> secp256r1_ecdsa_verify_c zl msg sig pk
      | Native dc \<Rightarrow> dc_secp256r1_verify_signature dc msg sig pk)"

definition evm_verify_kzg_proof :: "target \<Rightarrow> bytes \<Rightarrow> bytes \<Rightarrow> bytes \<Rightarrow> bytes \<Rightarrow> unit halting" where
  "evm_verify_kzg_proof tgt z y commitment pf =
     (case tgt of
        ZkVm zl \<Rightarrow>
          (let valid = verify_kzg_proof_c zl z y commitment pf
           in if \<not> valid then Err BlobVerifyKzgProofFailed else Ok ())
      | Native dc \<Rightarrow> dc_verify_kzg_proof dc z y commitment pf)"

definition g1_bytes :: "g1_point \<Rightarrow> bytes" where
  "g1_bytes = (\<lambda>(x, y). x @ y)"

definition g2_bytes :: "g2_point \<Rightarrow> bytes" where
  "g2_bytes = (\<lambda>(x0, x1, y0, y1). x0 @ x1 @ y0 @ y1)"

definition evm_bls12_381_g1_add :: "target \<Rightarrow> g1_point \<Rightarrow> g1_point \<Rightarrow> bytes halting" where
  "evm_bls12_381_g1_add tgt a b =
     (case tgt of
        ZkVm zl \<Rightarrow>
          (let (ret, res) = bls12_381_g1_add_c zl (zeros 96) (g1_bytes a) (g1_bytes b)
           in if ret = 0 \<or> ret = 1 then Ok res else Err Bls12381G1NotOnCurve)
      | Native dc \<Rightarrow> dc_bls12_381_g1_add dc a b)"

definition evm_bls12_381_g1_msm :: "target \<Rightarrow> (g1_point \<times> bytes) halting list \<Rightarrow> bytes halting" where
  "evm_bls12_381_g1_msm tgt pairs =
     rbind (mapR id pairs) (\<lambda>collected.
     case tgt of
       ZkVm zl \<Rightarrow>
         (let pairs_bytes = concat (map (\<lambda>(point, scalar). g1_bytes point @ scalar) collected);
              num_pairs = length collected;
              (ret, res) = bls12_381_g1_msm_c zl (zeros 96) pairs_bytes num_pairs
          in if ret = 0 \<or> ret = 1 then Ok res
             else if ret = 2 then Err Bls12381G1NotOnCurve
             else if ret = 3 then Err Bls12381G1NotInSubgroup
             else Err (HaltOther ''bls12_381_g1_msm failed''))
     | Native dc \<Rightarrow> dc_bls12_381_g1_msm dc (map Ok collected))"

definition evm_bls12_381_g2_add :: "target \<Rightarrow> g2_point \<Rightarrow> g2_point \<Rightarrow> bytes halting" where
  "evm_bls12_381_g2_add tgt a b =
     (case tgt of
        ZkVm zl \<Rightarrow>
          (let (ret, res) = bls12_381_g2_add_c zl (zeros 192) (g2_bytes a) (g2_bytes b)
           in if ret = 0 \<or> ret = 1 then Ok res else Err Bls12381G2NotOnCurve)
      | Native dc \<Rightarrow> dc_bls12_381_g2_add dc a b)"

definition evm_bls12_381_g2_msm :: "target \<Rightarrow> (g2_point \<times> bytes) halting list \<Rightarrow> bytes halting" where
  "evm_bls12_381_g2_msm tgt pairs =
     rbind (mapR id pairs) (\<lambda>collected.
     case tgt of
       ZkVm zl \<Rightarrow>
         (let pairs_bytes = concat (map (\<lambda>(point, scalar). g2_bytes point @ scalar) collected);
              num_pairs = length collected;
              (ret, res) = bls12_381_g2_msm_c zl (zeros 192) pairs_bytes num_pairs
          in if ret = 0 \<or> ret = 1 then Ok res
             else if ret = 2 then Err Bls12381G2NotOnCurve
             else if ret = 3 then Err Bls12381G2NotInSubgroup
             else Err (HaltOther ''bls12_381_g2_msm failed''))
     | Native dc \<Rightarrow> dc_bls12_381_g2_msm dc (map Ok collected))"

definition evm_bls12_381_pairing_check :: "target \<Rightarrow> (g1_point \<times> g2_point) list \<Rightarrow> bool halting" where
  "evm_bls12_381_pairing_check tgt pairs =
     (case tgt of
        ZkVm zl \<Rightarrow>
          (let pairs_bytes = concat (map (\<lambda>(g1, g2). g1_bytes g1 @ g2_bytes g2) pairs);
               ret = bls12_381_pairing_check_c zl pairs_bytes (length pairs)
           in if ret = 0 then Ok True
              else if ret = 1 then Ok False
              else if ret = 2 then Err Bls12381G1NotOnCurve
              else if ret = 3 then Err Bls12381G1NotInSubgroup
              else if ret = 4 then Err Bls12381G2NotOnCurve
              else if ret = 5 then Err Bls12381G2NotInSubgroup
              else Err (HaltOther ''bls12_381_pairing_check failed''))
      | Native dc \<Rightarrow> dc_bls12_381_pairing_check dc pairs)"

definition evm_bls12_381_fp_to_g1 :: "target \<Rightarrow> bytes \<Rightarrow> bytes halting" where
  "evm_bls12_381_fp_to_g1 tgt fp =
     (case tgt of
        ZkVm zl \<Rightarrow>
          (let (ret, res) = bls12_381_fp_to_g1_c zl (zeros 96) fp
           in if ret = 0 then Ok res else Err (HaltOther ''bls12_381_fp_to_g1 failed''))
      | Native dc \<Rightarrow> dc_bls12_381_fp_to_g1 dc fp)"

definition evm_bls12_381_fp2_to_g2 :: "target \<Rightarrow> bytes \<times> bytes \<Rightarrow> bytes halting" where
  "evm_bls12_381_fp2_to_g2 tgt fp2 =
     (case tgt of
        ZkVm zl \<Rightarrow>
          (let (ret, res) = bls12_381_fp2_to_g2_c zl (zeros 192) (g1_bytes fp2)
           in if ret = 0 then Ok res else Err (HaltOther ''bls12_381_fp2_to_g2 failed''))
      | Native dc \<Rightarrow> dc_bls12_381_fp2_to_g2 dc fp2)"

section \<open>Signer recovery\<close>

text \<open>The operations of the \<open>k256\<close> crate, over its signatures, recovery ids and keys.\<close>

record ('s, 'r, 'k) k256 =
  kc_signature_from_slice :: "bytes \<Rightarrow> 's option"
  kc_normalize_s :: "'s \<Rightarrow> 's option"
  kc_recovery_id_from_byte :: "u8 \<Rightarrow> 'r option"
  kc_recover_from_prehash :: "bytes \<Rightarrow> 's \<Rightarrow> 'r \<Rightarrow> 'k option"
  kc_from_sec1_bytes :: "bytes \<Rightarrow> 'k option"
  kc_verify_prehash :: "'k \<Rightarrow> bytes \<Rightarrow> 's \<Rightarrow> bool"
  kc_to_encoded_point :: "'k \<Rightarrow> bytes"
  kc_keccak256 :: "bytes \<Rightarrow> bytes"

datatype recovery_error = RecoveryError

datatype ('s, 'r, 'k) signer_target = ZkVmSigner zisklib | NativeSigner "('s, 'r, 'k) k256"

definition public_key_to_address :: "('s, 'r, 'k) k256 \<Rightarrow> 'k \<Rightarrow> address" where
  "public_key_to_address kc key =
     (let hash = kc_keccak256 kc (drop 1 (kc_to_encoded_point kc key)) in of_be_bytes (drop 12 hash))"

definition recover_signer_unchecked ::
  "('s, 'r, 'k) signer_target \<Rightarrow> bytes \<Rightarrow> bytes \<Rightarrow> (recovery_error, address) result" where
  "recover_signer_unchecked tgt sig msg =
     (case tgt of
        ZkVmSigner zl \<Rightarrow>
          (let sig_bytes = take 64 sig; recid = sig ! 64;
               (ret, output) = secp256k1_ecdsa_address_recover_c zl sig_bytes recid msg (zeros 32)
           in if ret = 0 then Ok (of_be_bytes (drop 12 output)) else Err RecoveryError)
      | NativeSigner kc \<Rightarrow>
          rbind (ok_or (kc_signature_from_slice kc (take 64 sig)) RecoveryError) (\<lambda>signature.
          let recid = sig ! 64;
              (signature, recid) =
                (case kc_normalize_s kc signature of
                   Some normalized \<Rightarrow> (normalized, recid XOR 1) | None \<Rightarrow> (signature, recid))
          in rbind (ok_or (kc_recovery_id_from_byte kc recid) RecoveryError) (\<lambda>recid.
             rbind (ok_or (kc_recover_from_prehash kc msg signature recid) RecoveryError) (\<lambda>recovered_key.
             Ok (public_key_to_address kc recovered_key)))))"

text \<open>The symbol behind verify-and-recover on the zkVM target is a stub that panics.\<close>

datatype stub_panic = PrecompileNotImplemented

definition secp256k1_ecdsa_verify_and_address_recover_c ::
  "bytes \<Rightarrow> bytes \<Rightarrow> bytes \<Rightarrow> bytes \<Rightarrow> (stub_panic, u8 \<times> bytes) result" where
  "secp256k1_ecdsa_verify_and_address_recover_c sig msg pk output = Err PrecompileNotImplemented"

definition verify_and_compute_signer_unchecked ::
  "('s, 'r, 'k) signer_target \<Rightarrow> bytes \<Rightarrow> bytes \<Rightarrow> bytes \<Rightarrow> (stub_panic, (recovery_error, address) result) result" where
  "verify_and_compute_signer_unchecked tgt pubkey sig msg =
     (case tgt of
        ZkVmSigner zl \<Rightarrow>
          rbind (secp256k1_ecdsa_verify_and_address_recover_c sig msg (drop 1 pubkey) (zeros 32)) (\<lambda>(ret, output).
          Ok (if ret = 0 then Ok (of_be_bytes (drop 12 output)) else Err RecoveryError))
      | NativeSigner kc \<Rightarrow>
          Ok (rbind (ok_or (kc_from_sec1_bytes kc pubkey) RecoveryError) (\<lambda>vk.
              rbind (ok_or (kc_signature_from_slice kc sig) RecoveryError) (\<lambda>signature.
              let signature = (case kc_normalize_s kc signature of Some normalized \<Rightarrow> normalized | None \<Rightarrow> signature)
              in rbind (ensure (kc_verify_prehash kc vk msg signature) RecoveryError) (\<lambda>_.
                 Ok (public_key_to_address kc vk))))))"

end
