(* ===== verification/Evm_Crypto_Claims.thy ===== *)
theory Evm_Crypto_Claims
  imports Evm_Crypto
begin

text \<open>
  What the EVM crypto provider of the guest computes: the pairing check against the decoded points, the
  modular exponentiation against the arithmetic of natural numbers, the widths of every curve result, and
  signer recovery against the host's. The laws of ZiSK's library that a property relies on are named
  hypotheses, and a sample backend satisfies them in the witnesses.
\<close>

section \<open>Chunks and coordinates\<close>

lemma chunks_exact_Nil [simp]: "chunks_exact n [] = []"
  by (subst chunks_exact.simps) auto

lemma chunks_exact_append: "0 < n \<Longrightarrow> length xs = n \<Longrightarrow> chunks_exact n (xs @ ys) = xs # chunks_exact n ys"
  by (simp add: chunks_exact.simps [of n "xs @ ys"])

lemma chunks_exact_concat: "0 < n \<Longrightarrow> \<forall>x \<in> set xss. length x = n \<Longrightarrow> chunks_exact n (concat xss) = xss"
  by (induction xss) (simp_all add: chunks_exact_append)

lemma length_concat_chunks: "\<forall>x \<in> set xss. length x = n \<Longrightarrow> length (concat xss) = length xss * n"
  by (induction xss) simp_all

lemma slice_less_iff: "length xs = length ys \<Longrightarrow> slice_less xs ys \<longleftrightarrow> be_nat xs < be_nat ys"
proof (induction xs ys rule: slice_less.induct)
  case (3 x xs y ys)
  then have len: "length xs = length ys" by simp
  have lt: "be_nat xs < 256 ^ length ys" "be_nat ys < 256 ^ length ys"
    using le_nat_less [of "rev xs"] le_nat_less [of "rev ys"] len by (simp_all add: be_nat_def)
  have c: "be_nat (z # zs) = 256 ^ length zs * unat z + be_nat zs" for z zs
    using be_nat_append [of "[z]" zs] by (simp add: be_nat_def)
  have less: "256 ^ length ys * unat a + be_nat as < 256 ^ length ys * unat b + be_nat bs"
    if "a < b" "be_nat as < 256 ^ length ys" for a b :: u8 and as bs
  proof -
    have "Suc (unat a) \<le> unat b" using that(1) by (simp add: word_less_nat_alt Suc_le_eq)
    then have "256 ^ length ys * Suc (unat a) \<le> 256 ^ length ys * unat b" by (rule mult_le_mono2)
    then show ?thesis using that(2) by simp
  qed
  consider "x < y" | "x = y" | "y < x" by fastforce
  then show ?case
  proof cases
    case 1
    then show ?thesis using less [OF 1 lt(1)] len by (simp add: c)
  next
    case 2
    then show ?thesis using 3 len by (simp add: c)
  next
    case 3
    then show ?thesis using less [OF 3 lt(2), of xs] len by (auto simp: c)
  qed
qed (simp_all add: be_nat_def)

text \<open>A field element is canonical when the number it encodes is below the modulus.\<close>

definition BN254_FP :: nat where
  "BN254_FP = 21888242871839275222246405745257275088696311157297823662689037894645226208583"

lemma be_nat_BN254_FP_BE: "be_nat BN254_FP_BE = BN254_FP"
  by (simp add: be_nat_def BN254_FP_BE_def BN254_FP_def)

lemma fq_is_canonical_iff: "length be = 32 \<Longrightarrow> fq_is_canonical be \<longleftrightarrow> be_nat be < BN254_FP"
  using slice_less_iff [of be BN254_FP_BE] by (simp add: fq_is_canonical_def be_nat_BN254_FP_BE) (simp add: BN254_FP_BE_def)

definition coordinates :: "bytes \<times> bytes \<Rightarrow> bytes list" where
  "coordinates = (\<lambda>(g1, g2). chunks_exact 32 g1 @ chunks_exact 32 g2)"

definition canonical_pair :: "bytes \<times> bytes \<Rightarrow> bool" where
  "canonical_pair p \<longleftrightarrow> (\<forall>c \<in> set (coordinates p). be_nat c < BN254_FP)"

definition sized_pair :: "bytes \<times> bytes \<Rightarrow> bool" where
  "sized_pair p \<longleftrightarrow> length (fst p) = 64 \<and> length (snd p) = 128"

lemma chunks_exact_lengths: "0 < n \<Longrightarrow> c \<in> set (chunks_exact n xs) \<Longrightarrow> length c = n"
proof (induction n xs rule: chunks_exact.induct)
  case (1 n xs)
  then show ?case by (subst (asm) chunks_exact.simps) (auto split: if_splits)
qed

lemma chunks_64: "length g1 = 64 \<Longrightarrow> chunks_exact 32 g1 = [take 32 g1, drop 32 g1]"
  using chunks_exact_append [of 32 "take 32 g1" "drop 32 g1"] chunks_exact_append [of 32 "drop 32 g1" "[]"] by simp

lemma check_pair_value:
  assumes "sized_pair (g1, g2)"
  shows "check_pair zl (g1 @ g2) =
    (if \<exists>c \<in> set (chunks_exact 32 g1). \<not> be_nat c < BN254_FP then Err 2
     else if \<exists>c \<in> set (chunks_exact 32 g2). \<not> be_nat c < BN254_FP then Err 4
     else Ok (bn_g1_bytes_be_to_u64_le (zl_bn254 zl) g1, bn_g2_bytes_be_to_u64_le (zl_bn254 zl) g2))"
proof -
  have g1: "length g1 = 64" and g2: "length g2 = 128" using assms by (simp_all add: sized_pair_def)
  have "list_ex (\<lambda>c. \<not> fq_is_canonical c) (chunks_exact 32 g2) \<longleftrightarrow>
      (\<exists>c \<in> set (chunks_exact 32 g2). \<not> be_nat c < BN254_FP)"
    using chunks_exact_lengths [of 32 _ g2] by (auto simp: list_ex_iff fq_is_canonical_iff)
  then show ?thesis using g1 g2 by (auto simp: check_pair_def Let_def chunks_64 fq_is_canonical_iff)
qed

lemma check_pair_Ok_iff:
  assumes "sized_pair (g1, g2)"
  shows "check_pair zl (g1 @ g2) = Ok x \<longleftrightarrow> canonical_pair (g1, g2) \<and>
    x = (bn_g1_bytes_be_to_u64_le (zl_bn254 zl) g1, bn_g2_bytes_be_to_u64_le (zl_bn254 zl) g2)"
  by (auto simp: check_pair_value [OF assms] canonical_pair_def coordinates_def)

lemma check_pair_code: "sized_pair p \<Longrightarrow> check_pair zl (fst p @ snd p) = Err code \<Longrightarrow> code = 2 \<or> code = 4"
  by (cases p) (auto simp: check_pair_value split: if_splits)

text \<open>The symbol reads exactly the bytes the provider packs.\<close>

lemma packed_pairs:
  assumes "\<forall>p \<in> set pairs. sized_pair p"
  shows "length (concat (map (\<lambda>(g1, g2). g1 @ g2) pairs)) = length pairs * 192"
    and "chunks_exact 192 (concat (map (\<lambda>(g1, g2). g1 @ g2) pairs)) = map (\<lambda>(g1, g2). g1 @ g2) pairs"
proof -
  have "\<forall>x \<in> set (map (\<lambda>(g1, g2). g1 @ g2) pairs). length x = 192" using assms by (auto simp: sized_pair_def)
  from length_concat_chunks [OF this] chunks_exact_concat [OF _ this]
  show "length (concat (map (\<lambda>(g1, g2). g1 @ g2) pairs)) = length pairs * 192"
    and "chunks_exact 192 (concat (map (\<lambda>(g1, g2). g1 @ g2) pairs)) = map (\<lambda>(g1, g2). g1 @ g2) pairs" by simp_all
qed

section \<open>The BN254 pairing check\<close>

definition decoded_pairing :: "zisklib \<Rightarrow> (bytes \<times> bytes) list \<Rightarrow> (u8, bool) result" where
  "decoded_pairing zl pairs = bn_pairing_check_safe (zl_bn254 zl)
     (map (bn_g1_bytes_be_to_u64_le (zl_bn254 zl) \<circ> fst) pairs) (map (bn_g2_bytes_be_to_u64_le (zl_bn254 zl) \<circ> snd) pairs)"

text \<open>ZiSK's library documents the codes 2 to 6 for its errors.\<close>

definition error_codes_ok :: "zisklib \<Rightarrow> bool" where
  "error_codes_ok zl \<longleftrightarrow> (\<forall>ps qs code. bn_pairing_check_safe (zl_bn254 zl) ps qs = Err code \<longrightarrow> 2 \<le> code)"

lemma check_pairs:
  assumes "\<forall>p \<in> set pairs. sized_pair p"
  shows "mapR (check_pair zl) (map (\<lambda>(g1, g2). g1 @ g2) pairs) = Ok points \<longleftrightarrow>
    (\<forall>p \<in> set pairs. canonical_pair p) \<and>
    points = map (\<lambda>p. (bn_g1_bytes_be_to_u64_le (zl_bn254 zl) (fst p), bn_g2_bytes_be_to_u64_le (zl_bn254 zl) (snd p))) pairs"
  using assms
proof (induction pairs arbitrary: points)
  case (Cons p pairs)
  then show ?case by (cases p) (auto simp: check_pair_Ok_iff)
qed auto

lemma mapR_Err: "mapR f xs = Err e \<Longrightarrow> \<exists>x \<in> set xs. f x = Err e"
proof (induction xs)
  case (Cons x xs)
  then show ?case by (cases "f x"; cases "mapR f xs") auto
qed simp

lemma hook_pairing_code:
  assumes sized: "\<forall>p \<in> set pairs. sized_pair p"
  shows "\<forall>p \<in> set pairs. canonical_pair p \<Longrightarrow>
      bn254_pairing_check_c zl (concat (map (\<lambda>(g1, g2). g1 @ g2) pairs)) (length pairs) = pairing_code (decoded_pairing zl pairs)"
    and "\<not> (\<forall>p \<in> set pairs. canonical_pair p) \<Longrightarrow>
      bn254_pairing_check_c zl (concat (map (\<lambda>(g1, g2). g1 @ g2) pairs)) (length pairs) \<in> {2, 4}"
proof -
  let ?bs = "concat (map (\<lambda>(g1, g2). g1 @ g2) pairs)"
  have c: "bn254_pairing_check_c zl ?bs (length pairs) =
    (case mapR (check_pair zl) (map (\<lambda>(g1, g2). g1 @ g2) pairs) of
        Err code \<Rightarrow> code
      | Ok points \<Rightarrow> pairing_code (bn_pairing_check_safe (zl_bn254 zl) (map fst points) (map snd points)))"
    using packed_pairs [OF sized] by (simp add: bn254_pairing_check_c_def hook_bn254_pairing_check_def)
  {
    assume can: "\<forall>p \<in> set pairs. canonical_pair p"
    then obtain points where "mapR (check_pair zl) (map (\<lambda>(g1, g2). g1 @ g2) pairs) = Ok points"
      "points = map (\<lambda>p. (bn_g1_bytes_be_to_u64_le (zl_bn254 zl) (fst p), bn_g2_bytes_be_to_u64_le (zl_bn254 zl) (snd p))) pairs"
      using check_pairs [OF sized] by blast
    then show "bn254_pairing_check_c zl ?bs (length pairs) = pairing_code (decoded_pairing zl pairs)"
      by (simp add: c decoded_pairing_def comp_def)
  }
  assume "\<not> (\<forall>p \<in> set pairs. canonical_pair p)"
  then have "mapR (check_pair zl) (map (\<lambda>(g1, g2). g1 @ g2) pairs) \<noteq> Ok points" for points
    using check_pairs [OF sized] by blast
  then obtain code where code: "mapR (check_pair zl) (map (\<lambda>(g1, g2). g1 @ g2) pairs) = Err code"
    by (cases "mapR (check_pair zl) (map (\<lambda>(g1, g2). g1 @ g2) pairs)") auto
  then obtain p where "p \<in> set pairs" "check_pair zl (fst p @ snd p) = Err code"
    using mapR_Err by (fastforce split: prod.splits)
  then have "code \<in> {2, 4}" using check_pair_code sized by blast
  then show "bn254_pairing_check_c zl ?bs (length pairs) \<in> {2, 4}" by (simp add: c code)
qed

lemma pairing_accepted:
  assumes sized: "\<forall>p \<in> set pairs. sized_pair p" and codes: "error_codes_ok zl"
  shows "evm_bn254_pairing_check (ZkVm zl) pairs = Ok b \<longleftrightarrow>
    (\<forall>p \<in> set pairs. canonical_pair p) \<and> decoded_pairing zl pairs = Ok b"
proof -
  let ?bs = "concat (map (\<lambda>(g1, g2). g1 @ g2) pairs)"
  let ?ret = "bn254_pairing_check_c zl ?bs (length pairs)"
  have ret: "evm_bn254_pairing_check (ZkVm zl) pairs = Ok b \<longleftrightarrow> ?ret = (if b then 0 else 1)"
    by (cases b) (auto simp: evm_bn254_pairing_check_def Let_def)
  show ?thesis
  proof (cases "\<forall>p \<in> set pairs. canonical_pair p")
    case True
    have "?ret = pairing_code (decoded_pairing zl pairs)" by (rule hook_pairing_code(1) [OF sized True])
    moreover have "pairing_code (decoded_pairing zl pairs) = (if b then 0 else 1) \<longleftrightarrow> decoded_pairing zl pairs = Ok b"
    proof (cases "decoded_pairing zl pairs")
      case (Err code)
      then have "2 \<le> code" using codes by (auto simp: error_codes_ok_def decoded_pairing_def)
      then have "code \<noteq> 0 \<and> code \<noteq> 1" by (auto simp: word_le_nat_alt)
      then show ?thesis using Err by (simp add: pairing_code_def)
    next
      case (Ok x)
      then show ?thesis by (cases x) (auto simp: pairing_code_def)
    qed
    ultimately show ?thesis using True ret by simp
  next
    case False
    have "?ret \<noteq> (if b then 0 else 1)" using hook_pairing_code(2) [OF sized False, of zl] by (cases b) auto
    then show ?thesis using ret False by blast
  qed
qed

text \<open>
  Next to a reference that parses every coordinate canonically and agrees with ZiSK's library on canonical
  input, the two targets accept the same pairs with the same answer.
\<close>

definition pairing_reference :: "zisklib \<Rightarrow> default_crypto \<Rightarrow> bool" where
  "pairing_reference zl dc \<longleftrightarrow> (\<forall>pairs. (\<forall>p \<in> set pairs. sized_pair p) \<longrightarrow>
     (\<forall>b. dc_bn254_pairing_check dc pairs = Ok b \<longleftrightarrow>
        (\<forall>p \<in> set pairs. canonical_pair p) \<and> decoded_pairing zl pairs = Ok b))"

lemma pairing_targets_agree:
  assumes "\<forall>p \<in> set pairs. sized_pair p" and "error_codes_ok zl" and "pairing_reference zl dc"
  shows "evm_bn254_pairing_check (ZkVm zl) pairs = Ok b \<longleftrightarrow> evm_bn254_pairing_check (Native dc) pairs = Ok b"
proof -
  have "evm_bn254_pairing_check (Native dc) pairs = Ok b \<longleftrightarrow>
      (\<forall>p \<in> set pairs. canonical_pair p) \<and> decoded_pairing zl pairs = Ok b"
    using assms(1,3) unfolding pairing_reference_def by (simp add: evm_bn254_pairing_check_def)
  then show ?thesis using pairing_accepted [OF assms(1,2)] by blast
qed

section \<open>Modular exponentiation\<close>

text \<open>
  What \<open>zisklib::modexp\<close> documents: on normalized operands and a modulus that is not zero it returns limbs
  of the power modulo the modulus.
\<close>

definition modexp_backend :: "zisklib \<Rightarrow> bool" where
  "modexp_backend zl \<longleftrightarrow> (\<forall>b e m.
     b \<noteq> [] \<and> length b mod 4 = 0 \<and> e \<noteq> [] \<and> (last e = 0 \<longrightarrow> length e = 1) \<and>
     m \<noteq> [] \<and> length m mod 4 = 0 \<and> limbs_val m \<noteq> 0 \<longrightarrow>
     limbs_val (zl_modexp zl b e m) = limbs_val b ^ limbs_val e mod limbs_val m)"

lemma be_nat_0_iff: "be_nat bs = 0 \<longleftrightarrow> list_all (\<lambda>b. b = 0) bs"
proof -
  have "le_nat xs = 0 \<longleftrightarrow> list_all (\<lambda>b. b = 0) xs" for xs
    by (induction xs) (simp_all add: unat_eq_zero)
  from this [of "rev bs"] show ?thesis by (simp add: be_nat_def)
qed

lemma modexp_value:
  assumes "modexp_backend zl"
  shows "\<exists>r. evm_modexp (ZkVm zl) base expo modulus = Ok r \<and> length r = length modulus \<and>
    be_nat r = (if be_nat modulus = 0 then 0 else be_nat base ^ be_nat expo mod be_nat modulus)"
proof (cases "be_nat modulus = 0")
  case True
  then have "evm_modexp (ZkVm zl) base expo modulus = Ok (zeros (length modulus))"
    by (simp add: evm_modexp_def modexp_bytes_c_def hook_modexp_def be_nat_0_iff)
  then show ?thesis using True by (simp add: be_nat_def zeros_def) (simp flip: zeros_def)
next
  case False
  let ?r = "zl_modexp zl (be_bytes_to_u256_le base) (be_bytes_to_u64_limbs expo) (be_bytes_to_u256_le modulus)"
  have ok: "evm_modexp (ZkVm zl) base expo modulus = Ok (u256_le_to_bytes_be ?r (length modulus))"
    using False by (simp add: evm_modexp_def modexp_bytes_c_def hook_modexp_def be_nat_0_iff Let_def)
  have val: "limbs_val ?r = be_nat base ^ be_nat expo mod be_nat modulus"
    using assms be_bytes_to_u256_le_value be_bytes_to_u64_limbs_value limbs_normalized [of expo] False
    unfolding modexp_backend_def by simp
  have "be_nat modulus < 256 ^ length modulus" using le_nat_less [of "rev modulus"] by (simp add: be_nat_def)
  moreover have "limbs_val ?r < be_nat modulus" using val False by simp
  ultimately have "limbs_val ?r < 256 ^ length modulus" by linarith
  then show ?thesis using ok val False by (simp add: u256_le_to_bytes_be_nth u256_le_to_bytes_be_value)
qed

section \<open>Widths\<close>

definition backend_widths :: "zisklib \<Rightarrow> bool" where
  "backend_widths zl \<longleftrightarrow>
     (\<forall>p. length (bls_g1_u64_le_to_bytes_be (zl_bls12_381 zl) p) = 96) \<and>
     (\<forall>p. length (bls_g2_u64_le_to_bytes_be (zl_bls12_381 zl) p) = 192) \<and>
     (\<forall>bs. length (zl_native_keccak256 zl bs) = 32)"

lemma length_g1_limbs [simp]: "length (g1_limbs_le_to_bytes_be limbs) = 64"
proof -
  have "length (concat (map (\<lambda>i. u64_be (f i)) [0..<4])) = 32" for f
    using length_concat_chunks [of "map (\<lambda>i. u64_be (f i)) [0..<4]" 8] by simp
  then show ?thesis by (simp add: g1_limbs_le_to_bytes_be_def)
qed

lemma point_output_width:
  "(\<And>p. length (encode p) = length out) \<Longrightarrow> length (snd (point_output n encode r out)) = length out"
  by (simp add: point_output_def split: result.split)

lemma map_output_width:
  "(\<And>p. length (encode p) = length out) \<Longrightarrow> length (snd (map_output encode r out)) = length out"
  by (simp add: map_output_def split: result.split)

lemmas evm_bn254_defs = evm_bn254_g1_add_def bn254_g1_add_c_def hook_bn254_g1_add_def
  evm_bn254_g1_mul_def bn254_g1_mul_c_def hook_bn254_g1_mul_def

lemma bn254_widths:
  shows "evm_bn254_g1_add (ZkVm zl) p1 p2 = Ok r \<Longrightarrow> length r = 64"
    and "evm_bn254_g1_mul (ZkVm zl) p1 k = Ok r \<Longrightarrow> length r = 64"
  by (auto simp: evm_bn254_defs Let_def case_prod_unfold point_output_width split: if_splits)

lemmas evm_bls_defs =
  evm_bls12_381_g1_add_def bls12_381_g1_add_c_def hook_bls12_381_g1_add_def
  evm_bls12_381_g1_msm_def bls12_381_g1_msm_c_def hook_bls12_381_g1_msm_def
  evm_bls12_381_g2_add_def bls12_381_g2_add_c_def hook_bls12_381_g2_add_def
  evm_bls12_381_g2_msm_def bls12_381_g2_msm_c_def hook_bls12_381_g2_msm_def
  evm_bls12_381_fp_to_g1_def bls12_381_fp_to_g1_c_def hook_bls12_381_fp_to_g1_def
  evm_bls12_381_fp2_to_g2_def bls12_381_fp2_to_g2_c_def hook_bls12_381_fp2_to_g2_def

lemma bls_widths:
  assumes "backend_widths zl"
  shows "evm_bls12_381_g1_add (ZkVm zl) a b = Ok r \<Longrightarrow> length r = 96"
    and "evm_bls12_381_g1_msm (ZkVm zl) ps = Ok r \<Longrightarrow> length r = 96"
    and "evm_bls12_381_g2_add (ZkVm zl) c d = Ok r \<Longrightarrow> length r = 192"
    and "evm_bls12_381_g2_msm (ZkVm zl) qs = Ok r \<Longrightarrow> length r = 192"
    and "evm_bls12_381_fp_to_g1 (ZkVm zl) fp = Ok r \<Longrightarrow> length r = 96"
    and "evm_bls12_381_fp2_to_g2 (ZkVm zl) fp2 = Ok r \<Longrightarrow> length r = 192"
  using assms by (auto simp: evm_bls_defs Let_def backend_widths_def case_prod_unfold point_output_width map_output_width
      split: if_splits)

section \<open>Signer recovery\<close>

text \<open>
  The plain recovery of \<open>k256\<close>, which the accelerated symbol documents to compute, and the invariance under
  normalization that the guest relies on when it leaves the high half of \<open>s\<close> as it is.
\<close>

definition plain_recovery :: "('s, 'r, 'k) k256 \<Rightarrow> 's \<Rightarrow> u8 \<Rightarrow> bytes \<Rightarrow> 'k option" where
  "plain_recovery kc s recid msg =
     (case kc_recovery_id_from_byte kc recid of None \<Rightarrow> None | Some r \<Rightarrow> kc_recover_from_prehash kc msg s r)"

definition recovery_reference :: "zisklib \<Rightarrow> ('s, 'r, 'k) k256 \<Rightarrow> bool" where
  "recovery_reference zl kc \<longleftrightarrow>
     zl_native_keccak256 zl = kc_keccak256 kc \<and>
     (\<forall>msg sig recid. case kc_signature_from_slice kc sig of
        None \<Rightarrow> fst (zl_zkvm_secp256k1_ecrecover zl msg sig recid) \<noteq> 0
      | Some s \<Rightarrow> (case plain_recovery kc s recid msg of
            None \<Rightarrow> fst (zl_zkvm_secp256k1_ecrecover zl msg sig recid) \<noteq> 0
          | Some key \<Rightarrow> zl_zkvm_secp256k1_ecrecover zl msg sig recid = (0, drop 1 (kc_to_encoded_point kc key)))) \<and>
     (\<forall>s s' recid msg. kc_normalize_s kc s = Some s' \<longrightarrow>
        plain_recovery kc s' (recid XOR 1) msg = plain_recovery kc s recid msg)"

lemma native_signer:
  assumes "kc_signature_from_slice kc (take 64 sig) = Some s"
    and "\<forall>s s' recid msg. kc_normalize_s kc s = Some s' \<longrightarrow>
        plain_recovery kc s' (recid XOR 1) msg = plain_recovery kc s recid msg"
  shows "recover_signer_unchecked (NativeSigner kc) sig msg =
    (case plain_recovery kc s (sig ! 64) msg of None \<Rightarrow> Err RecoveryError | Some key \<Rightarrow> Ok (public_key_to_address kc key))"
proof -
  have p: "rbind (ok_or (kc_recovery_id_from_byte kc r) RecoveryError) (\<lambda>recid.
      rbind (ok_or (kc_recover_from_prehash kc msg s' recid) RecoveryError) (\<lambda>key. Ok (public_key_to_address kc key))) =
      (case plain_recovery kc s' r msg of None \<Rightarrow> Err RecoveryError | Some key \<Rightarrow> Ok (public_key_to_address kc key))" for s' r
    by (simp add: plain_recovery_def ok_or_def split: option.splits)
  show ?thesis
  proof (cases "kc_normalize_s kc s")
    case None
    then show ?thesis by (simp add: recover_signer_unchecked_def assms(1) p)
  next
    case (Some s')
    then have "plain_recovery kc s' (sig ! 64 XOR 1) msg = plain_recovery kc s (sig ! 64) msg" using assms(2) by blast
    with Some show ?thesis by (simp add: recover_signer_unchecked_def assms(1) p)
  qed
qed

lemma signers_agree:
  assumes "recovery_reference zl kc"
  shows "recover_signer_unchecked (ZkVmSigner zl) sig msg = recover_signer_unchecked (NativeSigner kc) sig msg"
proof -
  let ?rec = "zl_zkvm_secp256k1_ecrecover zl msg (take 64 sig) (sig ! 64)"
  have norm: "\<forall>s s' recid msg. kc_normalize_s kc s = Some s' \<longrightarrow>
      plain_recovery kc s' (recid XOR 1) msg = plain_recovery kc s recid msg"
    and kk: "zl_native_keccak256 zl = kc_keccak256 kc"
    and r: "case kc_signature_from_slice kc (take 64 sig) of
        None \<Rightarrow> fst ?rec \<noteq> 0
      | Some s \<Rightarrow> (case plain_recovery kc s (sig ! 64) msg of
            None \<Rightarrow> fst ?rec \<noteq> 0
          | Some key \<Rightarrow> ?rec = (0, drop 1 (kc_to_encoded_point kc key)))"
    using assms unfolding recovery_reference_def by blast+
  have zk: "recover_signer_unchecked (ZkVmSigner zl) sig msg =
      (if fst ?rec \<noteq> 0 then Err RecoveryError else Ok (of_be_bytes (drop 12 (zl_native_keccak256 zl (snd ?rec)))))"
    by (simp add: recover_signer_unchecked_def secp256k1_ecdsa_address_recover_c_def Let_def split: prod.split)
  show ?thesis
  proof (cases "kc_signature_from_slice kc (take 64 sig)")
    case None
    then show ?thesis using r zk by (simp add: recover_signer_unchecked_def)
  next
    case (Some s)
    show ?thesis
    proof (cases "plain_recovery kc s (sig ! 64) msg")
      case None
      then show ?thesis using r zk Some native_signer [OF Some norm] by simp
    next
      case key: (Some key)
      then show ?thesis using r zk Some native_signer [OF Some norm] by (simp add: public_key_to_address_def kk)
    qed
  qed
qed

section \<open>A sample backend\<close>

definition sample_bn254 :: zisklib_bn254 where
  "sample_bn254 =
     \<lparr>bn_g1_bytes_be_to_u64_le = \<lambda>p. be_bytes_to_u64_le_4 (take 32 p) @ be_bytes_to_u64_le_4 (drop 32 p),
      bn_g2_bytes_be_to_u64_le = \<lambda>p. concat (map be_bytes_to_u64_le_4 (chunks_exact 32 p)),
      bn_scalar_bytes_be_to_u64_le = be_bytes_to_u64_le_4,
      bn_add_complete_safe = \<lambda>p q. Ok p, bn_scalar_mul_complete_safe = \<lambda>p k. Ok p,
      bn_pairing_check_safe = \<lambda>ps qs. Ok (length ps = 1)\<rparr>"

definition sample_bls12_381 :: zisklib_bls12_381 where
  "sample_bls12_381 =
     \<lparr>bls_g1_bytes_be_to_u64_le = \<lambda>p. [], bls_g1_u64_le_to_bytes_be = \<lambda>p. zeros 96,
      bls_g2_bytes_be_to_u64_le = \<lambda>p. [], bls_g2_u64_le_to_bytes_be = \<lambda>p. zeros 192,
      bls_scalar_bytes_be_to_u64_le = be_bytes_to_u64_le_4, bls_fp_bytes_be_to_u64_le = \<lambda>p. [],
      bls_fp2_bytes_be_to_u64_le = \<lambda>p. [],
      bls_add_complete_safe = \<lambda>p q. Ok p, bls_msm_complete_safe = \<lambda>ps ks. Err 2,
      bls_add_complete_safe_twist = \<lambda>p q. Ok p, bls_msm_complete_safe_twist = \<lambda>ps ks. Err 3,
      bls_pairing_check_safe = \<lambda>ps qs. Ok True, bls_map_to_curve_g1 = Ok, bls_map_to_curve_g2 = Ok\<rparr>"

definition sample_zisklib :: zisklib where
  "sample_zisklib =
     \<lparr>zl_bn254 = sample_bn254, zl_bls12_381 = sample_bls12_381, zl_sha256 = \<lambda>bs. zeros 32,
      zl_modexp = \<lambda>b e m. limbs_of (length m) (limbs_val b ^ limbs_val e mod limbs_val m),
      zl_ecdsa_verify_secp256r1 = \<lambda>pk z r s. True, zl_blake2b_compress = \<lambda>rounds h m t f. h,
      zl_syscall_blake2sf = \<lambda>v m. v, zl_verify_kzg_proof = \<lambda>z y c p. True,
      zl_zkvm_secp256k1_ecrecover = \<lambda>msg sig recid. (0, tl sig @ msg),
      zl_native_keccak256 = \<lambda>bs. take 32 (bs @ zeros 32)\<rparr>"

definition sample_k256 :: "(bytes, u8, bytes) k256" where
  "sample_k256 =
     \<lparr>kc_signature_from_slice = Some, kc_normalize_s = \<lambda>s. if s \<noteq> [] \<and> hd s = 1 then Some (0 # tl s) else None,
      kc_recovery_id_from_byte = Some, kc_recover_from_prehash = \<lambda>msg s r. Some (tl s @ msg),
      kc_from_sec1_bytes = \<lambda>pk. Some (drop 1 pk), kc_verify_prehash = \<lambda>key msg s. True,
      kc_to_encoded_point = \<lambda>key. 4 # key, kc_keccak256 = \<lambda>bs. take 32 (bs @ zeros 32)\<rparr>"

lemma length_take_padded: "length (take n (bs @ zeros n)) = n"
  unfolding length_take length_append by simp

section \<open>Claims\<close>

text \<open>
  C26. The modular exponentiation precompile of the guest returns, for operands of any length, the big-endian
  power modulo the modulus in as many bytes as the modulus has, and zeros for a zero modulus, whenever ZiSK's
  big-integer routine computes that power on the normalized limbs it documents to take.
\<close>

theorem modexp_precompile_correct:
  assumes "modexp_backend zl"
  shows "\<exists>r. evm_modexp (ZkVm zl) base expo modulus = Ok r \<and> length r = length modulus \<and>
    be_nat r = (if be_nat modulus = 0 then 0 else be_nat base ^ be_nat expo mod be_nat modulus)"
  using assms by (rule modexp_value)

theorem modexp_precompile_correct_witness:
  "\<exists>r. evm_modexp (ZkVm sample_zisklib) [3] [4] [0, 5] = Ok r \<and> length r = 2 \<and> be_nat r = 1"
proof -
  have "modexp_backend sample_zisklib" unfolding modexp_backend_def
  proof (intro allI impI, elim conjE)
    fix b e m assume "limbs_val m \<noteq> 0"
    then have "limbs_val b ^ limbs_val e mod limbs_val m < limbs_val m" by simp
    also have "\<dots> < 2 ^ (64 * length m)" by (rule limbs_val_less)
    finally show "limbs_val (zl_modexp sample_zisklib b e m) = limbs_val b ^ limbs_val e mod limbs_val m"
      by (simp add: sample_zisklib_def limbs_of_value)
  qed
  moreover have "length [0, 5 :: u8] = 2" and "be_nat [0, 5] \<noteq> 0" and "be_nat [3] ^ be_nat [4] mod be_nat [0, 5] = 1"
    by (simp_all add: be_nat_def)
  ultimately show ?thesis using modexp_precompile_correct [of sample_zisklib "[3]" "[4]" "[0, 5]"] by metis
qed

text \<open>
  C25. The pairing check of the guest accepts a list of pairs exactly when every coordinate of every point,
  also next to a point at infinity, is below the field modulus and ZiSK's library answers on the decoded
  points, and then returns that answer. The symbol reads no byte beyond the ones the provider packs.
\<close>

theorem pairing_check_canonical:
  assumes "\<forall>p \<in> set pairs. sized_pair p" and "error_codes_ok zl"
  shows "(evm_bn254_pairing_check (ZkVm zl) pairs = Ok b \<longleftrightarrow>
      (\<forall>p \<in> set pairs. canonical_pair p) \<and> decoded_pairing zl pairs = Ok b) \<and>
    length (concat (map (\<lambda>(g1, g2). g1 @ g2) pairs)) = length pairs * 192"
  using pairing_accepted [OF assms] packed_pairs(1) [OF assms(1)] by blast

theorem pairing_check_canonical_witness:
  "evm_bn254_pairing_check (ZkVm sample_zisklib) [(zeros 64, zeros 128)] = Ok True \<and>
   evm_bn254_pairing_check (ZkVm sample_zisklib) [(BN254_FP_BE @ zeros 32, zeros 128)] \<noteq> Ok True"
proof -
  have codes: "error_codes_ok sample_zisklib" by (simp add: error_codes_ok_def sample_zisklib_def sample_bn254_def)
  have p: "length BN254_FP_BE = 32" by (simp add: BN254_FP_BE_def)
  have z: "be_nat c < BN254_FP" if "c \<in> set (chunks_exact 32 (zeros n))" for c n
  proof -
    have "set (chunks_exact k xs) \<subseteq> {c. set c \<subseteq> set xs}" for k and xs :: bytes
    proof (induction k xs rule: chunks_exact.induct)
      case (1 k xs)
      then show ?case by (subst chunks_exact.simps) (auto dest: in_set_takeD in_set_dropD)
    qed
    from this [of 32 "zeros n"] that have "set c \<subseteq> set (zeros n)" by blast
    then have "\<forall>x \<in> set c. x = 0" by (auto simp: zeros_def split: if_splits)
    then have "be_nat c = 0" by (simp add: be_nat_0_iff list_all_iff)
    then show ?thesis by (simp add: BN254_FP_def)
  qed
  have "canonical_pair (zeros 64, zeros 128)" using z by (auto simp: canonical_pair_def coordinates_def)
  moreover have "\<not> canonical_pair (BN254_FP_BE @ zeros 32, zeros 128)"
    using p by (simp add: canonical_pair_def coordinates_def chunks_64 be_nat_BN254_FP_BE)
  ultimately show ?thesis
    using pairing_check_canonical [OF _ codes, of "[(zeros 64, zeros 128)]" True]
      pairing_check_canonical [OF _ codes, of "[(BN254_FP_BE @ zeros 32, zeros 128)]" True] p
    by (simp add: sized_pair_def decoded_pairing_def sample_zisklib_def sample_bn254_def)
qed





end
