(* ===== verification/Proof_File.thy ===== *)
theory Proof_File
  imports Zisk_Verifier
begin

text \<open>
  The proof files the prover daemon reads (\<open>prover/src/prover.rs\<close>, second half): the \<open>pilfflonk\<close> SNARK file
  and the \<open>vadcop_final\<close> stream, the inspection tool (\<open>prover/src/bin/inspect_proof.rs\<close>) and the command
  that assembles aggregator input from files (\<open>prover/src/bin/aggregator_input.rs\<close>). bincode's decoders are
  a parameter; the contents of a file are \<open>None\<close> where \<open>std::fs::read\<close> fails.
\<close>

section \<open>Constants\<close>

definition ZISK_SNARK_PROOF_BYTES :: nat where "ZISK_SNARK_PROOF_BYTES = 69 * 32"
definition ZISK_PUBLIC_VALUES_BYTES :: nat where "ZISK_PUBLIC_VALUES_BYTES = 576"
definition ZISK_PUBLICS_WORDS :: nat where "ZISK_PUBLICS_WORDS = 64"
definition PROGRAM_VK_LEN :: nat where "PROGRAM_VK_LEN = 4"

definition SNARK_FILE_MAGIC :: bytes where
  "SNARK_FILE_MAGIC = map of_char ''ZISKPLNK''"

definition SEED_TRAILER_TAG :: u64 where
  "SEED_TRAILER_TAG = of_le_bytes (map of_char ''ZISKSEED'')"

definition SEED_TRAILER_WORDS :: nat where "SEED_TRAILER_WORDS = 4 + 1"

definition PROOF_BODY_PLONK :: u32 where "PROOF_BODY_PLONK = 1"
definition PROOF_BODY_PILFFLONK :: u32 where "PROOF_BODY_PILFFLONK = 2"

lemmas file_layout = ZISK_SNARK_PROOF_BYTES_def ZISK_PUBLIC_VALUES_BYTES_def ZISK_PUBLICS_WORDS_def
  PROGRAM_VK_LEN_def SEED_TRAILER_WORDS_def

section \<open>The SNARK file\<close>

datatype zisk_hash_mode = Poseidon1 | Poseidon2 | Blake3

definition ZISK_PROOF_HASH_MODE :: zisk_hash_mode where "ZISK_PROOF_HASH_MODE = Poseidon1"

record zisk_program_vk =
  pk_vk :: "u64 list"
  pk_hash_mode :: zisk_hash_mode

record zisk_pilfflonk_file =
  pf_proof_bytes :: bytes
  pf_vkey_json :: string
  pf_publics :: bytes
  pf_publics_full :: "u64 list"
  pf_rootc :: "u64 list"
  pf_program_vk :: zisk_program_vk
  pf_random_seed :: "bytes option"

text \<open>bincode's decoders return the value and the number of bytes they consumed.\<close>

record file_bincode =
  fb_decode_u32 :: "bytes \<Rightarrow> (u32 \<times> nat) option"
  fb_decode_pilfflonk :: "bytes \<Rightarrow> (zisk_pilfflonk_file \<times> nat) option"

datatype proof_file_error =
  FileUnreadable
| NotASnark
| FileUndecodable
| PlonkSnark
| UnknownBodyVariant u32
| TrailingBytes nat nat
| WrongHashFamily zisk_hash_mode
| ProofBytesLength nat
| ProgramVkWords nat
| RootCWords nat
| PublicsFullWords nat
| PublicsProgramVkDiffers
| AssembledPublicValuesLength nat
| SnarkNotAStream
| StreamInvalid agg_error

record zisk_snark_output =
  so_proof :: bytes
  so_public_values :: bytes

definition extend_be :: "bytes \<Rightarrow> u64 list \<Rightarrow> bytes" where
  "extend_be out words = foldl (\<lambda>out word. out @ u64_be word) out words"

definition strip_prefix :: "'a list \<Rightarrow> 'a list \<Rightarrow> 'a list option" where
  "strip_prefix prefix xs = (if take (length prefix) xs = prefix then Some (drop (length prefix) xs) else None)"

definition check_body_variant :: "u32 \<Rightarrow> (proof_file_error, unit) result" where
  "check_body_variant variant =
     (if variant = PROOF_BODY_PILFFLONK then Ok ()
      else if variant = PROOF_BODY_PLONK then Err PlonkSnark
      else Err (UnknownBodyVariant variant))"

definition snark_output :: "zisk_pilfflonk_file \<Rightarrow> (proof_file_error, zisk_snark_output) result" where
  "snark_output file =
     rbind (ensure (pk_hash_mode (pf_program_vk file) = ZISK_PROOF_HASH_MODE)
              (WrongHashFamily (pk_hash_mode (pf_program_vk file)))) (\<lambda>_.
     rbind (ensure (length (pf_proof_bytes file) = ZISK_SNARK_PROOF_BYTES)
              (ProofBytesLength (length (pf_proof_bytes file)))) (\<lambda>_.
     rbind (ensure (length (pk_vk (pf_program_vk file)) = PROGRAM_VK_LEN)
              (ProgramVkWords (length (pk_vk (pf_program_vk file))))) (\<lambda>_.
     rbind (ensure (length (pf_rootc file) = PROGRAM_VK_LEN) (RootCWords (length (pf_rootc file)))) (\<lambda>_.
     rbind (ensure (length (pf_publics_full file) = PROGRAM_VK_LEN + ZISK_PUBLICS_WORDS)
              (PublicsFullWords (length (pf_publics_full file)))) (\<lambda>_.
     rbind (ensure (take PROGRAM_VK_LEN (pf_publics_full file) = pk_vk (pf_program_vk file)) PublicsProgramVkDiffers) (\<lambda>_.
     let public_values = extend_be [] (pk_vk (pf_program_vk file));
         public_values = foldl (\<lambda>out word. out @ u64_le word) public_values (drop PROGRAM_VK_LEN (pf_publics_full file));
         public_values = extend_be public_values (pf_rootc file)
     in rbind (ensure (length public_values = ZISK_PUBLIC_VALUES_BYTES)
                 (AssembledPublicValuesLength (length public_values))) (\<lambda>_.
        Ok \<lparr>so_proof = pf_proof_bytes file, so_public_values = public_values\<rparr>)))))))"

definition parse_proof_file :: "file_bincode \<Rightarrow> bytes option \<Rightarrow> (proof_file_error, zisk_snark_output) result" where
  "parse_proof_file fb contents =
     rbind (ok_or contents FileUnreadable) (\<lambda>data.
     rbind (ok_or (strip_prefix SNARK_FILE_MAGIC data) NotASnark) (\<lambda>rest.
     rbind (ok_or (fb_decode_u32 fb rest) FileUndecodable) (\<lambda>(variant, head).
     rbind (check_body_variant variant) (\<lambda>_.
     let rest = drop head rest
     in rbind (ok_or (fb_decode_pilfflonk fb rest) FileUndecodable) (\<lambda>(file, consumed).
        rbind (ensure (consumed = length rest) (TrailingBytes consumed (length rest))) (\<lambda>_.
        snark_output file))))))"

section \<open>The stream file\<close>

definition ends_with :: "'a list \<Rightarrow> 'a list \<Rightarrow> bool" where
  "ends_with xs suffix = (length suffix \<le> length xs \<and> drop (length xs - length suffix) xs = suffix)"

definition truncate_trailer :: "bytes \<Rightarrow> bytes" where
  "truncate_trailer data =
     (let trailer_bytes = SEED_TRAILER_WORDS * 8
      in if trailer_bytes \<le> length data \<and> ends_with data (u64_le SEED_TRAILER_TAG)
         then take (length data - trailer_bytes) data else data)"

definition vadcop_stream_from_proof_file :: "nat \<Rightarrow> bytes option \<Rightarrow> (proof_file_error, bytes) result" where
  "vadcop_stream_from_proof_file address contents =
     rbind (ok_or contents FileUnreadable) (\<lambda>data.
     rbind (ensure (strip_prefix SNARK_FILE_MAGIC data = None) SnarkNotAStream) (\<lambda>_.
     let data = truncate_trailer data
     in rbind (map_err StreamInvalid (words_from_bytes address data)) (\<lambda>words.
        rbind (map_err StreamInvalid (frame_parse words)) (\<lambda>_.
        Ok data))))"

definition load_proof_stream :: "nat \<Rightarrow> bytes option \<Rightarrow> (proof_file_error, bytes) result" where
  "load_proof_stream address contents = vadcop_stream_from_proof_file address contents"

section \<open>The command line tools\<close>

text \<open>The assertion on the padding of a slot is the \<open>None\<close> of \<open>inspect_commitment\<close>.\<close>

definition inspect_commitment :: "bytes \<Rightarrow> bytes option" where
  "inspect_commitment public_values =
     (let slots = chunks8 (take 64 (drop 32 public_values))
      in if list_all (\<lambda>slot. drop 4 slot = zeros 4) slots then Some (concat (map (take 4) slots)) else None)"

definition hex_digit :: "nat \<Rightarrow> char" where
  "hex_digit n = ''0123456789abcdef'' ! n"

definition hex :: "bytes \<Rightarrow> string" where
  "hex bs = concat (map (\<lambda>b. [hex_digit (unat b div 16), hex_digit (unat b mod 16)]) bs)"

definition vk_hex :: "u64 list \<Rightarrow> string" where
  "vk_hex words = ''0x'' @ hex (extend_be [] words)"

datatype input_error = NothingRequested | InputFile proof_file_error | InputAssembly assemble_error

text \<open>The report: program key, circuit key and commitments, as printed.\<close>

record input_report =
  ir_program_vk :: string
  ir_vadcop_vk :: string
  ir_commitments :: "string list"

definition report_frame :: "nat \<Rightarrow> bytes \<Rightarrow> proof_frame" where
  "report_frame address stream = (case read_frame (address, stream) of Ok frame \<Rightarrow> frame | Err _ \<Rightarrow> [])"

definition aggregator_input_main ::
  "u32 option \<Rightarrow> (nat \<times> bytes option) list \<Rightarrow> (input_error, input_report \<times> bytes) result" where
  "aggregator_input_main synthetic proofs =
     rbind (case synthetic of
              Some n \<Rightarrow> rbind (ensure (1 \<le> n) NothingRequested) (\<lambda>_.
                Ok (map (\<lambda>i. (0, synthetic_stream (of_nat i))) [0..<unat n]))
            | None \<Rightarrow> rbind (ensure (proofs \<noteq> []) NothingRequested) (\<lambda>_.
                mapR (\<lambda>(address, contents). rbind (map_err InputFile (load_proof_stream address contents))
                        (\<lambda>stream. Ok (address, stream))) proofs)) (\<lambda>streams.
     rbind (map_err InputAssembly (assemble streams)) (\<lambda>input.
     let first = (case streams of (address, stream) # _ \<Rightarrow> report_frame address stream | [] \<Rightarrow> [])
     in Ok (\<lparr>ir_program_vk = vk_hex (frame_program_vk first), ir_vadcop_vk = vk_hex (frame_vadcop_vk first),
             ir_commitments = map (\<lambda>(address, stream). ''0x'' @ hex (frame_commitment (report_frame address stream))) streams\<rparr>,
            input)))"

section \<open>What a parsed SNARK file holds\<close>

lemma extend_be_eq: "extend_be out ws = out @ concat (map u64_be ws)"
  by (induction ws arbitrary: out) (simp_all add: extend_be_def)

lemma foldl_append: "foldl (\<lambda>out word. out @ f word) out ws = out @ concat (map f ws)"
  by (induction ws arbitrary: out) simp_all

lemma length_concat_u64 [simp]:
  "length (concat (map u64_be ws)) = 8 * length ws" "length (concat (map u64_le ws)) = 8 * length ws"
  by (induction ws) simp_all

definition file_program :: "zisk_pilfflonk_file \<Rightarrow> expected_program" where
  "file_program file = \<lparr>ep_program_vk = concat (map u64_be (pk_vk (pf_program_vk file))),
     ep_root_c_vadcop_final = concat (map u64_be (pf_rootc file))\<rparr>"

definition guest_publics :: "zisk_pilfflonk_file \<Rightarrow> u64 list" where
  "guest_publics file = drop PROGRAM_VK_LEN (pf_publics_full file)"

definition wellformed_file :: "zisk_pilfflonk_file \<Rightarrow> bool" where
  "wellformed_file file \<longleftrightarrow> pk_hash_mode (pf_program_vk file) = Poseidon1 \<and> length (pf_proof_bytes file) = 2208 \<and>
     length (pk_vk (pf_program_vk file)) = 4 \<and> length (pf_rootc file) = 4 \<and> length (pf_publics_full file) = 68 \<and>
     take 4 (pf_publics_full file) = pk_vk (pf_program_vk file)"

lemma snark_output_Ok_iff:
  "snark_output file = Ok out \<longleftrightarrow> wellformed_file file \<and>
     out = \<lparr>so_proof = pf_proof_bytes file,
       so_public_values = public_values_of (file_program file) (concat (map u64_le (guest_publics file)))\<rparr>"
  by (auto simp: snark_output_def wellformed_file_def file_layout extend_be_eq foldl_append Let_def
      public_values_of_def file_program_def guest_publics_def ZISK_PROOF_HASH_MODE_def)

lemma parse_proof_file_Ok_iff:
  "parse_proof_file fb contents = Ok out \<longleftrightarrow>
     (\<exists>body head file. contents = Some (SNARK_FILE_MAGIC @ body) \<and>
        fb_decode_u32 fb body = Some (PROOF_BODY_PILFFLONK, head) \<and>
        fb_decode_pilfflonk fb (drop head body) = Some (file, length (drop head body)) \<and>
        snark_output file = Ok out)"
proof -
  have magic: "strip_prefix SNARK_FILE_MAGIC data = Some body \<longleftrightarrow> data = SNARK_FILE_MAGIC @ body" for data body
    by (auto simp: strip_prefix_def) (metis append_take_drop_id)
  have variant: "check_body_variant v = Ok u \<longleftrightarrow> v = PROOF_BODY_PILFFLONK" for v u
    by (auto simp: check_body_variant_def)
  show ?thesis unfolding parse_proof_file_def
    by (auto simp: magic variant Let_def)
qed

lemma parsed_file_verified:
  assumes "parse_proof_file fb contents = Ok out"
  shows "\<exists>fl. wellformed_file fl \<and>
    verify_snark_bound sha256 (so_proof out) (so_public_values out) (file_program fl) = Ok () \<and>
    so_public_values out = public_values_of (file_program fl) (concat (map u64_le (guest_publics fl)))"
proof -
  obtain fl where ok: "snark_output fl = Ok out" using assms by (auto simp: parse_proof_file_Ok_iff)
  then have wf: "wellformed_file fl" and out: "so_proof out = pf_proof_bytes fl"
    "so_public_values out = public_values_of (file_program fl) (concat (map u64_le (guest_publics fl)))"
    unfolding snark_output_Ok_iff by simp_all
  have "length (ep_program_vk (file_program fl)) = 32" "length (ep_root_c_vadcop_final (file_program fl)) = 32"
    using wf by (simp_all add: wellformed_file_def file_program_def)
  moreover have "length (concat (map u64_le (guest_publics fl))) = 512"
    using wf by (simp add: wellformed_file_def guest_publics_def PROGRAM_VK_LEN_def)
  moreover have "length (so_proof out) = SNARK_PROOF_BYTES"
    using wf out by (simp add: wellformed_file_def SNARK_PROOF_BYTES_def)
  ultimately have "verify_snark_bound sha256 (so_proof out) (so_public_values out) (file_program fl) = Ok ()"
    using verify_snark_bound_iff out by blast
  then show ?thesis using wf out by blast
qed

section \<open>The stream file against the off-chain verifier\<close>

text \<open>The trailer the verifier crate of ZiSK exports, with the daemon's constants.\<close>

definition pinned_trailer :: "stark_crate \<Rightarrow> bool" where
  "pinned_trailer sk \<longleftrightarrow> sk_seed_len_words sk + 1 = SEED_TRAILER_WORDS \<and> sk_seed_trailer_tag sk = SEED_TRAILER_TAG"

lemma length_truncate_trailer: "length (truncate_trailer data) mod 8 = length data mod 8"
proof -
  have "(n - 40) mod 8 = n mod 8" if "40 \<le> n" for n :: nat
    using that mod_mult_self2 [of "n - 40" 8 5] by simp
  then show ?thesis by (simp add: truncate_trailer_def SEED_TRAILER_WORDS_def Let_def)
qed

lemma stream_from_proof_file_truncates:
  assumes "pinned_trailer sk"
  shows "stream_from_proof_file sk data = (if length data mod 8 \<noteq> 0 then Err StreamMalformed else Ok (truncate_trailer data))"
  using assms by (auto simp: stream_from_proof_file_def truncate_trailer_def ends_with_def pinned_trailer_def
      SEED_TRAILER_WORDS_def Let_def)

lemma read_frame_Ok:
  "read_frame (address, stream) = Ok ws \<longleftrightarrow> words_from_bytes address stream = Ok ws \<and> frame_parse ws = Ok ws"
  by (auto simp: read_frame_def frame_parse_def Let_def split: if_splits)

lemma vadcop_stream_Ok_iff:
  "vadcop_stream_from_proof_file address contents = Ok stream \<longleftrightarrow>
     (\<exists>data. contents = Some data \<and> strip_prefix SNARK_FILE_MAGIC data = None \<and> stream = truncate_trailer data \<and>
        is_ok (read_frame (address, stream)))"
  by (auto simp: vadcop_stream_from_proof_file_def Let_def is_ok_iff read_frame_def)

text \<open>A stream starts with the word 0, a SNARK file with its magic.\<close>

lemma parsed_stream_start:
  assumes "is_ok (read_frame (address, stream))"
  shows "8 \<le> length stream" and "take 8 stream = u64_le 0"
proof -
  obtain ws where ws: "words_from_bytes address stream = Ok ws" "frame_parse ws = Ok ws"
    using assms by (auto simp: is_ok_iff read_frame_Ok)
  then have len: "length ws = PROOF_STREAM_WORDS" and zero: "ws ! 0 = 0"
    by (auto simp: frame_parse_def Let_def split: if_splits)
  have wsd: "ws = map of_le_bytes (chunks8 stream)" using ws(1) by (auto simp: words_from_bytes_def split: if_splits)
  obtain a b c d e f g h rest where st: "stream = a # b # c # d # e # f # g # h # rest"
    using len wsd by (cases stream rule: chunks8.cases) (simp_all add: stream_layout)
  then show "8 \<le> length stream" by simp
  have "(of_le_bytes [a, b, c, d, e, f, g, h] :: u64) = 0" using zero by (simp add: wsd st)
  then have "u64_le (of_le_bytes [a, b, c, d, e, f, g, h]) = u64_le 0" by simp
  moreover have "u64_le (of_le_bytes [a, b, c, d, e, f, g, h]) = [a, b, c, d, e, f, g, h]"
    by (rule le_of_le_bytes) simp_all
  ultimately show "take 8 stream = u64_le 0" by (simp add: st)
qed

lemma parsed_stream_no_magic:
  assumes "is_ok (read_frame (address, truncate_trailer data))"
  shows "strip_prefix SNARK_FILE_MAGIC data = None"
proof -
  have "take 8 (truncate_trailer data) = take 8 data"
    using parsed_stream_start(1) [OF assms] by (auto simp: truncate_trailer_def Let_def min_def split: if_splits)
  then have start: "take 8 data = u64_le 0" using parsed_stream_start(2) [OF assms] by simp
  have "u64_le 0 ! 0 \<noteq> SNARK_FILE_MAGIC ! 0" by (simp add: SNARK_FILE_MAGIC_def le_bytes_def)
  then have "u64_le 0 \<noteq> SNARK_FILE_MAGIC" by metis
  moreover have "length SNARK_FILE_MAGIC = 8" by (simp add: SNARK_FILE_MAGIC_def)
  ultimately show ?thesis by (simp add: strip_prefix_def start)
qed

lemma stream_files_agree:
  assumes "pinned_trailer sk"
  shows "vadcop_stream_from_proof_file address (Some data) = Ok stream \<longleftrightarrow>
    stream_from_proof_file sk data = Ok stream \<and> is_ok (read_frame (address, stream))"
proof -
  have "length data mod 8 = 0" if "is_ok (read_frame (address, truncate_trailer data))"
    using that length_truncate_trailer [of data] by (auto simp: is_ok_iff read_frame_Ok words_from_bytes_def split: if_splits)
  then show ?thesis
    using parsed_stream_no_magic by (auto simp: vadcop_stream_Ok_iff stream_from_proof_file_truncates [OF assms])
qed

section \<open>Streams of the daemon assemble\<close>

lemma loaded_streams_parse:
  assumes "mapR (\<lambda>contents. vadcop_stream_from_proof_file address contents) files = Ok streams"
  shows "\<exists>frames. mapR read_frame (map (Pair address) streams) = Ok frames"
  using assms
proof (induction files arbitrary: streams)
  case (Cons f fs)
  then obtain stream streams' where s: "vadcop_stream_from_proof_file address f = Ok stream" "streams = stream # streams'"
    and "mapR (\<lambda>contents. vadcop_stream_from_proof_file address contents) fs = Ok streams'" by auto
  then obtain frames where "mapR read_frame (map (Pair address) streams') = Ok frames" using Cons.IH by blast
  then show ?case using s by (auto simp: vadcop_stream_Ok_iff is_ok_iff)
qed simp

lemma loaded_streams_assemble:
  assumes "mapR (\<lambda>contents. vadcop_stream_from_proof_file address contents) files = Ok streams"
  shows "\<exists>frames. mapR read_frame (map (Pair address) streams) = Ok frames \<and>
    (is_ok (assemble (map (Pair address) streams)) \<longleftrightarrow> files \<noteq> [] \<and> same_keys frames)"
proof -
  obtain frames where fr: "mapR read_frame (map (Pair address) streams) = Ok frames"
    using loaded_streams_parse [OF assms] by blast
  moreover have "length streams = length files" using mapR_Ok_length [OF assms] .
  ultimately show ?thesis by (auto simp: is_ok_iff assemble_Ok_iff)
qed

section \<open>The commitment the inspection prints\<close>

lemma take_word_bytes: "take (8 * n) (concat (map u64_le ws)) = concat (map u64_le (take n ws))"
proof (induction ws arbitrary: n)
  case (Cons w ws)
  then show ?case by (cases n) simp_all
qed simp

lemma le_bytes_narrow: "le_bytes 4 w = le_bytes 4 (ucast w :: u32)" for w :: u64
proof (rule nth_equalityI)
  fix i assume "i < length (le_bytes 4 w)"
  then have i: "i < 4" by simp
  show "le_bytes 4 w ! i = le_bytes 4 (ucast w :: u32) ! i"
  proof (rule bit_word_eqI)
    fix k assume "k < LENGTH(8)"
    then have "8 * i + k < 32" using i by simp
    then show "bit (le_bytes 4 w ! i) k = bit (le_bytes 4 (ucast w :: u32) ! i) k"
      using i by (simp add: le_bytes_def bit_simps)
  qed
qed simp

lemma take_word: "take 4 (u64_le w) = le_bytes 4 (ucast w :: u32)"
  by (simp add: le_bytes_narrow [symmetric]) (simp add: le_bytes_def take_map)

lemma drop_word: "drop 4 (u64_le w) = le_bytes 4 (drop_bit 32 w)"
proof -
  have "drop 4 [0..<8] = map (\<lambda>i. i + 4) [0..<4]" by (simp add: upt_rec)
  then show ?thesis by (simp add: le_bytes_def drop_map comp_def algebra_simps)
qed

lemma high_bytes_zero: "drop 4 (u64_le w) = zeros 4 \<longleftrightarrow> drop_bit 32 w = 0"
proof -
  have z: "zeros 4 = le_bytes 4 (0 :: u32)" by (simp add: zeros_def le_bytes_def map_replicate_const)
  have "drop 4 (u64_le w) = zeros 4 \<longleftrightarrow> (ucast (drop_bit 32 w) :: u32) = 0"
    unfolding drop_word le_bytes_narrow z by (rule le_bytes_inject) simp
  also have "\<dots> \<longleftrightarrow> drop_bit 32 w = 0"
  proof
    assume *: "(ucast (drop_bit 32 w) :: u32) = 0"
    show "drop_bit 32 w = 0"
    proof (rule bit_word_eqI)
      fix k assume "k < LENGTH(64)"
      show "bit (drop_bit 32 w) k = bit (0 :: u64) k"
      proof (cases "k < 32")
        case True
        then have "bit (ucast (drop_bit 32 w) :: u32) k = bit (drop_bit 32 w) k" by (simp add: bit_simps)
        then show ?thesis by (simp add: *)
      next
        case False
        then show ?thesis by (auto simp: bit_simps dest: bit_imp_le_length)
      qed
    qed
  qed simp
  finally show ?thesis .
qed

text \<open>
  The inspection prints the commitment exactly when the first eight public words are 32-bit values, and then
  the bytes the aggregator reads from a stream with the same publics.
\<close>

lemma inspect_commitment_value:
  assumes "length (ep_program_vk e) = 32" and "length ws = 64"
  shows "inspect_commitment (public_values_of e (concat (map u64_le ws))) =
    (if \<forall>w \<in> set (take 8 ws). drop_bit 32 w = 0
     then Some (concat (map (\<lambda>w. le_bytes 4 (ucast w :: u32)) (take 8 ws))) else None)"
proof -
  have "take 64 (drop 32 (public_values_of e (concat (map u64_le ws)))) = concat (map u64_le (take 8 ws))"
    using assms take_word_bytes [of 8 ws] by (simp add: public_values_of_def)
  then have slots: "chunks8 (take 64 (drop 32 (public_values_of e (concat (map u64_le ws))))) = map u64_le (take 8 ws)"
    by (simp add: chunks8_words)
  show ?thesis
    by (simp add: inspect_commitment_def slots list_all_iff high_bytes_zero comp_def take_word)
qed

section \<open>A sample file\<close>

definition sample_pilfflonk_file :: zisk_pilfflonk_file where
  "sample_pilfflonk_file =
     \<lparr>pf_proof_bytes = replicate 2208 7, pf_vkey_json = ''{}'', pf_publics = [],
      pf_publics_full = replicate 4 1 @ replicate 64 5, pf_rootc = replicate 4 2,
      pf_program_vk = \<lparr>pk_vk = replicate 4 1, pk_hash_mode = Poseidon1\<rparr>, pf_random_seed = None\<rparr>"

definition sample_file_bincode :: file_bincode where
  "sample_file_bincode =
     \<lparr>fb_decode_u32 = \<lambda>bs. (case bs of [] \<Rightarrow> None | b # _ \<Rightarrow> Some (ucast b, 1)),
      fb_decode_pilfflonk = \<lambda>bs. Some (sample_pilfflonk_file, length bs)\<rparr>"

definition sample_stark_crate :: stark_crate where
  "sample_stark_crate =
     \<lparr>sk_vadcop_final_vk_poseidon1 = [], sk_verify_saved_words = \<lambda>_ _. UpstreamOk, sk_seed_len_words = 4,
      sk_seed_trailer_tag = SEED_TRAILER_TAG\<rparr>"

lemma sample_trailer: "pinned_trailer sample_stark_crate"
  by (simp add: pinned_trailer_def sample_stark_crate_def SEED_TRAILER_WORDS_def)

lemma length_synthetic_stream: "length (synthetic_stream i) = 8 * PROOF_STREAM_WORDS"
  by (simp add: synthetic_stream_def length_synthetic_words)

lemma sample_stream_stripped:
  "stream_from_proof_file sample_stark_crate (synthetic_stream 0 @ zeros 32 @ u64_le SEED_TRAILER_TAG) = Ok (synthetic_stream 0)"
  using stream_from_file [of "synthetic_stream 0" "zeros 32" sample_stark_crate]
  by (simp add: length_synthetic_stream sample_stark_crate_def)

section \<open>Claims\<close>

text \<open>
  Whatever proof file the daemon parses, its output passes the off-chain check bound to the program key
  and the root constant of that file, and the inspection tool reads from the public values exactly the first
  eight public words, refusing words above 32 bits.
\<close>

theorem daemon_snark_verified:
  assumes "parse_proof_file fb contents = Ok out"
  shows "\<exists>e ws. length ws = 64 \<and> so_public_values out = public_values_of e (concat (map u64_le ws)) \<and>
    verify_snark_bound sha256 (so_proof out) (so_public_values out) e = Ok () \<and>
    inspect_commitment (so_public_values out) =
      (if list_all (\<lambda>w. drop_bit 32 w = 0) (take 8 ws)
       then Some (concat (map (\<lambda>w. le_bytes 4 (ucast w :: u32)) (take 8 ws))) else None)"
proof -
  obtain fl where fl: "wellformed_file fl"
      "verify_snark_bound sha256 (so_proof out) (so_public_values out) (file_program fl) = Ok ()"
      "so_public_values out = public_values_of (file_program fl) (concat (map u64_le (guest_publics fl)))"
    using parsed_file_verified [OF assms] by blast
  then have "length (ep_program_vk (file_program fl)) = 32" "length (guest_publics fl) = 64"
    by (simp_all add: wellformed_file_def file_program_def guest_publics_def PROGRAM_VK_LEN_def)
  from inspect_commitment_value [OF this] fl show ?thesis
    by (intro exI [of _ "file_program fl"] exI [of _ "guest_publics fl"])
       (simp add: list_all_iff \<open>length (guest_publics fl) = 64\<close>)
qed

theorem daemon_snark_verified_witness:
  "\<exists>out e. parse_proof_file sample_file_bincode (Some (SNARK_FILE_MAGIC @ [2])) = Ok out \<and>
     verify_snark_bound (\<lambda>_. []) (so_proof out) (so_public_values out) e = Ok ()"
proof -
  have "wellformed_file sample_pilfflonk_file" by (simp add: wellformed_file_def sample_pilfflonk_file_def)
  then obtain out where "snark_output sample_pilfflonk_file = Ok out" by (auto simp: snark_output_Ok_iff)
  then have "parse_proof_file sample_file_bincode (Some (SNARK_FILE_MAGIC @ [2])) = Ok out"
    by (simp add: parse_proof_file_Ok_iff sample_file_bincode_def PROOF_BODY_PILFFLONK_def)
  from daemon_snark_verified [OF this, of "\<lambda>_. []"] this show ?thesis by blast
qed

text \<open>
  The daemon and the off-chain verifier read the same stream from a file, and the daemon accepts the file
  exactly when that stream parses as a proof frame; the magic test never rejects such a file.
\<close>

theorem stream_readers_agree:
  assumes "pinned_trailer sk"
  shows "vadcop_stream_from_proof_file address (Some data) = Ok stream \<longleftrightarrow>
    stream_from_proof_file sk data = Ok stream \<and> is_ok (read_frame (address, stream))"
  using assms by (rule stream_files_agree)

theorem stream_readers_agree_witness:
  "vadcop_stream_from_proof_file 0 (Some (synthetic_stream 0 @ zeros 32 @ u64_le SEED_TRAILER_TAG)) = Ok (synthetic_stream 0)"
  using stream_readers_agree [OF sample_trailer] sample_stream_stripped synthetic_stream_parses [of 0 0]
  by (simp add: is_ok_iff)

text \<open>
  The streams the daemon read from files assemble into an aggregation input exactly when there is one and
  all of them carry the same program and circuit keys: no other check of the assembler can fail on them.
\<close>

theorem daemon_streams_assemble:
  assumes "mapR (vadcop_stream_from_proof_file address) files = Ok streams"
  shows "\<exists>frames. mapR read_frame (map (Pair address) streams) = Ok frames \<and>
    (is_ok (assemble (map (Pair address) streams)) \<longleftrightarrow> files \<noteq> [] \<and> same_keys frames)"
  using assms by (rule loaded_streams_assemble)

theorem daemon_streams_assemble_witness:
  "is_ok (assemble [(0, synthetic_stream 0)])"
proof -
  let ?file = "Some (synthetic_stream 0 @ zeros 32 @ u64_le SEED_TRAILER_TAG)"
  have "vadcop_stream_from_proof_file 0 ?file = Ok (synthetic_stream 0)"
    using stream_files_agree [OF sample_trailer] sample_stream_stripped synthetic_stream_parses [of 0 0]
    by (simp add: is_ok_iff)
  then have "mapR (vadcop_stream_from_proof_file 0) [?file] = Ok [synthetic_stream 0]" by simp
  from daemon_streams_assemble [OF this] show ?thesis by (auto simp: same_keys_def)
qed

end
