(* ===== verification/Daemon_Io.thy ===== *)
theory Daemon_Io
  imports Zk_Prelude
begin

text \<open>
  The world of the prover daemon (\<open>prover/src\<close>). An operation of the daemon appends the effects it performs
  to a trace, and the environment answers an effect from the whole trace so far, so that one environment is
  one behaviour of the machine, the child processes and the sequencers, and a statement over all
  environments is one over all behaviours. An operation that uses \<open>anyhow::Result\<close> returns a result next to
  the trace. Also here: the metrics of \<open>prover/src/metrics.rs\<close> and the payloads of the two submit requests.
\<close>

section \<open>Metrics\<close>

datatype metric_method = Pick | Submit | PickAggregation | SubmitAggregation

definition method_name :: "metric_method \<Rightarrow> string" where
  "method_name m =
     (case m of Pick \<Rightarrow> ''pick'' | Submit \<Rightarrow> ''submit'' | PickAggregation \<Rightarrow> ''pick_aggregation''
      | SubmitAggregation \<Rightarrow> ''submit_aggregation'')"

datatype job = BatchJob | RangeJob

datatype proof_outcome = Success | Failure | Cancelled

text \<open>One constructor per field of \<open>ZiskProverMetrics\<close>, with the labels it is recorded under.\<close>

datatype metric =
  HttpLatency metric_method
| HttpErrors metric_method
| ProofGenerationTime job
| ProveTime job
| ProgramSetupTime
| Proofs job proof_outcome
| LatestProvenBatch u64
| LatestAggregatedBatch u64

section \<open>Effects\<close>

record zisk_submit_payload =
  sb_batch_number :: u64
  sb_proof :: string
  sb_public_values :: string

record aggregation_submit_payload =
  ab_from_batch_number :: u64
  ab_to_batch_number :: u64
  ab_proof :: string
  ab_public_values :: string

datatype request_body = NoBody | SubmitBody zisk_submit_payload | AggregationBody aggregation_submit_payload

type_synonym path = string

datatype effect =
  SpawnChild path "string list"
| AwaitChild
| InterruptChild
| AwaitGrace
| KillChild
| RemoveDirAll path
| CreateDirAll path
| WriteFile path bytes
| ReadFile path
| CheckExists path
| HttpPost string "(string \<times> string) list" request_body
| SleepFor nat
| SleepOrCancel nat
| CheckCancelled
| Metric metric

datatype child_event = ChildExited bool | WaitFailed | CancelRequested

text \<open>A response is its status and its body, \<open>None\<close> when reading the body fails.\<close>

datatype http_answer = TransportError | HttpResponse nat "bytes option"

record environment =
  env_spawn :: "effect list \<Rightarrow> bool"
  env_child :: "effect list \<Rightarrow> child_event"
  env_grace :: "effect list \<Rightarrow> bool"
  env_fs :: "effect list \<Rightarrow> bool"
  env_read :: "effect list \<Rightarrow> bytes option"
  env_exists :: "effect list \<Rightarrow> bool"
  env_http :: "effect list \<Rightarrow> http_answer"
  env_cancelled :: "effect list \<Rightarrow> bool"
  env_alloc :: "bytes \<Rightarrow> nat"

section \<open>Operations\<close>

type_synonym ('e, 'a) io = "effect list \<Rightarrow> ('e, 'a) result \<times> effect list"

definition io_ok :: "'a \<Rightarrow> ('e, 'a) io" where
  "io_ok a tr = (Ok a, tr)"

definition io_err :: "'e \<Rightarrow> ('e, 'a) io" where
  "io_err e tr = (Err e, tr)"

definition io_of :: "('e, 'a) result \<Rightarrow> ('e, 'a) io" where
  "io_of r tr = (r, tr)"

text \<open>\<open>emit\<close> performs an effect whose answer the code drops, \<open>act\<close> one whose answer it uses.\<close>

definition emit :: "effect \<Rightarrow> (effect list \<Rightarrow> 'r) \<Rightarrow> effect list \<Rightarrow> 'r" where
  "emit e k tr = k (tr @ [e])"

definition act :: "(effect list \<Rightarrow> 'a) \<Rightarrow> effect \<Rightarrow> ('a \<Rightarrow> effect list \<Rightarrow> 'r) \<Rightarrow> effect list \<Rightarrow> 'r" where
  "act answer e k tr = k (answer (tr @ [e])) (tr @ [e])"

text \<open>\<open>await\<close> hands the result over as it is; \<open>await_ok\<close> is the question mark operator.\<close>

definition await :: "(effect list \<Rightarrow> 'a \<times> effect list) \<Rightarrow> ('a \<Rightarrow> effect list \<Rightarrow> 'r) \<Rightarrow> effect list \<Rightarrow> 'r" where
  "await m k tr = (let (r, tr') = m tr in k r tr')"

definition await_ok :: "('e, 'a) io \<Rightarrow> ('a \<Rightarrow> ('e, 'b) io) \<Rightarrow> ('e, 'b) io" where
  "await_ok m k = await m (\<lambda>r. case r of Err e \<Rightarrow> io_err e | Ok a \<Rightarrow> k a)"

definition fs_act :: "environment \<Rightarrow> 'e \<Rightarrow> effect \<Rightarrow> ('e, 'a) io \<Rightarrow> ('e, 'a) io" where
  "fs_act env failure e k = act (env_fs env) e (\<lambda>ok. if ok then k else io_err failure)"

section \<open>Traces\<close>

text \<open>An operation only appends to the trace, and \<open>appends P\<close> bounds what: \<open>P\<close> holds of every new effect.\<close>

definition appends :: "(effect \<Rightarrow> bool) \<Rightarrow> (effect list \<Rightarrow> 'a \<times> effect list) \<Rightarrow> bool" where
  "appends P m \<longleftrightarrow> (\<forall>tr. \<exists>es. snd (m tr) = tr @ es \<and> list_all P es)"

named_theorems appends_rules \<open>introduction rules for appends\<close>

lemma appendsD: "appends P m \<Longrightarrow> m tr = (r, tr') \<Longrightarrow> \<exists>es. tr' = tr @ es \<and> list_all P es"
  unfolding appends_def by (metis snd_conv)

lemma appends_ok [appends_rules]: "appends P (io_ok a)"
  by (simp add: appends_def io_ok_def)

lemma appends_err [appends_rules]: "appends P (io_err e)"
  by (simp add: appends_def io_err_def)

lemma appends_of [appends_rules]: "appends P (io_of r)"
  by (simp add: appends_def io_of_def)

lemma appends_pure [appends_rules]: "appends P (Pair a)"
  by (simp add: appends_def)

lemma appends_act [appends_rules]:
  assumes "P e" and "\<And>a. appends P (k a)"
  shows "appends P (act answer e k)"
  unfolding appends_def
proof
  fix tr
  obtain es where "snd (k (answer (tr @ [e])) (tr @ [e])) = (tr @ [e]) @ es \<and> list_all P es"
    using assms(2) unfolding appends_def by blast
  then show "\<exists>es. snd (act answer e k tr) = tr @ es \<and> list_all P es"
    using assms(1) by (intro exI [of _ "e # es"]) (simp add: act_def)
qed

lemma appends_emit [appends_rules]: "P e \<Longrightarrow> appends P k \<Longrightarrow> appends P (emit e k)"
  using appends_act [of P e "\<lambda>_. k" "\<lambda>_. ()"] by (simp add: act_def [abs_def] emit_def [abs_def])

lemma appends_await [appends_rules]:
  assumes "appends P m" and "\<And>a. appends P (k a)"
  shows "appends P (await m k)"
  unfolding appends_def
proof
  fix tr
  obtain r tr' where m: "m tr = (r, tr')" by (cases "m tr")
  obtain es where es: "tr' = tr @ es" "list_all P es" using appendsD [OF assms(1) m] by blast
  obtain es' where "snd (k r tr') = tr' @ es'" "list_all P es'" using assms(2) unfolding appends_def by blast
  then show "\<exists>es. snd (await m k tr) = tr @ es \<and> list_all P es" using es by (auto simp: await_def m)
qed

lemma appends_await_ok [appends_rules]:
  "appends P m \<Longrightarrow> (\<And>a. appends P (k a)) \<Longrightarrow> appends P (await_ok m k)"
  unfolding await_ok_def by (intro appends_rules) (auto intro: appends_rules split: result.split)

lemma appends_fs_act [appends_rules]: "P e \<Longrightarrow> appends P k \<Longrightarrow> appends P (fs_act env failure e k)"
  unfolding fs_act_def by (intro appends_rules) (auto intro: appends_rules)

lemma appends_if [appends_rules]: "(b \<Longrightarrow> appends P m) \<Longrightarrow> (\<not> b \<Longrightarrow> appends P m') \<Longrightarrow> appends P (if b then m else m')"
  by simp

lemma appends_option [appends_rules]:
  "(x = None \<Longrightarrow> appends P m) \<Longrightarrow> (\<And>a. x = Some a \<Longrightarrow> appends P (k a)) \<Longrightarrow>
   appends P (case x of None \<Rightarrow> m | Some a \<Rightarrow> k a)"
  by (cases x) simp_all

lemma appends_result [appends_rules]:
  "(\<And>e. x = Err e \<Longrightarrow> appends P (m e)) \<Longrightarrow> (\<And>a. x = Ok a \<Longrightarrow> appends P (k a)) \<Longrightarrow>
   appends P (case x of Err e \<Rightarrow> m e | Ok a \<Rightarrow> k a)"
  by (cases x) simp_all

lemma appends_mono: "appends P m \<Longrightarrow> (\<And>e. P e \<Longrightarrow> Q e) \<Longrightarrow> appends Q m"
  unfolding appends_def by (metis (no_types, lifting) list.pred_mono_strong)

lemmas io_simps = io_ok_def io_err_def io_of_def emit_def act_def await_def await_ok_def fs_act_def

end
