(* ===== verification/Zisk_Prover.thy ===== *)
theory Zisk_Prover
  imports Daemon_Io Proof_File
begin

text \<open>
  Proof generation of the prover daemon (\<open>prover/src/prover.rs\<close>, first half): the \<open>cargo-zisk\<close> command lines of
  both backends, the cancellable child process, the one retry of a remote prove after a fresh setup, the
  three proving flows and the life of their work directories. Log texts and durations are not modelled.
\<close>

section \<open>Settings\<close>

record spawn_backend =
  sp_proving_key :: path
  sp_proving_key_snark :: path
  sp_gpu :: bool
  sp_asm_emulator :: bool

datatype proving_backend = Spawn spawn_backend | Coordinator string

record zisk_prover =
  zp_binary :: path
  zp_elf_path :: path
  zp_aggregator_elf_path :: "path option"
  zp_backend :: proving_backend
  zp_work_dir_base :: path

datatype prover_error =
  SpawnFailed
| WaitForChildFailed
| ExitStatus
| FilesystemError
| ProofFileMissing
| BadProofFile proof_file_error
| BadStreams assemble_error
| NoAggregatorElf

type_synonym 'a prover_io = "(prover_error, 'a) io"

definition aggregator_elf :: "zisk_prover \<Rightarrow> (prover_error, path) result" where
  "aggregator_elf zp = ok_or (zp_aggregator_elf_path zp) NoAggregatorElf"

section \<open>Paths\<close>

text \<open>Decimal rendering of an integer, and \<open>Path::join\<close> with a relative name.\<close>

fun decimal :: "nat \<Rightarrow> string" where
  "decimal n = (if n < 10 then [''0123456789'' ! n] else decimal (n div 10) @ [''0123456789'' ! (n mod 10)])"

declare decimal.simps [simp del]

definition path_join :: "path \<Rightarrow> string \<Rightarrow> path" where
  "path_join base name = (if base = [] \<or> last base = CHR ''/'' then base @ name else base @ ''/'' @ name)"

definition batch_work_dir :: "zisk_prover \<Rightarrow> u64 \<Rightarrow> path" where
  "batch_work_dir zp batch_number = path_join (zp_work_dir_base zp) (''batch_'' @ decimal (unat batch_number))"

definition range_work_dir :: "zisk_prover \<Rightarrow> u64 \<Rightarrow> u64 \<Rightarrow> path" where
  "range_work_dir zp from_batch to_batch =
     path_join (zp_work_dir_base zp) (''range_'' @ decimal (unat from_batch) @ ''_'' @ decimal (unat to_batch))"

definition cleanup_batch_work_dir :: "zisk_prover \<Rightarrow> u64 \<Rightarrow> (effect list \<Rightarrow> 'r) \<Rightarrow> effect list \<Rightarrow> 'r" where
  "cleanup_batch_work_dir zp batch_number = emit (RemoveDirAll (batch_work_dir zp batch_number))"

definition cleanup_range_work_dir :: "zisk_prover \<Rightarrow> u64 \<Rightarrow> u64 \<Rightarrow> (effect list \<Rightarrow> 'r) \<Rightarrow> effect list \<Rightarrow> 'r" where
  "cleanup_range_work_dir zp from_batch to_batch = emit (RemoveDirAll (range_work_dir zp from_batch to_batch))"

section \<open>Command lines\<close>

definition setup_args :: "proving_backend \<Rightarrow> path \<Rightarrow> string list" where
  "setup_args backend elf =
     (case backend of
        Spawn spawn \<Rightarrow> [''setup'', ''-e'', elf, ''-k'', sp_proving_key spawn]
      | Coordinator url \<Rightarrow> [''remote'', ''--coordinator'', url, ''setup'', ''-e'', elf])"

definition prove_args :: "proving_backend \<Rightarrow> path \<Rightarrow> path \<Rightarrow> path \<Rightarrow> bool \<Rightarrow> string list" where
  "prove_args backend elf input_path proof_path snark =
     (case backend of
        Spawn spawn \<Rightarrow>
          [''prove'', ''-e'', elf, ''-i'', input_path, ''-k'', sp_proving_key spawn] @
          (if snark then [''-w'', sp_proving_key_snark spawn, ''--pilfflonk''] else []) @
          [''-y'', ''-o'', proof_path] @
          (if sp_gpu spawn then [''-g''] else []) @
          (if sp_asm_emulator spawn then [''-a''] else [])
      | Coordinator url \<Rightarrow>
          [''remote'', ''--coordinator'', url, ''prove'', ''-e'', elf, ''-i'', input_path, ''-o'', proof_path,
           ''--timeout'', ''0''] @
          (if snark then [''--pilfflonk''] else []))"

definition zisk_input :: "bytes \<Rightarrow> bytes" where
  "zisk_input bincode =
     (let padding = (8 - (8 + length bincode) mod 8) mod 8
      in u64_le (of_nat (length bincode)) @ bincode @ zeros padding)"

definition write_zisk_input :: "environment \<Rightarrow> path \<Rightarrow> bytes \<Rightarrow> 'a prover_io \<Rightarrow> 'a prover_io" where
  "write_zisk_input env path bincode = fs_act env FilesystemError (WriteFile path (zisk_input bincode))"

section \<open>Child processes\<close>

text \<open>\<open>Ok False\<close> means cancelled: SIGINT, the grace period, then SIGKILL if the child is still running.\<close>

definition run_cancellable :: "environment \<Rightarrow> path \<Rightarrow> string list \<Rightarrow> bool prover_io" where
  "run_cancellable env binary args =
     act (env_spawn env) (SpawnChild binary args) (\<lambda>spawned.
     if \<not> spawned then io_err SpawnFailed
     else act (env_child env) AwaitChild (\<lambda>event.
       case event of
         WaitFailed \<Rightarrow> io_err WaitForChildFailed
       | ChildExited success \<Rightarrow> if success then io_ok True else io_err ExitStatus
       | CancelRequested \<Rightarrow>
           emit InterruptChild (
           act (env_grace env) AwaitGrace (\<lambda>exited.
           if exited then io_ok False else emit KillChild (io_ok False)))))"

definition program_setup :: "environment \<Rightarrow> zisk_prover \<Rightarrow> path \<Rightarrow> bool prover_io" where
  "program_setup env zp elf =
     await_ok (run_cancellable env (zp_binary zp) (setup_args (zp_backend zp) elf)) (\<lambda>finished.
     if finished then emit (Metric ProgramSetupTime) (io_ok True) else io_ok False)"

definition ensure_program_setup :: "environment \<Rightarrow> zisk_prover \<Rightarrow> bool prover_io" where
  "ensure_program_setup env zp = program_setup env zp (zp_elf_path zp)"

definition ensure_aggregator_program_setup :: "environment \<Rightarrow> zisk_prover \<Rightarrow> bool prover_io" where
  "ensure_aggregator_program_setup env zp =
     await_ok (io_of (aggregator_elf zp)) (\<lambda>elf. program_setup env zp elf)"

definition is_coordinator :: "proving_backend \<Rightarrow> bool" where
  "is_coordinator backend = (case backend of Coordinator _ \<Rightarrow> True | Spawn _ \<Rightarrow> False)"

definition finish_prove :: "environment \<Rightarrow> job \<Rightarrow> path \<Rightarrow> (prover_error, bool) result \<Rightarrow> bool prover_io" where
  "finish_prove env jb proof_path attempt =
     (case attempt of
        Err e \<Rightarrow> io_err e
      | Ok False \<Rightarrow> io_ok False
      | Ok True \<Rightarrow>
          emit (Metric (ProveTime jb)) (
          act (env_exists env) (CheckExists proof_path) (\<lambda>exists.
          if exists then io_ok True else io_err ProofFileMissing)))"

definition run_prove ::
  "environment \<Rightarrow> zisk_prover \<Rightarrow> job \<Rightarrow> path \<Rightarrow> path \<Rightarrow> path \<Rightarrow> bool \<Rightarrow> bool prover_io" where
  "run_prove env zp jb elf input_path proof_path snark =
     (let args = prove_args (zp_backend zp) elf input_path proof_path snark
      in await (run_cancellable env (zp_binary zp) args) (\<lambda>attempt.
         if \<not> is_ok attempt \<and> is_coordinator (zp_backend zp)
         then await_ok (program_setup env zp elf) (\<lambda>finished.
              if \<not> finished then io_ok False
              else await (run_cancellable env (zp_binary zp) args) (finish_prove env jb proof_path))
         else finish_prove env jb proof_path attempt))"

section \<open>The proving flows\<close>

definition outcome_of :: "('e, 'a option) result \<Rightarrow> proof_outcome" where
  "outcome_of result = (case result of Ok (Some _) \<Rightarrow> Success | Ok None \<Rightarrow> Cancelled | Err _ \<Rightarrow> Failure)"

definition finish_run :: "job \<Rightarrow> path \<Rightarrow> (prover_error, 'a option) result \<Rightarrow> 'a option prover_io" where
  "finish_run jb work_dir result =
     emit (Metric (ProofGenerationTime jb)) (
     emit (Metric (Proofs jb (outcome_of result))) (
     case result of
       Ok None \<Rightarrow> emit (RemoveDirAll work_dir) (io_of result)
     | _ \<Rightarrow> io_of result))"

text \<open>What the three flows share: a fresh work directory around the run, and the metrics after it.\<close>

definition in_work_dir :: "environment \<Rightarrow> job \<Rightarrow> path \<Rightarrow> 'a option prover_io \<Rightarrow> 'a option prover_io" where
  "in_work_dir env jb work_dir run =
     emit (RemoveDirAll work_dir) (
     fs_act env FilesystemError (CreateDirAll work_dir) (
     await run (finish_run jb work_dir)))"

text \<open>Run the prover, read the proof file it left, and parse it.\<close>

definition prove_and_parse ::
  "environment \<Rightarrow> zisk_prover \<Rightarrow> job \<Rightarrow> path \<Rightarrow> path \<Rightarrow> bool \<Rightarrow> (bytes option \<Rightarrow> (proof_file_error, 'a) result) \<Rightarrow> 'a option prover_io" where
  "prove_and_parse env zp jb elf work_dir snark parse =
     (let proof_path = path_join work_dir ''proof.bin''
      in await_ok (run_prove env zp jb elf (path_join work_dir ''input.bin'') proof_path snark) (\<lambda>finished.
         if \<not> finished then io_ok None
         else act (env_read env) (ReadFile proof_path) (\<lambda>contents.
              io_of (case parse contents of Err e \<Rightarrow> Err (BadProofFile e) | Ok a \<Rightarrow> Ok (Some a)))))"

definition generate_proof ::
  "environment \<Rightarrow> file_bincode \<Rightarrow> zisk_prover \<Rightarrow> bytes \<Rightarrow> u64 \<Rightarrow> zisk_snark_output option prover_io" where
  "generate_proof env fb zp zisk_bincode batch_number =
     (let work_dir = batch_work_dir zp batch_number
      in in_work_dir env BatchJob work_dir (
         write_zisk_input env (path_join work_dir ''input.bin'') zisk_bincode (
         prove_and_parse env zp BatchJob (zp_elf_path zp) work_dir True (parse_proof_file fb))))"

definition vadcop_stream_of_file :: "environment \<Rightarrow> bytes option \<Rightarrow> (proof_file_error, bytes) result" where
  "vadcop_stream_of_file env contents =
     vadcop_stream_from_proof_file (case contents of Some data \<Rightarrow> env_alloc env data | None \<Rightarrow> 0) contents"

definition generate_vadcop_proof :: "environment \<Rightarrow> zisk_prover \<Rightarrow> bytes \<Rightarrow> u64 \<Rightarrow> bytes option prover_io" where
  "generate_vadcop_proof env zp zisk_bincode batch_number =
     (let work_dir = batch_work_dir zp batch_number
      in in_work_dir env BatchJob work_dir (
         write_zisk_input env (path_join work_dir ''input.bin'') zisk_bincode (
         prove_and_parse env zp BatchJob (zp_elf_path zp) work_dir False (vadcop_stream_of_file env))))"

definition generate_aggregated_proof ::
  "environment \<Rightarrow> file_bincode \<Rightarrow> zisk_prover \<Rightarrow> bytes list \<Rightarrow> u64 \<Rightarrow> u64 \<Rightarrow> zisk_snark_output option prover_io" where
  "generate_aggregated_proof env fb zp streams from_batch to_batch =
     await_ok (io_of (aggregator_elf zp)) (\<lambda>elf.
     await_ok (io_of (map_err BadStreams (assemble (map (\<lambda>s. (env_alloc env s, s)) streams)))) (\<lambda>input.
     let work_dir = range_work_dir zp from_batch to_batch
     in in_work_dir env RangeJob work_dir (
        fs_act env FilesystemError (WriteFile (path_join work_dir ''input.bin'') input) (
        prove_and_parse env zp RangeJob elf work_dir True (parse_proof_file fb)))))"

end
