(* ===== verification/Sequencer_Client.thy ===== *)
theory Sequencer_Client
  imports Daemon_Io
begin

text \<open>
  The HTTP client of the sequencer's prover API (\<open>prover/src/sequencer_client.rs\<close>). The URL, header, base64
  and JSON crates are parameters; a request is one effect with its URL, its headers and its payload.
\<close>

section \<open>Data\<close>

record zisk_batch_data =
  zb_batch_number :: u64
  zb_vk_hash :: string
  zb_zisk_data :: bytes

record zisk_aggregation_job_data =
  za_from_batch :: u64
  za_to_batch :: u64
  za_vk_hash :: string
  za_streams :: "(u64 \<times> bytes) list"

record pick_response =
  pr_batch_number :: u64
  pr_vk_hash :: string
  pr_zisk_data :: string

record aggregation_batch_proof =
  bp_batch_number :: u64
  bp_proof :: string

text \<open>\<open>ar_vk_hash\<close> is \<open>None\<close> when the field is missing from the response.\<close>

record aggregation_pick_response =
  ar_from_batch_number :: u64
  ar_to_batch_number :: u64
  ar_vk_hash :: "string option"
  ar_proofs :: "aggregation_batch_proof list"

record 'u client_crates =
  cx_url_parse :: "string \<Rightarrow> 'u option"
  cx_username :: "'u \<Rightarrow> string"
  cx_password :: "'u \<Rightarrow> string option"
  cx_set_username :: "'u \<Rightarrow> string \<Rightarrow> 'u"
  cx_set_password :: "'u \<Rightarrow> string option \<Rightarrow> 'u"
  cx_join :: "'u \<Rightarrow> string \<Rightarrow> 'u"
  cx_append_pair :: "'u \<Rightarrow> string \<Rightarrow> string \<Rightarrow> 'u"
  cx_as_str :: "'u \<Rightarrow> string"
  cx_header_value :: "string \<Rightarrow> string option"
  cx_client_builds :: bool
  cx_base64_encode :: "bytes \<Rightarrow> string"
  cx_base64_decode :: "string \<Rightarrow> bytes option"
  cx_json_pick :: "bytes \<Rightarrow> pick_response option"
  cx_json_aggregation_pick :: "bytes \<Rightarrow> aggregation_pick_response option"

record 'u sequencer_client =
  sc_base_url :: 'u
  sc_prover_id :: string
  sc_supported_vk_hashes :: "string list"
  sc_default_headers :: "(string \<times> string) list"

datatype client_error =
  BadUrl
| BadHeader
| ClientNotBuilt
| Transport
| UnexpectedStatus nat
| BadJson
| BadBase64
| NotContiguous "u64 list" "u64 list"
| SubmitRefused nat

type_synonym 'a client_io = "(client_error, 'a) io"

section \<open>Construction\<close>

definition utf8 :: "string \<Rightarrow> bytes" where
  "utf8 s = map of_char s"

definition client_new ::
  "'u client_crates \<Rightarrow> string \<Rightarrow> string \<Rightarrow> string list \<Rightarrow> (client_error, 'u sequencer_client) result" where
  "client_new cx raw_url prover_id supported_vk_hashes =
     rbind (ok_or (cx_url_parse cx raw_url) BadUrl) (\<lambda>url.
     let username = cx_username cx url; password = cx_password cx url
     in rbind (if username \<noteq> []
               then let auth_value = ''Basic '' @ cx_base64_encode cx
                          (utf8 (username @ '':'' @ (case password of Some pw \<Rightarrow> pw | None \<Rightarrow> [])))
                    in rbind (ok_or (cx_header_value cx auth_value) BadHeader) (\<lambda>header_value.
                       Ok ([(''authorization'', header_value)], cx_set_password cx (cx_set_username cx url []) None))
               else Ok ([], url)) (\<lambda>(headers, url).
        rbind (ensure (cx_client_builds cx) ClientNotBuilt) (\<lambda>_.
        Ok \<lparr>sc_base_url = url, sc_prover_id = prover_id, sc_supported_vk_hashes = supported_vk_hashes,
            sc_default_headers = headers\<rparr>)))"

definition client_url :: "'u client_crates \<Rightarrow> 'u sequencer_client \<Rightarrow> string" where
  "client_url cx sc = cx_as_str cx (sc_base_url sc)"

definition strip_hex_prefix :: "string \<Rightarrow> string" where
  "strip_hex_prefix h = (if take 2 h = ''0x'' \<or> take 2 h = ''0X'' then drop 2 h else h)"

fun join_commas :: "string list \<Rightarrow> string" where
  "join_commas [] = []"
| "join_commas [s] = s"
| "join_commas (s # ss) = s @ '','' @ join_commas ss"

definition pick_url :: "'u client_crates \<Rightarrow> 'u sequencer_client \<Rightarrow> string \<Rightarrow> 'u" where
  "pick_url cx sc endpoint =
     (let url = cx_join cx (sc_base_url sc) (''prover-jobs/v1/'' @ endpoint);
          url = cx_append_pair cx url ''id'' (sc_prover_id sc)
      in if sc_supported_vk_hashes sc \<noteq> []
         then let hashes = join_commas (map (\<lambda>hash. ''0x'' @ strip_hex_prefix hash) (sc_supported_vk_hashes sc))
              in cx_append_pair cx url ''supported_vk_hashes'' hashes
         else url)"

section \<open>Requests\<close>

definition is_success :: "nat \<Rightarrow> bool" where
  "is_success status = (200 \<le> status \<and> status < 300)"

definition NO_CONTENT :: nat where "NO_CONTENT = 204"
definition SERVICE_UNAVAILABLE :: nat where "SERVICE_UNAVAILABLE = 503"

definition request_failed :: "http_answer \<Rightarrow> bool" where
  "request_failed answer =
     (case answer of TransportError \<Rightarrow> True
      | HttpResponse status _ \<Rightarrow> \<not> (is_success status \<or> status = SERVICE_UNAVAILABLE))"

definition send ::
  "environment \<Rightarrow> metric_method \<Rightarrow> effect \<Rightarrow> (nat \<times> bytes option) client_io" where
  "send env mthd request =
     act (env_http env) request (\<lambda>answer.
     emit (Metric (HttpLatency mthd)) (
     (if request_failed answer then emit (Metric (HttpErrors mthd)) else id) (
     case answer of TransportError \<Rightarrow> io_err Transport | HttpResponse status body \<Rightarrow> io_ok (status, body))))"

definition post :: "'u client_crates \<Rightarrow> 'u sequencer_client \<Rightarrow> string \<Rightarrow> request_body \<Rightarrow> effect" where
  "post cx sc url body = HttpPost url (sc_default_headers sc) body"

text \<open>A pick answered 204 or 503 is no work; any other status than success is an error.\<close>

definition read_pick :: "(bytes \<Rightarrow> 'p option) \<Rightarrow> ('p \<Rightarrow> (client_error, 'a) result) \<Rightarrow> nat \<times> bytes option \<Rightarrow> (client_error, 'a option) result" where
  "read_pick json k = (\<lambda>(status, body).
     if status = NO_CONTENT \<or> status = SERVICE_UNAVAILABLE then Ok None
     else if \<not> is_success status then Err (UnexpectedStatus status)
     else rbind (ok_or body BadJson) (\<lambda>bytes.
          rbind (ok_or (json bytes) BadJson) (\<lambda>pick.
          rbind (k pick) (\<lambda>a. Ok (Some a)))))"

definition batch_of_pick :: "'u client_crates \<Rightarrow> pick_response \<Rightarrow> (client_error, zisk_batch_data) result" where
  "batch_of_pick cx pick =
     rbind (ok_or (cx_base64_decode cx (pr_zisk_data pick)) BadBase64) (\<lambda>zisk_data.
     Ok \<lparr>zb_batch_number = pr_batch_number pick, zb_vk_hash = pr_vk_hash pick, zb_zisk_data = zisk_data\<rparr>)"

definition pick_next_batch :: "environment \<Rightarrow> 'u client_crates \<Rightarrow> 'u sequencer_client \<Rightarrow> zisk_batch_data option client_io" where
  "pick_next_batch env cx sc =
     await_ok (send env Pick (post cx sc (cx_as_str cx (pick_url cx sc ''ZiSK/pick'')) NoBody)) (\<lambda>resp.
     io_of (read_pick (cx_json_pick cx) (batch_of_pick cx) resp))"

definition submit_zisk_proof ::
  "environment \<Rightarrow> 'u client_crates \<Rightarrow> 'u sequencer_client \<Rightarrow> u64 \<Rightarrow> bytes \<Rightarrow> bytes \<Rightarrow> unit client_io" where
  "submit_zisk_proof env cx sc batch_number pf public_values =
     (let payload = \<lparr>sb_batch_number = batch_number, sb_proof = cx_base64_encode cx pf,
                     sb_public_values = cx_base64_encode cx public_values\<rparr>;
          url = client_url cx sc @ ''prover-jobs/v1/ZiSK/submit?id='' @ sc_prover_id sc
      in await_ok (send env Submit (post cx sc url (SubmitBody payload))) (\<lambda>(status, body).
         if \<not> is_success status then io_err (SubmitRefused status) else io_ok ()))"

definition batch_range :: "u64 \<Rightarrow> u64 \<Rightarrow> u64 list" where
  "batch_range from_batch to_batch = map of_nat [unat from_batch..<Suc (unat to_batch)]"

definition job_of_pick :: "'u client_crates \<Rightarrow> aggregation_pick_response \<Rightarrow> (client_error, zisk_aggregation_job_data) result" where
  "job_of_pick cx pick =
     (let from_batch = ar_from_batch_number pick; to_batch = ar_to_batch_number pick;
          expected = batch_range from_batch to_batch; got = map bp_batch_number (ar_proofs pick)
      in rbind (ensure (got = expected) (NotContiguous got expected)) (\<lambda>_.
         rbind (mapR (\<lambda>p. rbind (ok_or (cx_base64_decode cx (bp_proof p)) BadBase64) (\<lambda>stream.
                          Ok (bp_batch_number p, stream))) (ar_proofs pick)) (\<lambda>streams.
         Ok \<lparr>za_from_batch = from_batch, za_to_batch = to_batch,
             za_vk_hash = (case ar_vk_hash pick of Some h \<Rightarrow> h | None \<Rightarrow> []), za_streams = streams\<rparr>)))"

definition pick_next_aggregation_job ::
  "environment \<Rightarrow> 'u client_crates \<Rightarrow> 'u sequencer_client \<Rightarrow> zisk_aggregation_job_data option client_io" where
  "pick_next_aggregation_job env cx sc =
     await_ok (send env PickAggregation (post cx sc (cx_as_str cx (pick_url cx sc ''ZiSK-AGG/pick'')) NoBody)) (\<lambda>resp.
     io_of (read_pick (cx_json_aggregation_pick cx) (job_of_pick cx) resp))"

definition submit_aggregated_proof ::
  "environment \<Rightarrow> 'u client_crates \<Rightarrow> 'u sequencer_client \<Rightarrow> u64 \<Rightarrow> u64 \<Rightarrow> bytes \<Rightarrow> bytes \<Rightarrow> unit client_io" where
  "submit_aggregated_proof env cx sc from_batch to_batch pf public_values =
     (let payload = \<lparr>ab_from_batch_number = from_batch, ab_to_batch_number = to_batch,
                     ab_proof = cx_base64_encode cx pf, ab_public_values = cx_base64_encode cx public_values\<rparr>;
          url = client_url cx sc @ ''prover-jobs/v1/ZiSK-AGG/submit?id='' @ sc_prover_id sc
      in await_ok (send env SubmitAggregation (post cx sc url (AggregationBody payload))) (\<lambda>(status, body).
         if \<not> is_success status then io_err (SubmitRefused status) else io_ok ()))"

end
