(* ===== verification/Prover_Daemon.thy ===== *)
theory Prover_Daemon
  imports Zisk_Prover Sequencer_Client "HOL-Library.List_Lexorder" "HOL-Library.Char_ord"
begin

text \<open>
  The prover daemon (\<open>prover/src/main.rs\<close>): its settings, the filter of verification keys, the start-up, one
  poll of a sequencer, and the round-robin loop. The setup loop and the poll loop may run forever, so both
  are partial functions into \<open>option\<close>. Text is its UTF-8 bytes; case folding and trimming are those of
  ASCII, beyond which no character is part of an accepted hash.
\<close>

section \<open>Settings\<close>

datatype jobs = All | Batches | Ranges

definition jobs_batches :: "jobs \<Rightarrow> bool" where
  "jobs_batches j = (j = All \<or> j = Batches)"

definition jobs_ranges :: "jobs \<Rightarrow> bool" where
  "jobs_ranges j = (j = All \<or> j = Ranges)"

record daemon_args =
  da_sequencer_urls :: "string list"
  da_zisk_binary :: path
  da_elf_path :: path
  da_proving_key :: "path option"
  da_proving_key_snark :: "path option"
  da_coordinator_url :: "string option"
  da_aggregation :: bool
  da_aggregator_elf :: "path option"
  da_jobs :: jobs
  da_no_gpu :: bool
  da_asm_emulator :: bool
  da_work_dir :: path
  da_poll_interval_secs :: nat
  da_iterations :: u64
  da_supported_vk_hashes :: "string list"
  da_vk_hashes_file :: "path option"
  da_metrics_address :: string
  da_prover_id :: "string option"

datatype daemon_error =
  MalformedVkHash string
| ProvingKeyRequired
| ProvingKeySnarkRequired
| PathMissing string
| BadMetricsAddress
| ClientError client_error
| SetupError prover_error

section \<open>Text\<close>

text \<open>\<open>read_to_string\<close>; a file that is not UTF-8 counts as unreadable.\<close>

definition text_of :: "bytes \<Rightarrow> string" where
  "text_of bs = map (\<lambda>b. char_of (unat b)) bs"

definition is_space :: "char \<Rightarrow> bool" where
  "is_space c = (let n = of_char c :: nat in n = 32 \<or> (9 \<le> n \<and> n \<le> 13))"

definition trim :: "string \<Rightarrow> string" where
  "trim s = rev (dropWhile is_space (rev (dropWhile is_space s)))"

fun split_newlines :: "string \<Rightarrow> string list" where
  "split_newlines [] = [[]]"
| "split_newlines (c # cs) =
     (if of_char c = (10 :: nat) then [] # split_newlines cs
      else case split_newlines cs of l # ls \<Rightarrow> (c # l) # ls | [] \<Rightarrow> [[c]])"

definition strip_cr :: "string \<Rightarrow> string" where
  "strip_cr l = (if l \<noteq> [] \<and> of_char (last l) = (13 :: nat) then butlast l else l)"

definition lines :: "string \<Rightarrow> string list" where
  "lines s = (let parts = split_newlines s
              in map strip_cr (butlast parts) @ (if last parts = [] then [] else [last parts]))"

definition to_lower :: "char \<Rightarrow> char" where
  "to_lower c = (let n = of_char c :: nat in if 65 \<le> n \<and> n \<le> 90 then char_of (n + 32) else c)"

definition is_hex_digit :: "char \<Rightarrow> bool" where
  "is_hex_digit c = (let n = of_char c :: nat
     in (48 \<le> n \<and> n \<le> 57) \<or> (65 \<le> n \<and> n \<le> 70) \<or> (97 \<le> n \<and> n \<le> 102))"

section \<open>The verification key filter\<close>

definition resolve_prover_id :: "environment \<Rightarrow> daemon_args \<Rightarrow> (string \<Rightarrow> effect list \<Rightarrow> 'r) \<Rightarrow> effect list \<Rightarrow> 'r" where
  "resolve_prover_id env args k =
     (case da_prover_id args of
        Some name \<Rightarrow> k name
      | None \<Rightarrow> act (env_read env) (ReadFile ''/proc/sys/kernel/hostname'') (\<lambda>contents.
          case contents of
            None \<Rightarrow> k ''zisk_prover''
          | Some h \<Rightarrow> let name = trim (text_of h) in if name \<noteq> [] then k name else k ''zisk_prover''))"

definition normalize_vk_hash :: "string \<Rightarrow> string" where
  "normalize_vk_hash raw = map to_lower (strip_hex_prefix raw)"

definition file_entries :: "string \<Rightarrow> string list" where
  "file_entries content = filter (\<lambda>line. line \<noteq> [] \<and> hd line \<noteq> CHR ''#'') (map trim (lines content))"

definition well_formed_hash :: "string \<Rightarrow> bool" where
  "well_formed_hash h = (length h = 64 \<and> list_all is_hex_digit h)"

definition normalize_entries :: "string list \<Rightarrow> (daemon_error, string list) result" where
  "normalize_entries raw =
     mapR (\<lambda>entry. let norm = normalize_vk_hash entry
                   in rbind (ensure (well_formed_hash norm) (MalformedVkHash entry)) (\<lambda>_. Ok norm)) raw"

definition load_supported_vk_hashes :: "environment \<Rightarrow> daemon_args \<Rightarrow> (daemon_error, string list) io" where
  "load_supported_vk_hashes env args =
     (let load = (\<lambda>raw. io_of (rbind (normalize_entries raw) (\<lambda>hashes. Ok (remdups_adj (sort hashes)))))
      in case da_vk_hashes_file args of
           None \<Rightarrow> load (da_supported_vk_hashes args)
         | Some path \<Rightarrow> act (env_read env) (ReadFile path) (\<lambda>contents.
             case contents of
               None \<Rightarrow> load (da_supported_vk_hashes args)
             | Some bs \<Rightarrow> load (da_supported_vk_hashes args @ file_entries (text_of bs))))"

section \<open>The idle cycle\<close>

datatype poll = Proved | Idle | Retry | PollCancelled

record idle_cycle =
  ic_sequencers :: nat
  ic_idle_streak :: nat

definition idle_cycle_new :: "nat \<Rightarrow> idle_cycle" where
  "idle_cycle_new sequencers = \<lparr>ic_sequencers = max sequencers 1, ic_idle_streak = 0\<rparr>"

definition idle_record :: "poll \<Rightarrow> idle_cycle \<Rightarrow> bool \<times> idle_cycle" where
  "idle_record outcome ic =
     (case outcome of
        Idle \<Rightarrow> (let streak = ic_idle_streak ic + 1
                 in if ic_sequencers ic \<le> streak then (True, ic\<lparr>ic_idle_streak := 0\<rparr>)
                    else (False, ic\<lparr>ic_idle_streak := streak\<rparr>))
      | Proved \<Rightarrow> (False, ic\<lparr>ic_idle_streak := 0\<rparr>)
      | Retry \<Rightarrow> (False, ic)
      | PollCancelled \<Rightarrow> (False, ic))"

section \<open>One poll\<close>

type_synonym poll_io = "effect list \<Rightarrow> poll \<times> effect list"

definition range_supported :: "string list \<Rightarrow> string \<Rightarrow> bool" where
  "range_supported supported vk_hash =
     (supported = [] \<or> (vk_hash \<noteq> [] \<and> normalize_vk_hash vk_hash \<in> set supported))"

definition batch_supported :: "string list \<Rightarrow> string \<Rightarrow> bool" where
  "batch_supported supported vk_hash = (supported = [] \<or> normalize_vk_hash vk_hash \<in> set supported)"

definition serve_range ::
  "environment \<Rightarrow> 'u client_crates \<Rightarrow> file_bincode \<Rightarrow> 'u sequencer_client \<Rightarrow> zisk_prover \<Rightarrow> string list \<Rightarrow>
   zisk_aggregation_job_data \<Rightarrow> poll_io" where
  "serve_range env cx fb sc zp supported jb =
     (if \<not> range_supported supported (za_vk_hash jb) then emit (SleepFor 10) (Pair Retry)
      else await (generate_aggregated_proof env fb zp (map snd (za_streams jb)) (za_from_batch jb) (za_to_batch jb)) (\<lambda>result.
        case result of
          Err _ \<Rightarrow> Pair Retry
        | Ok None \<Rightarrow> Pair PollCancelled
        | Ok (Some output) \<Rightarrow>
            await (submit_aggregated_proof env cx sc (za_from_batch jb) (za_to_batch jb) (so_proof output) (so_public_values output)) (\<lambda>submitted.
            if \<not> is_ok submitted then Pair Retry
            else cleanup_range_work_dir zp (za_from_batch jb) (za_to_batch jb) (
                 emit (Metric (LatestAggregatedBatch (za_to_batch jb))) (
                 Pair Proved)))))"

definition submit_batch ::
  "environment \<Rightarrow> 'u client_crates \<Rightarrow> 'u sequencer_client \<Rightarrow> zisk_prover \<Rightarrow> u64 \<Rightarrow> bytes \<Rightarrow> bytes \<Rightarrow> poll_io" where
  "submit_batch env cx sc zp batch_number pf public_values =
     await (submit_zisk_proof env cx sc batch_number pf public_values) (\<lambda>submitted.
     if \<not> is_ok submitted then Pair Retry
     else cleanup_batch_work_dir zp batch_number (
          emit (Metric (LatestProvenBatch batch_number)) (
          Pair Proved)))"

definition serve_batch ::
  "environment \<Rightarrow> 'u client_crates \<Rightarrow> file_bincode \<Rightarrow> 'u sequencer_client \<Rightarrow> zisk_prover \<Rightarrow> bool \<Rightarrow> string list \<Rightarrow>
   zisk_batch_data \<Rightarrow> poll_io" where
  "serve_batch env cx fb sc zp aggregation supported batch =
     (if \<not> batch_supported supported (zb_vk_hash batch) then emit (SleepFor 10) (Pair Retry)
      else if aggregation
      then await (generate_vadcop_proof env zp (zb_zisk_data batch) (zb_batch_number batch)) (\<lambda>result.
           case result of
             Err _ \<Rightarrow> Pair Retry
           | Ok None \<Rightarrow> Pair PollCancelled
           | Ok (Some stream) \<Rightarrow> submit_batch env cx sc zp (zb_batch_number batch) stream [])
      else await (generate_proof env fb zp (zb_zisk_data batch) (zb_batch_number batch)) (\<lambda>result.
           case result of
             Err _ \<Rightarrow> Pair Retry
           | Ok None \<Rightarrow> Pair PollCancelled
           | Ok (Some output) \<Rightarrow>
               submit_batch env cx sc zp (zb_batch_number batch) (so_proof output) (so_public_values output)))"

definition poll_batches ::
  "environment \<Rightarrow> 'u client_crates \<Rightarrow> file_bincode \<Rightarrow> 'u sequencer_client \<Rightarrow> zisk_prover \<Rightarrow> bool \<Rightarrow> jobs \<Rightarrow> string list \<Rightarrow> poll_io" where
  "poll_batches env cx fb sc zp aggregation jbs supported =
     (if \<not> jobs_batches jbs then Pair Idle
      else await (pick_next_batch env cx sc) (\<lambda>picked.
        case picked of
          Err _ \<Rightarrow> Pair Idle
        | Ok None \<Rightarrow> Pair Idle
        | Ok (Some batch) \<Rightarrow> serve_batch env cx fb sc zp aggregation supported batch))"

definition poll_sequencer ::
  "environment \<Rightarrow> 'u client_crates \<Rightarrow> file_bincode \<Rightarrow> 'u sequencer_client \<Rightarrow> zisk_prover \<Rightarrow> bool \<Rightarrow> jobs \<Rightarrow> string list \<Rightarrow> poll_io" where
  "poll_sequencer env cx fb sc zp aggregation jbs supported =
     (let batches = poll_batches env cx fb sc zp aggregation jbs supported
      in if aggregation \<and> jobs_ranges jbs
         then await (pick_next_aggregation_job env cx sc) (\<lambda>picked.
              case picked of
                Ok (Some jb) \<Rightarrow> serve_range env cx fb sc zp supported jb
              | Ok None \<Rightarrow> batches
              | Err _ \<Rightarrow> batches)
         else batches)"

section \<open>The loop\<close>

record loop_state =
  ls_next :: nat
  ls_idle_cycle :: idle_cycle
  ls_proofs_generated :: u64

datatype loop_end = Shutdown | CancelledMidProof | IterationLimit | CancelledAsleep | NoSequencers

datatype step_result = Stop loop_end | Continue loop_state

text \<open>One turn of the loop, for the next client of the cycle.\<close>

definition rest_or_continue :: "environment \<Rightarrow> nat \<Rightarrow> poll \<Rightarrow> loop_state \<Rightarrow> effect list \<Rightarrow> step_result \<times> effect list" where
  "rest_or_continue env poll_interval outcome st =
     (let (sleep, idle_cycle) = idle_record outcome (ls_idle_cycle st);
          st = st\<lparr>ls_idle_cycle := idle_cycle, ls_next := ls_next st + 1\<rparr>
      in if sleep
         then act (env_cancelled env) (SleepOrCancel poll_interval) (\<lambda>cancelled.
              if cancelled then Pair (Stop CancelledAsleep) else Pair (Continue st))
         else Pair (Continue st))"

definition poll_step ::
  "environment \<Rightarrow> (nat \<Rightarrow> poll_io) \<Rightarrow> nat \<Rightarrow> u64 \<Rightarrow> loop_state \<Rightarrow> effect list \<Rightarrow> step_result \<times> effect list" where
  "poll_step env poll_nth poll_interval iterations st =
     act (env_cancelled env) CheckCancelled (\<lambda>cancelled.
     if cancelled then Pair (Stop Shutdown)
     else await (poll_nth (ls_next st)) (\<lambda>outcome.
       case outcome of
         PollCancelled \<Rightarrow> Pair (Stop CancelledMidProof)
       | Proved \<Rightarrow>
           (let st = st\<lparr>ls_proofs_generated := ls_proofs_generated st + 1\<rparr>
            in if 0 < iterations \<and> iterations \<le> ls_proofs_generated st then Pair (Stop IterationLimit)
               else rest_or_continue env poll_interval outcome st)
       | _ \<Rightarrow> rest_or_continue env poll_interval outcome st))"

partial_function (option) poll_loop ::
  "environment \<Rightarrow> (nat \<Rightarrow> poll_io) \<Rightarrow> nat \<Rightarrow> u64 \<Rightarrow> loop_state \<Rightarrow> effect list \<Rightarrow> (loop_end \<times> effect list) option" where
  "poll_loop env poll_nth poll_interval iterations st tr =
     (case poll_step env poll_nth poll_interval iterations st tr of
        (Stop e, tr') \<Rightarrow> Some (e, tr')
      | (Continue st', tr') \<Rightarrow> poll_loop env poll_nth poll_interval iterations st' tr')"

section \<open>Start-up\<close>

definition select_backend :: "daemon_args \<Rightarrow> (daemon_error, proving_backend) result" where
  "select_backend args =
     (case da_coordinator_url args of
        Some url \<Rightarrow> Ok (Coordinator url)
      | None \<Rightarrow>
          rbind (ok_or (da_proving_key args) ProvingKeyRequired) (\<lambda>proving_key.
          rbind (ok_or (da_proving_key_snark args) ProvingKeySnarkRequired) (\<lambda>proving_key_snark.
          Ok (Spawn \<lparr>sp_proving_key = proving_key, sp_proving_key_snark = proving_key_snark,
                     sp_gpu = (\<not> da_no_gpu args), sp_asm_emulator = da_asm_emulator args\<rparr>))))"

definition required_paths :: "daemon_args \<Rightarrow> proving_backend \<Rightarrow> (string \<times> path) list" where
  "required_paths args backend =
     [(''zisk_binary'', da_zisk_binary args), (''elf_path'', da_elf_path args)] @
     (case da_aggregator_elf args of Some elf \<Rightarrow> [(''aggregator_elf'', elf)] | None \<Rightarrow> []) @
     (case backend of
        Spawn spawn \<Rightarrow> [(''proving_key'', sp_proving_key spawn), (''proving_key_snark'', sp_proving_key_snark spawn)]
      | Coordinator _ \<Rightarrow> [])"

fun check_paths :: "environment \<Rightarrow> (string \<times> path) list \<Rightarrow> (daemon_error, unit) io" where
  "check_paths env [] = io_ok ()"
| "check_paths env ((name, path) # rest) =
     act (env_exists env) (CheckExists path) (\<lambda>exists.
     if exists then check_paths env rest else io_err (PathMissing name))"

definition setup_once :: "environment \<Rightarrow> zisk_prover \<Rightarrow> daemon_args \<Rightarrow> bool prover_io" where
  "setup_once env zp args =
     (let ranges = (if da_aggregation args \<and> jobs_ranges (da_jobs args)
                    then ensure_aggregator_program_setup env zp else io_ok True)
      in if jobs_batches (da_jobs args)
         then await_ok (ensure_program_setup env zp) (\<lambda>finished. if \<not> finished then io_ok False else ranges)
         else ranges)"

text \<open>\<open>Ok False\<close> means that the daemon was cancelled before the setup was complete.\<close>

partial_function (option) setup_loop ::
  "environment \<Rightarrow> zisk_prover \<Rightarrow> daemon_args \<Rightarrow> effect list \<Rightarrow> ((daemon_error, bool) result \<times> effect list) option" where
  "setup_loop env zp args tr =
     (case setup_once env zp args tr of
        (Ok finished, tr') \<Rightarrow> Some (Ok finished, tr')
      | (Err e, tr') \<Rightarrow>
          if da_coordinator_url args \<noteq> None
          then (let sleep = SleepOrCancel (max (da_poll_interval_secs args) 15); tr'' = tr' @ [sleep]
                in if env_cancelled env tr'' then Some (Ok False, tr'') else setup_loop env zp args tr'')
          else Some (Err (SetupError e), tr'))"

definition prover_of :: "daemon_args \<Rightarrow> proving_backend \<Rightarrow> zisk_prover" where
  "prover_of args backend =
     \<lparr>zp_binary = da_zisk_binary args, zp_elf_path = da_elf_path args,
      zp_aggregator_elf_path = da_aggregator_elf args, zp_backend = backend, zp_work_dir_base = da_work_dir args\<rparr>"

text \<open>Everything before the setup loop: the filter, the identity, the backend, the paths and the clients.\<close>

definition start_up ::
  "environment \<Rightarrow> 'u client_crates \<Rightarrow> (string \<Rightarrow> bool) \<Rightarrow> daemon_args \<Rightarrow>
   (daemon_error, string list \<times> zisk_prover \<times> 'u sequencer_client list) io" where
  "start_up env cx address_parses args =
     await_ok (load_supported_vk_hashes env args) (\<lambda>supported.
     resolve_prover_id env args (\<lambda>prover_id.
     await_ok (io_of (select_backend args)) (\<lambda>backend.
     await_ok (check_paths env (required_paths args backend)) (\<lambda>_.
     await_ok (io_of (ensure (address_parses (da_metrics_address args)) BadMetricsAddress)) (\<lambda>_.
     await_ok (io_of (mapR (\<lambda>url. map_err ClientError (client_new cx url prover_id supported)) (da_sequencer_urls args))) (\<lambda>clients.
     io_ok (supported, prover_of args backend, clients)))))))"

definition run_clients ::
  "environment \<Rightarrow> 'u client_crates \<Rightarrow> file_bincode \<Rightarrow> daemon_args \<Rightarrow> string list \<Rightarrow> zisk_prover \<Rightarrow> 'u sequencer_client list \<Rightarrow>
   effect list \<Rightarrow> (loop_end \<times> effect list) option" where
  "run_clients env cx fb args supported zp clients tr =
     (if clients = [] then Some (NoSequencers, tr)
      else poll_loop env
        (\<lambda>i. poll_sequencer env cx fb (clients ! (i mod length clients)) zp (da_aggregation args) (da_jobs args) supported)
        (da_poll_interval_secs args) (da_iterations args)
        \<lparr>ls_next = 0, ls_idle_cycle = idle_cycle_new (length clients), ls_proofs_generated = 0\<rparr> tr)"

definition daemon_main ::
  "environment \<Rightarrow> 'u client_crates \<Rightarrow> file_bincode \<Rightarrow> (string \<Rightarrow> bool) \<Rightarrow> daemon_args \<Rightarrow> effect list \<Rightarrow>
   ((daemon_error, loop_end option) result \<times> effect list) option" where
  "daemon_main env cx fb address_parses args tr =
     (case start_up env cx address_parses args tr of
        (Err e, tr') \<Rightarrow> Some (Err e, tr')
      | (Ok (supported, zp, clients), tr') \<Rightarrow>
          (case setup_loop env zp args tr' of
             None \<Rightarrow> None
           | Some (Err e, tr'') \<Rightarrow> Some (Err e, tr'')
           | Some (Ok False, tr'') \<Rightarrow> Some (Ok None, tr'')
           | Some (Ok True, tr'') \<Rightarrow>
               map_option (\<lambda>(stop, tr). (Ok (Some stop), tr)) (run_clients env cx fb args supported zp clients tr'')))"

end
