(* ===== verification/Daemon_Runs.thy ===== *)
theory Daemon_Runs
  imports Prover_Daemon
begin

text \<open>
  What the operations of the daemon do to the trace: the child processes a prove starts, the life of a work
  directory, and how many submissions a sequencer accepted, for every environment.
\<close>

section \<open>Kinds of effects\<close>

fun is_submit :: "effect \<Rightarrow> bool" where
  "is_submit (HttpPost url headers body) = (body \<noteq> NoBody)"
| "is_submit _ = False"

fun is_remove :: "effect \<Rightarrow> bool" where
  "is_remove (RemoveDirAll d) = True"
| "is_remove _ = False"

fun is_spawn :: "effect \<Rightarrow> bool" where
  "is_spawn (SpawnChild binary args) = True"
| "is_spawn _ = False"

text \<open>A quiet effect neither submits a proof nor removes a directory; a still one starts no child either.\<close>

definition quiet :: "effect \<Rightarrow> bool" where
  "quiet e \<longleftrightarrow> \<not> is_submit e \<and> \<not> is_remove e"

definition still :: "effect \<Rightarrow> bool" where
  "still e \<longleftrightarrow> quiet e \<and> \<not> is_spawn e"

lemma quiet_simps [simp]:
  "quiet (SpawnChild b args)" "quiet AwaitChild" "quiet InterruptChild" "quiet AwaitGrace" "quiet KillChild"
  "quiet (CreateDirAll d)" "quiet (WriteFile f bs)" "quiet (ReadFile f)" "quiet (CheckExists f)"
  "quiet (Metric m)" "quiet (SleepFor n)" "quiet (SleepOrCancel n)" "quiet CheckCancelled"
  "quiet (HttpPost url hs NoBody)" "\<not> quiet (RemoveDirAll d)" "\<not> quiet (HttpPost url hs (SubmitBody sb))"
  "\<not> quiet (HttpPost url hs (AggregationBody ab))"
  by (simp_all add: quiet_def)

lemma still_simps [simp]:
  "still AwaitChild" "still InterruptChild" "still AwaitGrace" "still KillChild"
  "still (CreateDirAll d)" "still (WriteFile f bs)" "still (ReadFile f)" "still (CheckExists f)"
  "still (Metric m)" "still (SleepFor n)" "still (SleepOrCancel n)" "still CheckCancelled"
  "\<not> still (SpawnChild b args)"
  by (simp_all add: still_def)

section \<open>Child processes\<close>

text \<open>The command lines of the child processes a list of effects starts.\<close>

fun commands :: "effect list \<Rightarrow> string list list" where
  "commands [] = []"
| "commands (SpawnChild binary args # es) = args # commands es"
| "commands (e # es) = commands es"

lemma commands_append: "commands (es @ es') = commands es @ commands es'"
  by (induction es rule: commands.induct) simp_all

lemma commands_still: "list_all still es \<Longrightarrow> commands es = []"
  by (induction es rule: commands.induct) simp_all

text \<open>A child process is one spawn and waiting for it.\<close>

lemma run_cancellable_trace:
  assumes "run_cancellable env binary args tr = (r, tr')"
  shows "\<exists>es. tr' = tr @ SpawnChild binary args # es \<and> list_all still es"
proof -
  have "appends still (case event of
         WaitFailed \<Rightarrow> io_err WaitForChildFailed
       | ChildExited success \<Rightarrow> if success then io_ok True else io_err ExitStatus
       | CancelRequested \<Rightarrow>
           emit InterruptChild (
           act (env_grace env) AwaitGrace (\<lambda>exited.
           if exited then io_ok False else emit KillChild (io_ok False))))" for event
    by (cases event) (auto intro!: appends_rules)
  then have "appends still (\<lambda>tr. (if \<not> spawned then io_err SpawnFailed
     else act (env_child env) AwaitChild (\<lambda>event.
       case event of
         WaitFailed \<Rightarrow> io_err WaitForChildFailed
       | ChildExited success \<Rightarrow> if success then io_ok True else io_err ExitStatus
       | CancelRequested \<Rightarrow>
           emit InterruptChild (
           act (env_grace env) AwaitGrace (\<lambda>exited.
           if exited then io_ok False else emit KillChild (io_ok False))))) tr)" for spawned
    by (auto intro!: appends_rules)
  from appendsD [OF this [of "env_spawn env (tr @ [SpawnChild binary args])"], of "tr @ [SpawnChild binary args]" r tr']
  show ?thesis using assms by (auto simp: run_cancellable_def act_def [of "env_spawn env"])
qed

lemma appends_run_cancellable [appends_rules]: "appends quiet (run_cancellable env binary args)"
  unfolding appends_def
proof
  fix tr
  obtain r tr' where run: "run_cancellable env binary args tr = (r, tr')" by (cases "run_cancellable env binary args tr")
  from run_cancellable_trace [OF run] show "\<exists>es. snd (run_cancellable env binary args tr) = tr @ es \<and> list_all quiet es"
    by (auto simp: run still_def list_all_iff)
qed

lemma appends_program_setup [appends_rules]: "appends quiet (program_setup env zp elf)"
  unfolding program_setup_def by (auto intro!: appends_rules)

lemma program_setup_trace:
  assumes "program_setup env zp elf tr = (r, tr')"
  shows "\<exists>es. tr' = tr @ es \<and> commands es = [setup_args (zp_backend zp) elf]"
proof -
  obtain r1 tr1 where run: "run_cancellable env (zp_binary zp) (setup_args (zp_backend zp) elf) tr = (r1, tr1)"
    by (cases "run_cancellable env (zp_binary zp) (setup_args (zp_backend zp) elf) tr")
  from run_cancellable_trace [OF run]
  obtain es where es: "tr1 = tr @ SpawnChild (zp_binary zp) (setup_args (zp_backend zp) elf) # es" "list_all still es" by blast
  have "tr' = tr1 \<or> tr' = tr1 @ [Metric ProgramSetupTime]"
    using assms run by (auto simp: program_setup_def io_simps split: result.splits if_splits)
  then show ?thesis using es commands_still [OF es(2)] by (auto simp: commands_append)
qed

lemma appends_finish_prove: "appends still (finish_prove env jb proof_path attempt)"
  unfolding finish_prove_def
  by (cases attempt) (auto intro!: appends_rules split: bool.split)

lemma appends_finish_prove_quiet [appends_rules]: "appends quiet (finish_prove env jb proof_path attempt)"
  by (rule appends_mono [OF appends_finish_prove]) (simp add: still_def)

lemma appends_run_prove [appends_rules]: "appends quiet (run_prove env zp jb elf input_path proof_path snark)"
  unfolding run_prove_def Let_def by (auto intro!: appends_rules)

text \<open>The children of a prove, by how the first attempt ended.\<close>

lemma run_prove_commands:
  assumes run: "run_prove env zp jb elf input_path proof_path snark tr = (r, tr')"
  defines "prove \<equiv> prove_args (zp_backend zp) elf input_path proof_path snark"
  defines "failed \<equiv> \<not> is_ok (fst (run_cancellable env (zp_binary zp) prove tr)) \<and> is_coordinator (zp_backend zp)"
  shows "\<exists>es. tr' = tr @ es \<and>
    (if failed then commands es = [prove, setup_args (zp_backend zp) elf, prove] \<or>
        (commands es = [prove, setup_args (zp_backend zp) elf] \<and> r \<noteq> Ok True)
     else commands es = [prove])"
proof -
  obtain r1 tr1 where run1: "run_cancellable env (zp_binary zp) prove tr = (r1, tr1)"
    by (cases "run_cancellable env (zp_binary zp) prove tr")
  from run_cancellable_trace [OF run1] obtain es1
    where es1: "tr1 = tr @ SpawnChild (zp_binary zp) prove # es1" "list_all still es1" by blast
  note c1 = commands_still [OF es1(2)]
  show ?thesis
  proof (cases failed)
    case False
    then have "finish_prove env jb proof_path r1 tr1 = (r, tr')"
      using run run1 by (auto simp: run_prove_def await_def Let_def failed_def simp flip: prove_def)
    from appendsD [OF appends_finish_prove this] obtain es where "tr' = tr1 @ es" "list_all still es" by blast
    then show ?thesis using False es1 c1 commands_still by (simp add: commands_append)
  next
    case True
    obtain r2 tr2 where set: "program_setup env zp elf tr1 = (r2, tr2)" by (cases "program_setup env zp elf tr1")
    from program_setup_trace [OF set] obtain es2
      where es2: "tr2 = tr1 @ es2" "commands es2 = [setup_args (zp_backend zp) elf]" by blast
    have rest: "(case r2 of Err e \<Rightarrow> io_err e | Ok finished \<Rightarrow>
        if \<not> finished then io_ok False
        else await (run_cancellable env (zp_binary zp) prove) (finish_prove env jb proof_path)) tr2 = (r, tr')"
      using run run1 set True
      by (simp add: run_prove_def await_def await_ok_def Let_def failed_def flip: prove_def)
    show ?thesis
    proof (cases "r2 = Ok True")
      case again: True
      obtain r3 tr3 where run3: "run_cancellable env (zp_binary zp) prove tr2 = (r3, tr3)"
        by (cases "run_cancellable env (zp_binary zp) prove tr2")
      from run_cancellable_trace [OF run3] obtain es3
        where es3: "tr3 = tr2 @ SpawnChild (zp_binary zp) prove # es3" "list_all still es3" by blast
      have "finish_prove env jb proof_path r3 tr3 = (r, tr')" using rest again run3 by (simp add: await_def)
      from appendsD [OF appends_finish_prove this] obtain es where "tr' = tr3 @ es" "list_all still es" by blast
      then show ?thesis using True es1 es2 es3 c1 commands_still by (simp add: commands_append)
    next
      case False
      then have "tr' = tr2 \<and> r \<noteq> Ok True" using rest by (auto simp: io_simps split: result.splits if_splits)
      then show ?thesis using True es1 es2 c1 by (simp add: commands_append)
    qed
  qed
qed

section \<open>Work directories\<close>

text \<open>
  A flow starts by emptying its directory and removes it again only when it was cancelled; in between it
  neither removes a directory nor submits.
\<close>

definition keeps_dir :: "path \<Rightarrow> 'a option prover_io \<Rightarrow> bool" where
  "keeps_dir work_dir m \<longleftrightarrow> (\<forall>tr r tr'. m tr = (r, tr') \<longrightarrow>
     (\<exists>es. tr' = tr @ RemoveDirAll work_dir # es @ (if r = Ok None then [RemoveDirAll work_dir] else []) \<and> list_all quiet es))"

lemma finish_run_trace:
  "finish_run jb work_dir result tr = (r, tr') \<Longrightarrow> r = result \<and>
     tr' = tr @ [Metric (ProofGenerationTime jb), Metric (Proofs jb (outcome_of result))] @
       (if result = Ok None then [RemoveDirAll work_dir] else [])"
  by (auto simp: finish_run_def emit_def io_of_def split: result.splits option.splits)

lemma keeps_dir_in_work_dir:
  assumes run: "appends quiet run"
  shows "keeps_dir work_dir (in_work_dir env jb work_dir run)"
  unfolding keeps_dir_def
proof (intro allI impI)
  fix tr r tr'
  assume m: "in_work_dir env jb work_dir run tr = (r, tr')"
  let ?tr = "tr @ [RemoveDirAll work_dir, CreateDirAll work_dir]"
  show "\<exists>es. tr' = tr @ RemoveDirAll work_dir # es @ (if r = Ok None then [RemoveDirAll work_dir] else []) \<and> list_all quiet es"
  proof (cases "env_fs env ?tr")
    case False
    then have "r = Err FilesystemError \<and> tr' = ?tr"
      using m by (auto simp: in_work_dir_def emit_def fs_act_def act_def io_err_def)
    then show ?thesis by (intro exI [of _ "[CreateDirAll work_dir]"]) simp
  next
    case True
    obtain r1 tr1 where run1: "run ?tr = (r1, tr1)" by (cases "run ?tr")
    from appendsD [OF run run1] obtain es where es: "tr1 = ?tr @ es" "list_all quiet es" by blast
    have "finish_run jb work_dir r1 tr1 = (r, tr')"
      using m True run1 by (simp add: in_work_dir_def emit_def fs_act_def act_def await_def)
    from finish_run_trace [OF this] es show ?thesis
      by (intro exI [of _ "CreateDirAll work_dir # es @ [Metric (ProofGenerationTime jb), Metric (Proofs jb (outcome_of r1))]"])
         simp
  qed
qed

lemma appends_prove_and_parse [appends_rules]: "appends quiet (prove_and_parse env zp jb elf work_dir snark parse)"
  unfolding prove_and_parse_def Let_def by (auto intro!: appends_rules)

lemma keeps_dir_generate_proof: "keeps_dir (batch_work_dir zp n) (generate_proof env fb zp data n)"
  unfolding generate_proof_def Let_def write_zisk_input_def
  by (intro keeps_dir_in_work_dir appends_rules) simp

lemma keeps_dir_generate_vadcop: "keeps_dir (batch_work_dir zp n) (generate_vadcop_proof env zp data n)"
  unfolding generate_vadcop_proof_def Let_def write_zisk_input_def
  by (intro keeps_dir_in_work_dir appends_rules) simp

text \<open>The aggregated flow may fail before it touches its directory.\<close>

lemma generate_aggregated_trace:
  assumes "generate_aggregated_proof env fb zp streams a b tr = (r, tr')"
  shows "(\<exists>e. r = Err e \<and> tr' = tr) \<or> (\<exists>es. tr' = tr @ RemoveDirAll (range_work_dir zp a b) # es @
    (if r = Ok None then [RemoveDirAll (range_work_dir zp a b)] else []) \<and> list_all quiet es)"
proof -
  let ?asm = "assemble (map (\<lambda>s. (env_alloc env s, s)) streams)"
  consider e where "aggregator_elf zp = Err e" | elf e where "aggregator_elf zp = Ok elf" "?asm = Err e"
    | elf input where "aggregator_elf zp = Ok elf" "?asm = Ok input"
    by (cases "aggregator_elf zp"; cases ?asm) auto
  then show ?thesis
  proof cases
    case (3 elf input)
    let ?wd = "range_work_dir zp a b"
    have "keeps_dir ?wd (in_work_dir env RangeJob ?wd (
        fs_act env FilesystemError (WriteFile (path_join ?wd ''input.bin'') input) (
        prove_and_parse env zp RangeJob elf ?wd True (parse_proof_file fb))))"
      by (intro keeps_dir_in_work_dir appends_rules) simp
    moreover have "in_work_dir env RangeJob ?wd (
        fs_act env FilesystemError (WriteFile (path_join ?wd ''input.bin'') input) (
        prove_and_parse env zp RangeJob elf ?wd True (parse_proof_file fb))) tr = (r, tr')"
      using assms 3 by (simp add: generate_aggregated_proof_def await_ok_def await_def io_of_def Let_def)
    ultimately show ?thesis unfolding keeps_dir_def by blast
  qed (use assms in \<open>auto simp: generate_aggregated_proof_def await_ok_def await_def io_of_def io_err_def\<close>)
qed

section \<open>Submissions\<close>

definition accepted_answer :: "http_answer \<Rightarrow> bool" where
  "accepted_answer answer = (case answer of HttpResponse status body \<Rightarrow> is_success status | TransportError \<Rightarrow> False)"

text \<open>How many submissions among the effects after a trace a sequencer answered with success.\<close>

fun accepted :: "environment \<Rightarrow> effect list \<Rightarrow> effect list \<Rightarrow> nat" where
  "accepted env tr [] = 0"
| "accepted env tr (e # es) =
     (if is_submit e \<and> accepted_answer (env_http env (tr @ [e])) then 1 else 0) + accepted env (tr @ [e]) es"

lemma accepted_append: "accepted env tr (es @ es') = accepted env tr es + accepted env (tr @ es) es'"
  by (induction es arbitrary: tr) simp_all

lemma accepted_no_submit: "list_all (\<lambda>e. \<not> is_submit e) es \<Longrightarrow> accepted env tr es = 0"
  by (induction es arbitrary: tr) simp_all

lemma accepted_quiet: "list_all quiet es \<Longrightarrow> accepted env tr es = 0"
  by (rule accepted_no_submit) (auto simp: list_all_iff quiet_def)

text \<open>The effects of a request that carries a proof.\<close>

lemma send_trace:
  assumes "send env mthd req tr = (r, tr')"
  shows "\<exists>ms. tr' = tr @ req # ms \<and> list_all quiet ms \<and>
    r = (case env_http env (tr @ [req]) of TransportError \<Rightarrow> Err Transport | HttpResponse status body \<Rightarrow> Ok (status, body))"
proof (cases "request_failed (env_http env (tr @ [req]))")
  case True
  then show ?thesis using assms
    by (intro exI [of _ "[Metric (HttpLatency mthd), Metric (HttpErrors mthd)]"])
       (auto simp: send_def act_def emit_def io_ok_def io_err_def split: http_answer.splits)
next
  case False
  then show ?thesis using assms
    by (intro exI [of _ "[Metric (HttpLatency mthd)]"])
       (auto simp: send_def act_def emit_def io_ok_def io_err_def split: http_answer.splits)
qed

definition submits :: "environment \<Rightarrow> (client_error, unit) io \<Rightarrow> bool" where
  "submits env m \<longleftrightarrow> (\<forall>tr r tr'. m tr = (r, tr') \<longrightarrow>
     (\<exists>req ms. tr' = tr @ req # ms \<and> is_submit req \<and> list_all quiet ms \<and>
        is_ok r = accepted_answer (env_http env (tr @ [req]))))"

lemma submits_send:
  assumes "is_submit req"
  shows "submits env (await_ok (send env mthd req) (\<lambda>(status, body).
    if \<not> is_success status then io_err (SubmitRefused status) else io_ok ()))"
  unfolding submits_def
proof (intro allI impI)
  fix tr r tr'
  assume m: "await_ok (send env mthd req) (\<lambda>(status, body).
    if \<not> is_success status then io_err (SubmitRefused status) else io_ok ()) tr = (r, tr')"
  obtain r1 tr1 where sent: "send env mthd req tr = (r1, tr1)" by (cases "send env mthd req tr")
  from send_trace [OF sent] obtain ms where ms: "tr1 = tr @ req # ms" "list_all quiet ms"
    "r1 = (case env_http env (tr @ [req]) of TransportError \<Rightarrow> Err Transport | HttpResponse status body \<Rightarrow> Ok (status, body))"
    by blast
  have "tr' = tr1 \<and> is_ok r = accepted_answer (env_http env (tr @ [req]))"
    using m sent ms(3)
    by (auto simp: await_ok_def await_def io_ok_def io_err_def accepted_answer_def split: http_answer.splits if_splits)
  then show "\<exists>req ms. tr' = tr @ req # ms \<and> is_submit req \<and> list_all quiet ms \<and>
      is_ok r = accepted_answer (env_http env (tr @ [req]))" using assms ms by blast
qed

lemma submits_zisk_proof: "submits env (submit_zisk_proof env cx sc n pf pv)"
  unfolding submit_zisk_proof_def Let_def by (rule submits_send) (simp add: post_def)

lemma submits_aggregated_proof: "submits env (submit_aggregated_proof env cx sc a b pf pv)"
  unfolding submit_aggregated_proof_def Let_def by (rule submits_send) (simp add: post_def)

section \<open>Serving a job\<close>

text \<open>
  The three ways a picked job ends: cancelled with its directory gone, failed with its directory kept, or
  submitted, where the directory goes exactly if the sequencer accepted.
\<close>

definition served :: "environment \<Rightarrow> path \<Rightarrow> effect list \<Rightarrow> poll \<Rightarrow> effect list \<Rightarrow> bool" where
  "served env work_dir tr outcome tr' \<longleftrightarrow> (\<exists>es. list_all quiet es \<and>
     (outcome = PollCancelled \<and> tr' = tr @ RemoveDirAll work_dir # es @ [RemoveDirAll work_dir] \<or>
      outcome = Retry \<and> tr' = tr @ RemoveDirAll work_dir # es \<or>
      (\<exists>req ms latest. is_submit req \<and> list_all quiet ms \<and>
         outcome = (if accepted_answer (env_http env (tr @ RemoveDirAll work_dir # es @ [req])) then Proved else Retry) \<and>
         tr' = tr @ RemoveDirAll work_dir # es @ req # ms @
           (if outcome = Proved then [RemoveDirAll work_dir, Metric latest] else []))))"

lemma servedI_submit:
  assumes "submits env m" and "list_all quiet es"
    and "await m (\<lambda>submitted. if \<not> is_ok submitted then Pair Retry
      else emit (RemoveDirAll work_dir) (emit (Metric latest) (Pair Proved))) (tr @ RemoveDirAll work_dir # es) = (outcome, tr')"
  shows "served env work_dir tr outcome tr'"
proof -
  let ?tr = "tr @ RemoveDirAll work_dir # es"
  obtain r tr1 where m: "m ?tr = (r, tr1)" by (cases "m ?tr")
  with assms(1) obtain req ms where req: "tr1 = ?tr @ req # ms" "is_submit req" "list_all quiet ms"
      "is_ok r = accepted_answer (env_http env (?tr @ [req]))" unfolding submits_def by blast
  have "outcome = (if is_ok r then Proved else Retry) \<and>
      tr' = tr1 @ (if outcome = Proved then [RemoveDirAll work_dir, Metric latest] else [])"
    using assms(3) m by (cases "is_ok r") (auto simp: await_def emit_def)
  then show ?thesis unfolding served_def using req assms(2)
    by (intro exI [of _ es] conjI disjI2 exI [of _ req] exI [of _ ms] exI [of _ latest]) simp_all
qed

lemma serve_batch_trace:
  assumes sup: "batch_supported supported (zb_vk_hash batch)"
    and m: "serve_batch env cx fb sc zp aggregation supported batch tr = (outcome, tr')"
  shows "served env (batch_work_dir zp (zb_batch_number batch)) tr outcome tr'"
proof -
  let ?wd = "batch_work_dir zp (zb_batch_number batch)"
  have body: "served env ?wd tr outcome tr'"
    if keeps: "keeps_dir ?wd (gen :: 'b option prover_io)" and
      run: "await gen (\<lambda>result. case result of
           Err _ \<Rightarrow> Pair Retry
         | Ok None \<Rightarrow> Pair PollCancelled
         | Ok (Some x) \<Rightarrow> submit_batch env cx sc zp (zb_batch_number batch) (f x) (g x)) tr = (outcome, tr')"
    for gen and f g :: "'b \<Rightarrow> bytes"
  proof -
    obtain r tr1 where gen: "gen tr = (r, tr1)" by (cases "gen tr")
    with keeps obtain es where es: "list_all quiet es"
      "tr1 = tr @ RemoveDirAll ?wd # es @ (if r = Ok None then [RemoveDirAll ?wd] else [])"
      unfolding keeps_dir_def by blast
    consider e where "r = Err e" | "r = Ok None" | x where "r = Ok (Some x)" by (cases r) auto
    then show ?thesis
    proof cases
      case (3 x)
      then have "submit_batch env cx sc zp (zb_batch_number batch) (f x) (g x) (tr @ RemoveDirAll ?wd # es) = (outcome, tr')"
        using run gen es by (simp add: await_def)
      from this [unfolded submit_batch_def cleanup_batch_work_dir_def] show ?thesis
        by (rule servedI_submit [OF submits_zisk_proof es(1)])
    qed (use run gen es in \<open>auto simp: await_def served_def\<close>)
  qed
  show ?thesis
  proof (cases aggregation)
    case True
    have "await (generate_vadcop_proof env zp (zb_zisk_data batch) (zb_batch_number batch)) (\<lambda>result. case result of
           Err _ \<Rightarrow> Pair Retry
         | Ok None \<Rightarrow> Pair PollCancelled
         | Ok (Some x) \<Rightarrow> submit_batch env cx sc zp (zb_batch_number batch) x []) tr = (outcome, tr')"
      using m sup True by (simp add: serve_batch_def)
    then show ?thesis by (rule body [OF keeps_dir_generate_vadcop])
  next
    case False
    have "await (generate_proof env fb zp (zb_zisk_data batch) (zb_batch_number batch)) (\<lambda>result. case result of
           Err _ \<Rightarrow> Pair Retry
         | Ok None \<Rightarrow> Pair PollCancelled
         | Ok (Some x) \<Rightarrow> submit_batch env cx sc zp (zb_batch_number batch) (so_proof x) (so_public_values x)) tr = (outcome, tr')"
      using m sup False by (simp add: serve_batch_def)
    then show ?thesis by (rule body [OF keeps_dir_generate_proof])
  qed
qed

lemma serve_range_trace:
  assumes sup: "range_supported supported (za_vk_hash jb)"
    and m: "serve_range env cx fb sc zp supported jb tr = (outcome, tr')"
  shows "outcome = Retry \<and> tr' = tr \<or> served env (range_work_dir zp (za_from_batch jb) (za_to_batch jb)) tr outcome tr'"
proof -
  let ?wd = "range_work_dir zp (za_from_batch jb) (za_to_batch jb)"
  let ?gen = "generate_aggregated_proof env fb zp (map snd (za_streams jb)) (za_from_batch jb) (za_to_batch jb)"
  obtain r tr1 where gen: "?gen tr = (r, tr1)" by (cases "?gen tr")
  from generate_aggregated_trace [OF this]
  consider e where "r = Err e" "tr1 = tr"
    | es where "list_all quiet es" "tr1 = tr @ RemoveDirAll ?wd # es @ (if r = Ok None then [RemoveDirAll ?wd] else [])"
    by blast
  then show ?thesis
  proof cases
    case 1
    then show ?thesis using m sup gen by (simp add: serve_range_def await_def)
  next
    case (2 es)
    consider e where "r = Err e" | "r = Ok None" | x where "r = Ok (Some x)" by (cases r) auto
    then show ?thesis
    proof cases
      case (3 x)
      then have "await (submit_aggregated_proof env cx sc (za_from_batch jb) (za_to_batch jb) (so_proof x) (so_public_values x))
          (\<lambda>submitted. if \<not> is_ok submitted then Pair Retry
            else emit (RemoveDirAll ?wd) (emit (Metric (LatestAggregatedBatch (za_to_batch jb))) (Pair Proved)))
          (tr @ RemoveDirAll ?wd # es) = (outcome, tr')"
        using m [unfolded serve_range_def cleanup_range_work_dir_def await_def [of ?gen]] sup gen 2 by simp
      from servedI_submit [OF submits_aggregated_proof 2(1) this] show ?thesis ..
    qed (use m sup gen 2 in \<open>auto simp: serve_range_def await_def served_def\<close>)
  qed
qed

lemma served_accepted:
  assumes "served env work_dir tr outcome tr'"
  shows "\<exists>es. tr' = tr @ es \<and> accepted env tr es = (if outcome = Proved then 1 else 0)"
  using assms unfolding served_def
  by (elim exE conjE disjE) (auto simp: accepted_append accepted_quiet)

section \<open>Counting accepted proofs\<close>

definition counts :: "environment \<Rightarrow> poll_io \<Rightarrow> bool" where
  "counts env m \<longleftrightarrow> (\<forall>tr outcome tr'. m tr = (outcome, tr') \<longrightarrow>
     (\<exists>es. tr' = tr @ es \<and> accepted env tr es = (if outcome = Proved then 1 else 0)))"

lemma counts_Pair: "outcome \<noteq> Proved \<Longrightarrow> counts env (Pair outcome)"
  by (auto simp: counts_def)

lemma counts_await:
  assumes "appends quiet m" and "\<And>r. counts env (k r)"
  shows "counts env (await m k)"
  unfolding counts_def
proof (intro allI impI)
  fix tr outcome tr'
  assume a: "await m k tr = (outcome, tr')"
  obtain r tr1 where m: "m tr = (r, tr1)" by (cases "m tr")
  from appendsD [OF assms(1) m] obtain es where es: "tr1 = tr @ es" "list_all quiet es" by blast
  have "k r tr1 = (outcome, tr')" using a m by (simp add: await_def)
  then obtain es' where "tr' = tr1 @ es'" "accepted env tr1 es' = (if outcome = Proved then 1 else 0)"
    using assms(2) unfolding counts_def by blast
  then show "\<exists>es. tr' = tr @ es \<and> accepted env tr es = (if outcome = Proved then 1 else 0)"
    using es by (intro exI [of _ "es @ es'"]) (simp add: accepted_append accepted_quiet)
qed

lemma counts_skip: "counts env (emit (SleepFor n) (Pair Retry))"
  by (auto simp: counts_def emit_def)

lemma counts_serve_batch: "counts env (serve_batch env cx fb sc zp aggregation supported batch)"
proof (cases "batch_supported supported (zb_vk_hash batch)")
  case True
  then show ?thesis unfolding counts_def using serve_batch_trace served_accepted by blast
next
  case False
  then have "serve_batch env cx fb sc zp aggregation supported batch = emit (SleepFor 10) (Pair Retry)"
    by (simp add: serve_batch_def)
  then show ?thesis by (simp add: counts_skip)
qed

lemma counts_serve_range: "counts env (serve_range env cx fb sc zp supported jb)"
proof (cases "range_supported supported (za_vk_hash jb)")
  case True
  then show ?thesis unfolding counts_def using serve_range_trace served_accepted by fastforce
next
  case False
  then have "serve_range env cx fb sc zp supported jb = emit (SleepFor 10) (Pair Retry)"
    by (simp add: serve_range_def)
  then show ?thesis by (simp add: counts_skip)
qed

lemma appends_send: "quiet req \<Longrightarrow> appends quiet (send env mthd req)"
  unfolding appends_def using send_trace by (metis list.pred_inject(2) prod.collapse)

lemma appends_pick_next_batch: "appends quiet (pick_next_batch env cx sc)"
  unfolding pick_next_batch_def by (intro appends_rules appends_send) (simp add: post_def)

lemma appends_pick_next_aggregation_job: "appends quiet (pick_next_aggregation_job env cx sc)"
  unfolding pick_next_aggregation_job_def by (intro appends_rules appends_send) (simp add: post_def)

lemma counts_poll_sequencer: "counts env (poll_sequencer env cx fb sc zp aggregation jbs supported)"
proof -
  have batches: "counts env (poll_batches env cx fb sc zp aggregation jbs supported)"
    unfolding poll_batches_def
    by (auto intro!: counts_await appends_pick_next_batch counts_Pair counts_serve_batch split: result.split option.split)
  then show ?thesis unfolding poll_sequencer_def Let_def
    by (auto intro!: counts_await appends_pick_next_aggregation_job counts_serve_range split: result.split option.split)
qed

end
