(* ===== verification/Daemon_Claims.thy ===== *)
theory Daemon_Claims
  imports Daemon_Runs
begin

text \<open>
  The properties of the prover daemon: the filter of verification keys, the idle cycle, the retry of a remote
  prove, the life of a proof's files, and the loop that stops after the requested number of proofs.
\<close>

section \<open>The idle cycle\<close>

text \<open>The idle polls since the last proof; retries do not interrupt them.\<close>

definition idles_since_proof :: "poll list \<Rightarrow> nat" where
  "idles_since_proof outcomes = count_list (takeWhile (\<lambda>p. p \<noteq> Proved) (rev outcomes)) Idle"

definition idle_fold :: "nat \<Rightarrow> poll list \<Rightarrow> bool \<times> idle_cycle" where
  "idle_fold n outcomes = foldl (\<lambda>(sleep, ic) outcome. idle_record outcome ic) (False, idle_cycle_new n) outcomes"

lemma idles_since_proof_snoc:
  "idles_since_proof (outcomes @ [p]) =
     (if p = Proved then 0 else if p = Idle then Suc (idles_since_proof outcomes) else idles_since_proof outcomes)"
  by (simp add: idles_since_proof_def)

lemma idle_fold_state:
  "ic_sequencers (snd (idle_fold n outcomes)) = max n 1 \<and>
   ic_idle_streak (snd (idle_fold n outcomes)) = idles_since_proof outcomes mod max n 1 \<and>
   (fst (idle_fold n outcomes) \<longleftrightarrow> outcomes \<noteq> [] \<and> last outcomes = Idle \<and> max n 1 dvd idles_since_proof outcomes)"
proof (induction outcomes rule: rev_induct)
  case Nil
  then show ?case by (simp add: idle_fold_def idle_cycle_new_def idles_since_proof_def)
next
  case (snoc p outcomes)
  obtain sleep ic where ic: "idle_fold n outcomes = (sleep, ic)" by fastforce
  have step: "idle_fold n (outcomes @ [q]) = idle_record q ic" for q using ic by (simp add: idle_fold_def)
  define k where "k = idles_since_proof outcomes"
  define N where "N = max n 1"
  have pos: "0 < N" by (simp add: N_def)
  have st: "ic_sequencers ic = N" "ic_idle_streak ic = k mod N" using snoc ic by (simp_all add: k_def N_def)
  have lt: "k mod N < N" using pos by (rule mod_less_divisor)
  have suc: "Suc k mod N = (if Suc (k mod N) = N then 0 else Suc (k mod N))" by (rule mod_Suc)
  have full: "N \<le> Suc (k mod N) \<longleftrightarrow> Suc (k mod N) = N" using lt by linarith
  show ?case unfolding N_def [symmetric]
    by (cases p) (simp_all add: step idle_record_def st idles_since_proof_snoc k_def [symmetric] dvd_eq_mod_eq_0 suc full)
qed

section \<open>The filter\<close>

lemma normalize_entries_Ok_iff:
  "normalize_entries raw = Ok hashes \<longleftrightarrow>
     hashes = map normalize_vk_hash raw \<and> (\<forall>h \<in> set hashes. well_formed_hash h)"
  unfolding normalize_entries_def Let_def by (induction raw arbitrary: hashes) auto

text \<open>The entries a daemon is started with: the flags, then the file if it can be read.\<close>

definition filter_entries :: "environment \<Rightarrow> daemon_args \<Rightarrow> effect list \<Rightarrow> string list" where
  "filter_entries env args tr =
     da_supported_vk_hashes args @
     (case da_vk_hashes_file args of
        None \<Rightarrow> []
      | Some path \<Rightarrow> (case env_read env (tr @ [ReadFile path]) of None \<Rightarrow> [] | Some bs \<Rightarrow> file_entries (text_of bs)))"

lemma load_supported_value:
  "fst (load_supported_vk_hashes env args tr) =
     rbind (normalize_entries (filter_entries env args tr)) (\<lambda>hashes. Ok (remdups_adj (sort hashes)))"
  by (auto simp: load_supported_vk_hashes_def filter_entries_def Let_def act_def io_of_def split: option.splits)

lemma distinct_remdups_adj: "sorted xs \<Longrightarrow> distinct (remdups_adj xs)" for xs :: "'a::linorder list"
  by (induction xs rule: remdups_adj.induct) auto

lemma load_supported_Ok:
  assumes "fst (load_supported_vk_hashes env args tr) = Ok hashes"
  shows "sorted hashes" and "distinct hashes"
    and "set hashes = normalize_vk_hash ` set (filter_entries env args tr)"
    and "\<forall>h \<in> set hashes. well_formed_hash h"
proof -
  have h: "hashes = remdups_adj (sort (map normalize_vk_hash (filter_entries env args tr)))"
    and wf: "\<forall>h \<in> set (map normalize_vk_hash (filter_entries env args tr)). well_formed_hash h"
    using assms unfolding load_supported_value by (auto simp: normalize_entries_Ok_iff)
  show "sorted hashes" by (simp add: h)
  show "distinct hashes" by (simp add: h distinct_remdups_adj)
  show s: "set hashes = normalize_vk_hash ` set (filter_entries env args tr)" by (simp add: h)
  show "\<forall>h \<in> set hashes. well_formed_hash h" using wf by (simp add: s)
qed

section \<open>The loop\<close>

lemma rest_or_continue_trace:
  assumes "rest_or_continue env interval outcome st tr = (res, tr')" and "outcome \<noteq> PollCancelled"
  shows "\<exists>es. tr' = tr @ es \<and> list_all quiet es \<and>
    (res = Stop CancelledAsleep \<and> outcome = Idle \<or>
     (\<exists>st'. res = Continue st' \<and> ls_proofs_generated st' = ls_proofs_generated st))"
proof -
  obtain sleep ic where ic: "idle_record outcome (ls_idle_cycle st) = (sleep, ic)" by fastforce
  have s: "sleep \<longrightarrow> outcome = Idle" using ic by (auto simp: idle_record_def Let_def split: poll.splits if_splits)
  show ?thesis
  proof (cases sleep)
    case True
    then have "tr' = tr @ [SleepOrCancel interval]" "res = Stop CancelledAsleep \<or>
        (\<exists>st'. res = Continue st' \<and> ls_proofs_generated st' = ls_proofs_generated st)"
      using assms ic by (auto simp: rest_or_continue_def act_def split: if_splits)
    then show ?thesis using s True by auto
  next
    case False
    then have "tr' = tr" "\<exists>st'. res = Continue st' \<and> ls_proofs_generated st' = ls_proofs_generated st"
      using assms ic by (auto simp: rest_or_continue_def)
    then show ?thesis by auto
  qed
qed

text \<open>
  One turn of the loop: it stops without a new proof, or with the proof that reaches the limit, or goes on
  with at most one more proof, the limit not reached.
\<close>

lemma poll_step_trace:
  assumes counts: "\<And>i. counts env (poll_nth i)"
    and step: "poll_step env poll_nth interval n st tr = (res, tr')"
  shows "\<exists>es. tr' = tr @ es \<and>
    (accepted env tr es = 0 \<and> (\<exists>e \<in> {Shutdown, CancelledMidProof, CancelledAsleep}. res = Stop e) \<or>
     accepted env tr es = 1 \<and> res = Stop IterationLimit \<and> 0 < n \<and> n \<le> ls_proofs_generated st + 1 \<or>
     accepted env tr es = 0 \<and> (\<exists>st'. res = Continue st' \<and> ls_proofs_generated st' = ls_proofs_generated st) \<or>
     accepted env tr es = 1 \<and> \<not> (0 < n \<and> n \<le> ls_proofs_generated st + 1) \<and>
       (\<exists>st'. res = Continue st' \<and> ls_proofs_generated st' = ls_proofs_generated st + 1))"
proof (cases "env_cancelled env (tr @ [CheckCancelled])")
  case True
  then have "res = Stop Shutdown \<and> tr' = tr @ [CheckCancelled]" using step by (auto simp: poll_step_def act_def)
  then show ?thesis by (intro exI [of _ "[CheckCancelled]"]) simp
next
  case False
  obtain outcome tr1 where p: "poll_nth (ls_next st) (tr @ [CheckCancelled]) = (outcome, tr1)" by fastforce
  with counts obtain es where es: "tr1 = (tr @ [CheckCancelled]) @ es"
    "accepted env (tr @ [CheckCancelled]) es = (if outcome = Proved then 1 else 0)" unfolding counts_def by blast
  have acc: "accepted env tr (CheckCancelled # es @ qs) = (if outcome = Proved then 1 else 0)" if "list_all quiet qs" for qs
    using es(2) that by (simp add: accepted_append accepted_quiet)
  show ?thesis
  proof (cases "outcome = PollCancelled")
    case True
    then have "res = Stop CancelledMidProof \<and> tr' = tr1" using step False p by (auto simp: poll_step_def act_def await_def)
    then show ?thesis using es acc [of "[]"] True by (intro exI [of _ "CheckCancelled # es"]) auto
  next
    case ongoing: False
    let ?st = "if outcome = Proved then st\<lparr>ls_proofs_generated := ls_proofs_generated st + 1\<rparr> else st"
    show ?thesis
    proof (cases "outcome = Proved \<and> 0 < n \<and> n \<le> ls_proofs_generated st + 1")
      case True
      then have "res = Stop IterationLimit \<and> tr' = tr1"
        using step False p by (auto simp: poll_step_def act_def await_def Let_def)
      then show ?thesis using es acc [of "[]"] True by (intro exI [of _ "CheckCancelled # es"]) auto
    next
      case no_limit: False
      have "rest_or_continue env interval outcome ?st tr1 = (res, tr')"
        using step False p ongoing no_limit
        by (cases outcome) (auto simp: poll_step_def act_def await_def Let_def split: if_splits)
      from rest_or_continue_trace [OF this ongoing] obtain qs where qs: "tr' = tr1 @ qs" "list_all quiet qs"
        "res = Stop CancelledAsleep \<and> outcome = Idle \<or>
         (\<exists>st'. res = Continue st' \<and> ls_proofs_generated st' = ls_proofs_generated ?st)" by blast
      show ?thesis using qs es acc [OF qs(2)] no_limit
        by (intro exI [of _ "CheckCancelled # es @ qs"]) (cases "outcome = Proved"; auto)
    qed
  qed
qed

text \<open>
  An environment that lets the daemon work: between two proofs the polls run out, so a measure of the trace
  falls on every turn that neither proves nor stops.
\<close>

definition progresses :: "environment \<Rightarrow> (nat \<Rightarrow> poll_io) \<Rightarrow> nat \<Rightarrow> u64 \<Rightarrow> (effect list \<Rightarrow> nat) \<Rightarrow> bool" where
  "progresses env poll_nth interval n \<mu> \<longleftrightarrow> (\<forall>st tr st' tr'.
     poll_step env poll_nth interval n st tr = (Continue st', tr') \<and>
     ls_proofs_generated st' = ls_proofs_generated st \<longrightarrow> \<mu> tr' < \<mu> tr)"

lemma poll_loop_ends:
  assumes counts: "\<And>i. counts env (poll_nth i)" and fair: "progresses env poll_nth interval n \<mu>"
    and "ls_proofs_generated st < n"
  shows "\<exists>e es. poll_loop env poll_nth interval n st tr = Some (e, tr @ es) \<and>
    (if e = IterationLimit then accepted env tr es = unat n - unat (ls_proofs_generated st)
     else e \<in> {Shutdown, CancelledMidProof, CancelledAsleep} \<and> accepted env tr es < unat n - unat (ls_proofs_generated st))"
  using assms(3)
proof (induction "(unat n - unat (ls_proofs_generated st), \<mu> tr)" arbitrary: st tr rule: wf_induct_rule [OF wf_lex_prod [OF wf_less wf_less]])
  case (1 st tr)
  note lt = 1(2)
  obtain res tr1 where step: "poll_step env poll_nth interval n st tr = (res, tr1)" by fastforce
  have no_wrap: "unat (ls_proofs_generated st + 1) = Suc (unat (ls_proofs_generated st))"
    using unsigned_less [of n, where 'a = nat] lt by (simp add: unat_word_ariths word_less_nat_alt)
  have room: "unat (ls_proofs_generated st) < unat n" using lt by (simp add: word_less_nat_alt)
  from poll_step_trace [OF counts step] obtain es where es: "tr1 = tr @ es" and
    c: "accepted env tr es = 0 \<and> (\<exists>e \<in> {Shutdown, CancelledMidProof, CancelledAsleep}. res = Stop e) \<or>
     accepted env tr es = 1 \<and> res = Stop IterationLimit \<and> 0 < n \<and> n \<le> ls_proofs_generated st + 1 \<or>
     accepted env tr es = 0 \<and> (\<exists>st'. res = Continue st' \<and> ls_proofs_generated st' = ls_proofs_generated st) \<or>
     accepted env tr es = 1 \<and> \<not> (0 < n \<and> n \<le> ls_proofs_generated st + 1) \<and>
       (\<exists>st'. res = Continue st' \<and> ls_proofs_generated st' = ls_proofs_generated st + 1)" by blast
  have next_turn: ?case
    if res: "res = Continue st'" and k: "unat (ls_proofs_generated st') = unat (ls_proofs_generated st) + accepted env tr es"
      and lt': "ls_proofs_generated st' < n" and less: "accepted env tr es = 0 \<Longrightarrow> \<mu> tr1 < \<mu> tr" for st'
  proof -
    have "((unat n - unat (ls_proofs_generated st'), \<mu> tr1), (unat n - unat (ls_proofs_generated st), \<mu> tr))
        \<in> {(x, y). x < y} <*lex*> {(x, y). x < y}"
      using k less room by (cases "accepted env tr es") auto
    from 1(1) [OF this lt'] obtain e es' where IH: "poll_loop env poll_nth interval n st' tr1 = Some (e, tr1 @ es')"
      "if e = IterationLimit then accepted env tr1 es' = unat n - unat (ls_proofs_generated st')
       else e \<in> {Shutdown, CancelledMidProof, CancelledAsleep} \<and> accepted env tr1 es' < unat n - unat (ls_proofs_generated st')"
      by blast
    have "poll_loop env poll_nth interval n st tr = Some (e, tr @ es @ es')"
      using IH(1) by (subst poll_loop.simps) (simp add: step res es)
    moreover have "unat (ls_proofs_generated st') < unat n" using lt' by (simp add: word_less_nat_alt)
    ultimately show ?thesis using IH(2) k
      by (intro exI [of _ e] exI [of _ "es @ es'"]) (auto simp: accepted_append es split: if_splits)
  qed
  have stop: ?case if "res = Stop e"
    "if e = IterationLimit then accepted env tr es = unat n - unat (ls_proofs_generated st)
     else e \<in> {Shutdown, CancelledMidProof, CancelledAsleep} \<and> accepted env tr es < unat n - unat (ls_proofs_generated st)" for e
    using that by (subst poll_loop.simps) (auto simp: step es)
  from c show ?case
  proof (elim disjE conjE exE bexE)
    fix e assume "accepted env tr es = 0" "res = Stop e" "e \<in> {Shutdown, CancelledMidProof, CancelledAsleep}"
    then show ?case using room by (intro stop) auto
  next
    assume "accepted env tr es = 1" "res = Stop IterationLimit" "n \<le> ls_proofs_generated st + 1"
    then show ?case using room no_wrap by (intro stop) (auto simp: word_le_nat_alt)
  next
    fix st' assume *: "accepted env tr es = 0" "res = Continue st'" "ls_proofs_generated st' = ls_proofs_generated st"
    then have "\<mu> tr1 < \<mu> tr" using fair step unfolding progresses_def by blast
    then show ?case using * lt by (intro next_turn [of st']) auto
  next
    fix st' assume *: "accepted env tr es = 1" "\<not> (0 < n \<and> n \<le> ls_proofs_generated st + 1)" "res = Continue st'"
      "ls_proofs_generated st' = ls_proofs_generated st + 1"
    have "0 < n" using lt by (simp add: word_less_nat_alt)
    then show ?case using * no_wrap by (intro next_turn [of st']) auto
  qed
qed

section \<open>What a submission carries\<close>

lemma appends_await_result:
  assumes "appends P m" and "\<And>tr r tr'. m tr = (r, tr') \<Longrightarrow> appends P (k r)"
  shows "appends P (await m k)"
  unfolding appends_def
proof
  fix tr
  obtain r tr' where m: "m tr = (r, tr')" by (cases "m tr")
  obtain es where es: "tr' = tr @ es" "list_all P es" using appendsD [OF assms(1) m] by blast
  obtain es' where "snd (k r tr') = tr' @ es'" "list_all P es'" using assms(2) [OF m] unfolding appends_def by blast
  then show "\<exists>es. snd (await m k tr) = tr @ es \<and> list_all P es" using es by (auto simp: await_def m)
qed

lemma finished_run_result:
  assumes "in_work_dir env jb work_dir run tr = (Ok (Some x), tr')"
  shows "\<exists>tr1 tr2. run tr1 = (Ok (Some x), tr2)"
proof -
  let ?tr = "tr @ [RemoveDirAll work_dir, CreateDirAll work_dir]"
  have ok: "env_fs env ?tr"
    using assms by (auto simp: in_work_dir_def emit_def fs_act_def act_def io_err_def split: if_splits)
  obtain r1 tr1 where run: "run ?tr = (r1, tr1)" by (cases "run ?tr")
  have "finish_run jb work_dir r1 tr1 = (Ok (Some x), tr')"
    using assms ok run by (simp add: in_work_dir_def emit_def fs_act_def act_def await_def)
  then show ?thesis using finish_run_trace run by blast
qed

lemma fs_act_result: "fs_act env failure e k tr = (Ok x, tr') \<Longrightarrow> \<exists>tr1. k tr1 = (Ok x, tr')"
  by (auto simp: fs_act_def act_def io_err_def split: if_splits)

lemma prove_and_parse_result:
  assumes "prove_and_parse env zp jb elf work_dir snark parse tr = (Ok (Some x), tr')"
  shows "\<exists>contents. parse contents = Ok x"
proof -
  let ?pr = "run_prove env zp jb elf (path_join work_dir ''input.bin'') (path_join work_dir ''proof.bin'') snark"
  obtain r tr1 where run: "?pr tr = (r, tr1)" by (cases "?pr tr")
  have "r = Ok True"
    using assms run by (cases r) (auto simp: prove_and_parse_def await_ok_def await_def io_ok_def io_err_def Let_def split: if_splits)
  then show ?thesis
    using assms run by (auto simp: prove_and_parse_def await_ok_def await_def act_def io_of_def Let_def split: result.splits)
qed

lemma generate_proof_result:
  "generate_proof env fb zp data n tr = (Ok (Some x), tr') \<Longrightarrow> \<exists>contents. parse_proof_file fb contents = Ok x"
  unfolding generate_proof_def Let_def write_zisk_input_def
  by (drule finished_run_result) (blast dest: fs_act_result prove_and_parse_result)

lemma generate_vadcop_result:
  "generate_vadcop_proof env zp data n tr = (Ok (Some x), tr') \<Longrightarrow> \<exists>address. is_ok (read_frame (address, x))"
  unfolding generate_vadcop_proof_def Let_def write_zisk_input_def vadcop_stream_of_file_def
  by (drule finished_run_result) (fastforce dest!: fs_act_result prove_and_parse_result simp: vadcop_stream_Ok_iff)

definition checked_payload :: "'u client_crates \<Rightarrow> (bytes \<Rightarrow> bytes) \<Rightarrow> bool \<Rightarrow> u64 \<Rightarrow> zisk_submit_payload \<Rightarrow> bool" where
  "checked_payload cx sha256 aggregation n b \<longleftrightarrow> (\<exists>pf pv.
     b = \<lparr>sb_batch_number = n, sb_proof = cx_base64_encode cx pf, sb_public_values = cx_base64_encode cx pv\<rparr> \<and>
     (if aggregation then pv = [] \<and> (\<exists>address. is_ok (read_frame (address, pf)))
      else (\<exists>e. verify_snark_bound sha256 pf pv e = Ok ())))"

definition checked_effect :: "'u client_crates \<Rightarrow> (bytes \<Rightarrow> bytes) \<Rightarrow> bool \<Rightarrow> u64 \<Rightarrow> effect \<Rightarrow> bool" where
  "checked_effect cx sha256 aggregation n e \<longleftrightarrow>
     (\<forall>url hs b. e = HttpPost url hs (SubmitBody b) \<longrightarrow> checked_payload cx sha256 aggregation n b)"

lemma checked_simps [simp]:
  "checked_effect cx sha agg n (RemoveDirAll d)" "checked_effect cx sha agg n (Metric m)" "checked_effect cx sha agg n (SleepFor k)"
  by (simp_all add: checked_effect_def)

lemma quiet_checked: "quiet e \<Longrightarrow> checked_effect cx sha agg n e"
  by (auto simp: checked_effect_def)

lemma keeps_dir_checked: "keeps_dir wd m \<Longrightarrow> appends (checked_effect cx sha agg n) m"
  unfolding appends_def keeps_dir_def
proof (intro allI)
  fix tr
  assume k: "\<forall>tr r tr'. m tr = (r, tr') \<longrightarrow>
     (\<exists>es. tr' = tr @ RemoveDirAll wd # es @ (if r = Ok None then [RemoveDirAll wd] else []) \<and> list_all quiet es)"
  obtain r tr' where m: "m tr = (r, tr')" by (cases "m tr")
  with k obtain es where "tr' = tr @ RemoveDirAll wd # es @ (if r = Ok None then [RemoveDirAll wd] else [])" "list_all quiet es"
    by blast
  then show "\<exists>es. snd (m tr) = tr @ es \<and> list_all (checked_effect cx sha agg n) es"
    using m by (auto simp: list_all_iff quiet_checked)
qed

lemma submit_batch_checked:
  assumes "checked_payload cx sha agg n \<lparr>sb_batch_number = n, sb_proof = cx_base64_encode cx pf, sb_public_values = cx_base64_encode cx pv\<rparr>"
  shows "appends (checked_effect cx sha agg n) (submit_batch env cx sc zp n pf pv)"
proof -
  have "checked_effect cx sha agg n (post cx sc url (SubmitBody
      \<lparr>sb_batch_number = n, sb_proof = cx_base64_encode cx pf, sb_public_values = cx_base64_encode cx pv\<rparr>))" for url
    using assms by (simp add: checked_effect_def post_def)
  moreover have "appends (checked_effect cx sha agg n) (send env mthd req)" if "checked_effect cx sha agg n req" for mthd req
    unfolding appends_def
  proof
    fix tr
    obtain r tr' where sent: "send env mthd req tr = (r, tr')" by (cases "send env mthd req tr")
    from send_trace [OF sent] that show "\<exists>es. snd (send env mthd req tr) = tr @ es \<and> list_all (checked_effect cx sha agg n) es"
      by (auto simp: sent list_all_iff quiet_checked)
  qed
  ultimately show ?thesis
    unfolding submit_batch_def submit_zisk_proof_def cleanup_batch_work_dir_def Let_def
    by (auto intro!: appends_rules split: prod.split)
qed

lemma vadcop_payload_checked:
  assumes "generate_vadcop_proof env zp data n tr = (Ok (Some x), tr')"
  shows "checked_payload cx sha256 True n
    \<lparr>sb_batch_number = n, sb_proof = cx_base64_encode cx x, sb_public_values = cx_base64_encode cx []\<rparr>"
  using generate_vadcop_result [OF assms] by (auto simp: checked_payload_def)

lemma snark_payload_checked:
  assumes "generate_proof env fb zp data n tr = (Ok (Some x), tr')"
  shows "checked_payload cx sha256 False n
    \<lparr>sb_batch_number = n, sb_proof = cx_base64_encode cx (so_proof x), sb_public_values = cx_base64_encode cx (so_public_values x)\<rparr>"
proof -
  obtain contents where "parse_proof_file fb contents = Ok x" using generate_proof_result [OF assms] by blast
  from parsed_file_verified [OF this, of sha256] show ?thesis unfolding checked_payload_def by fastforce
qed

lemma serve_batch_checked:
  "appends (checked_effect cx sha256 aggregation (zb_batch_number batch)) (serve_batch env cx fb sc zp aggregation supported batch)"
proof (cases aggregation)
  case True
  then show ?thesis unfolding serve_batch_def
    by (auto intro!: appends_rules appends_await_result keeps_dir_checked [OF keeps_dir_generate_vadcop] submit_batch_checked
        intro: vadcop_payload_checked split: result.split option.split)
next
  case False
  then show ?thesis unfolding serve_batch_def
    by (auto intro!: appends_rules appends_await_result keeps_dir_checked [OF keeps_dir_generate_proof] submit_batch_checked
        intro: snark_payload_checked split: result.split option.split)
qed

section \<open>A sample run\<close>

definition sample_environment :: environment where
  "sample_environment =
     \<lparr>env_spawn = \<lambda>_. True, env_child = \<lambda>_. ChildExited True, env_grace = \<lambda>_. True, env_fs = \<lambda>_. True,
      env_read = \<lambda>_. Some (SNARK_FILE_MAGIC @ [2]), env_exists = \<lambda>_. True,
      env_http = \<lambda>_. HttpResponse 200 (Some []), env_cancelled = \<lambda>_. False, env_alloc = \<lambda>_. 0\<rparr>"

definition sample_client_crates :: "unit client_crates" where
  "sample_client_crates =
     \<lparr>cx_url_parse = \<lambda>_. Some (), cx_username = \<lambda>_. [], cx_password = \<lambda>_. None, cx_set_username = \<lambda>_ _. (),
      cx_set_password = \<lambda>_ _. (), cx_join = \<lambda>_ _. (), cx_append_pair = \<lambda>_ _ _. (), cx_as_str = \<lambda>_. ''http://s/'',
      cx_header_value = Some, cx_client_builds = True, cx_base64_encode = map (\<lambda>b. char_of (unat b)), cx_base64_decode = \<lambda>_. Some [],
      cx_json_pick = \<lambda>_. Some \<lparr>pr_batch_number = 7, pr_vk_hash = ''0xAB'', pr_zisk_data = []\<rparr>,
      cx_json_aggregation_pick = \<lambda>_. None\<rparr>"

definition sample_client :: "unit sequencer_client" where
  "sample_client = \<lparr>sc_base_url = (), sc_prover_id = ''p'', sc_supported_vk_hashes = [], sc_default_headers = []\<rparr>"

definition sample_prover :: zisk_prover where
  "sample_prover =
     \<lparr>zp_binary = ''cargo-zisk'', zp_elf_path = ''guest'', zp_aggregator_elf_path = None,
      zp_backend = Coordinator ''http://c'', zp_work_dir_base = ''/tmp''\<rparr>"

definition sample_batch :: zisk_batch_data where
  "sample_batch = \<lparr>zb_batch_number = 7, zb_vk_hash = ''0xAB'', zb_zisk_data = []\<rparr>"

lemma sample_file_parses:
  "\<exists>out. parse_proof_file sample_file_bincode (Some (SNARK_FILE_MAGIC @ [2])) = Ok out"
proof -
  have "wellformed_file sample_pilfflonk_file" by (simp add: wellformed_file_def sample_pilfflonk_file_def)
  then obtain out where "snark_output sample_pilfflonk_file = Ok out" by (auto simp: snark_output_Ok_iff)
  then have "parse_proof_file sample_file_bincode (Some (SNARK_FILE_MAGIC @ [2])) = Ok out"
    by (simp add: parse_proof_file_Ok_iff sample_file_bincode_def PROOF_BODY_PILFFLONK_def)
  then show ?thesis ..
qed

lemma sample_send:
  "send sample_environment mthd req tr = (Ok (200, Some []), tr @ [req, Metric (HttpLatency mthd)])"
  by (simp add: send_def act_def emit_def io_ok_def sample_environment_def request_failed_def is_success_def)

lemma sample_serves:
  "fst (serve_batch sample_environment sample_client_crates sample_file_bincode sample_client sample_prover False [] sample_batch tr) = Proved"
proof -
  obtain out where out: "parse_proof_file sample_file_bincode (Some (SNARK_FILE_MAGIC @ [2])) = Ok out"
    using sample_file_parses by blast
  have run: "run_cancellable sample_environment b args tr = (Ok True, tr @ [SpawnChild b args, AwaitChild])" for b args tr
    by (simp add: run_cancellable_def act_def sample_environment_def io_ok_def)
  have prove: "\<exists>tr'. run_prove sample_environment sample_prover jb elf inp pf snark tr = (Ok True, tr')" for jb elf inp pf snark tr
    by (simp add: run_prove_def finish_prove_def Let_def await_def run emit_def act_def)
       (simp add: sample_environment_def io_ok_def)
  have parse: "\<exists>tr'. prove_and_parse sample_environment sample_prover jb elf wd snark (parse_proof_file sample_file_bincode) tr =
      (Ok (Some out), tr')" for jb elf wd snark tr
    using prove [of jb elf "path_join wd ''input.bin''" "path_join wd ''proof.bin''" snark tr]
    by (auto simp: prove_and_parse_def Let_def await_ok_def await_def act_def io_of_def)
       (simp_all add: sample_environment_def out)
  have gen: "\<exists>tr'. generate_proof sample_environment sample_file_bincode sample_prover data n tr = (Ok (Some out), tr')" for data n tr
  proof -
    let ?wd = "batch_work_dir sample_prover n"
    obtain tr1 where "prove_and_parse sample_environment sample_prover BatchJob (zp_elf_path sample_prover) ?wd True
        (parse_proof_file sample_file_bincode) (tr @ [RemoveDirAll ?wd, CreateDirAll ?wd, WriteFile (path_join ?wd ''input.bin'') (zisk_input data)]) =
        (Ok (Some out), tr1)" using parse by blast
    moreover have "env_fs sample_environment t" for t by (simp add: sample_environment_def)
    ultimately show ?thesis
      by (simp add: generate_proof_def in_work_dir_def write_zisk_input_def fs_act_def act_def emit_def await_def Let_def
          finish_run_def io_of_def)
  qed
  obtain tr1 where "generate_proof sample_environment sample_file_bincode sample_prover (zb_zisk_data sample_batch)
      (zb_batch_number sample_batch) tr = (Ok (Some out), tr1)" using gen by blast
  then show ?thesis
    by (simp add: serve_batch_def batch_supported_def await_def submit_batch_def submit_zisk_proof_def Let_def await_ok_def
        sample_send is_success_def io_ok_def cleanup_batch_work_dir_def emit_def)
qed

lemma sample_poll:
  "fst (poll_sequencer sample_environment sample_client_crates sample_file_bincode sample_client sample_prover False All [] tr) = Proved"
proof -
  let ?pick = "pick_next_batch sample_environment sample_client_crates sample_client"
  have "fst (?pick tr) = Ok (Some sample_batch)"
    by (simp add: pick_next_batch_def await_ok_def await_def sample_send io_of_def read_pick_def NO_CONTENT_def
        SERVICE_UNAVAILABLE_def is_success_def batch_of_pick_def sample_client_crates_def sample_batch_def)
  then obtain tr1 where "?pick tr = (Ok (Some sample_batch), tr1)" by (cases "?pick tr") simp
  then show ?thesis
    by (simp add: poll_sequencer_def poll_batches_def jobs_batches_def await_def sample_serves Let_def)
qed

section \<open>Claims\<close>

text \<open>
  C29. With an iteration limit the daemon stops. Whatever the sequencers, the prover and the machine do, if the
  turns of the loop that neither prove nor stop run out between two proofs, the loop ends, and it ends at the
  limit exactly when the sequencers accepted that many proofs, otherwise cancelled with fewer.
\<close>

theorem daemon_stops_at_limit:
  assumes "clients \<noteq> []" and "0 < da_iterations args"
    and "progresses env
      (\<lambda>i. poll_sequencer env cx fb (clients ! (i mod length clients)) zp (da_aggregation args) (da_jobs args) supported)
      (da_poll_interval_secs args) (da_iterations args) \<mu>"
  shows "\<exists>e es. run_clients env cx fb args supported zp clients tr = Some (e, tr @ es) \<and>
    (if e = IterationLimit then accepted env tr es = unat (da_iterations args)
     else e \<in> {Shutdown, CancelledMidProof, CancelledAsleep} \<and> accepted env tr es < unat (da_iterations args))"
proof -
  let ?st = "\<lparr>ls_next = 0, ls_idle_cycle = idle_cycle_new (length clients), ls_proofs_generated = 0\<rparr>"
  have zero: "ls_proofs_generated ?st = 0" by simp
  have "ls_proofs_generated ?st < da_iterations args" using assms(2) by simp
  from poll_loop_ends [OF counts_poll_sequencer assms(3) this, of tr] show ?thesis
    using assms(1) by (simp only: zero run_clients_def unsigned_0 diff_zero if_False simp_thms)
qed

definition sample_args :: daemon_args where
  "sample_args =
     \<lparr>da_sequencer_urls = [''http://s''], da_zisk_binary = ''cargo-zisk'', da_elf_path = ''guest'', da_proving_key = None,
      da_proving_key_snark = None, da_coordinator_url = Some ''http://c'', da_aggregation = False, da_aggregator_elf = None,
      da_jobs = All, da_no_gpu = False, da_asm_emulator = False, da_work_dir = ''/tmp'', da_poll_interval_secs = 5,
      da_iterations = 2, da_supported_vk_hashes = [''0X'' @ replicate 64 CHR ''A'', replicate 64 CHR ''a''],
      da_vk_hashes_file = None, da_metrics_address = ''0.0.0.0:3313'', da_prover_id = Some ''p''\<rparr>"

theorem daemon_stops_at_limit_witness:
  "\<exists>e es. run_clients sample_environment sample_client_crates sample_file_bincode sample_args [] sample_prover [sample_client] [] = Some (e, es)"
proof -
  let ?poll = "\<lambda>i. poll_sequencer sample_environment sample_client_crates sample_file_bincode
    ([sample_client] ! (i mod length [sample_client])) sample_prover (da_aggregation sample_args) (da_jobs sample_args) []"
  have proved: "fst (?poll i tr) = Proved" for i tr using sample_poll by (simp add: sample_args_def)
  have "ls_proofs_generated st' = ls_proofs_generated st + 1"
    if step: "poll_step sample_environment ?poll k n st tr = (Continue st', tr')" for k n st tr st' tr'
  proof -
    obtain tr1 where "?poll (ls_next st) (tr @ [CheckCancelled]) = (Proved, tr1)" using proved by (metis prod.collapse)
    then show ?thesis using step
      by (auto simp: poll_step_def act_def await_def rest_or_continue_def idle_record_def Let_def split: if_splits)
  qed
  then have "progresses sample_environment ?poll (da_poll_interval_secs sample_args) (da_iterations sample_args) (\<lambda>_. 0)"
    unfolding progresses_def by fastforce
  moreover have "0 < da_iterations sample_args" by (simp add: sample_args_def)
  ultimately show ?thesis using daemon_stops_at_limit [of "[sample_client]" sample_args] by fastforce
qed

text \<open>
  C31. The files of a proof outlive everything but success and shutdown: a picked batch with a supported key
  starts on an empty directory, and that directory is removed again only when the run was cancelled or when
  the sequencer accepted the submission; a batch with an unsupported key starts nothing.
\<close>

theorem proof_files_kept_until_accepted:
  assumes "serve_batch env cx fb sc zp aggregation supported batch tr = (outcome, tr')"
  shows "if batch_supported supported (zb_vk_hash batch)
    then served env (batch_work_dir zp (zb_batch_number batch)) tr outcome tr'
    else outcome = Retry \<and> tr' = tr @ [SleepFor 10]"
  using serve_batch_trace [OF _ assms] assms by (auto simp: serve_batch_def emit_def)

theorem proof_files_kept_until_accepted_witness:
  "\<exists>tr'. served sample_environment (batch_work_dir sample_prover 7) [] Proved tr'"
proof -
  obtain tr' where "serve_batch sample_environment sample_client_crates sample_file_bincode sample_client sample_prover
      False [] sample_batch [] = (Proved, tr')" using sample_serves by (metis prod.collapse)
  from proof_files_kept_until_accepted [OF this] show ?thesis
    by (auto simp: batch_supported_def sample_batch_def)
qed





text \<open>
  The filter of verification keys a daemon starts with is sorted and free of duplicates, every entry is 64
  hexadecimal digits, and a batch passes it exactly when no entry was given or one of the given entries,
  from the flags or the file, names the same hash up to the case of letters and the 0x prefix.
\<close>

theorem vk_filter_exact:
  assumes "fst (load_supported_vk_hashes env args tr) = Ok hashes"
  shows "sorted hashes \<and> distinct hashes \<and> list_all well_formed_hash hashes \<and>
    (batch_supported hashes vk \<longleftrightarrow> filter_entries env args tr = [] \<or>
       list_ex (\<lambda>entry. normalize_vk_hash entry = normalize_vk_hash vk) (filter_entries env args tr))"
proof -
  have "hashes = [] \<longleftrightarrow> filter_entries env args tr = []"
    using load_supported_Ok(3) [OF assms] by (metis image_is_empty set_empty)
  then show ?thesis using load_supported_Ok [OF assms]
    by (auto simp: batch_supported_def list_all_iff list_ex_iff) (metis image_eqI)
qed

theorem vk_filter_exact_witness:
  "batch_supported [replicate 64 CHR ''a''] (''0x'' @ replicate 32 CHR ''a'' @ replicate 32 CHR ''A'')"
proof -
  have low: "to_lower CHR ''A'' = CHR ''a''" "to_lower CHR ''a'' = CHR ''a''" by (simp_all add: to_lower_def Let_def char_of_eq_iff)
  have hex: "is_hex_digit CHR ''a''" by (simp add: is_hex_digit_def Let_def)
  have norm: "normalize_vk_hash (CHR ''0'' # CHR ''X'' # replicate 64 CHR ''A'') = replicate 64 CHR ''a''"
    "normalize_vk_hash (replicate 64 CHR ''a'') = replicate 64 CHR ''a''"
    "normalize_vk_hash (CHR ''0'' # CHR ''x'' # replicate 32 CHR ''a'' @ replicate 32 CHR ''A'') = replicate 64 CHR ''a''"
    by (simp_all add: normalize_vk_hash_def strip_hex_prefix_def low numeral_eq_Suc)
  have entries: "filter_entries sample_environment sample_args [] = [''0X'' @ replicate 64 CHR ''A'', replicate 64 CHR ''a'']"
    by (simp add: filter_entries_def sample_args_def)
  have "well_formed_hash (replicate 64 CHR ''a'')" by (simp add: well_formed_hash_def hex list_all_iff)
  then have "fst (load_supported_vk_hashes sample_environment sample_args []) = Ok [replicate 64 CHR ''a'']"
    unfolding load_supported_value entries by (simp add: normalize_entries_def norm Let_def)
  from vk_filter_exact [OF this] show ?thesis by (simp add: entries norm)
qed

text \<open>
  The daemon sleeps exactly after an idle poll that makes the number of idle polls since the last proof a
  multiple of the number of sequencers, retries not interrupting the count: once per full idle cycle.
\<close>

theorem idle_cycle_exact:
  "(fst (idle_fold n outcomes) \<longleftrightarrow> outcomes \<noteq> [] \<and> last outcomes = Idle \<and> max n 1 dvd idles_since_proof outcomes) \<and>
   ic_idle_streak (snd (idle_fold n outcomes)) < ic_sequencers (snd (idle_fold n outcomes))"
  using idle_fold_state [of n outcomes] by simp

end
