(* ===== verification/Witness_Oracle.thy ===== *)
theory Witness_Oracle
  imports Batch_Sound
begin

text \<open>
  The witness-soundness harness of \<open>tools/test-utils/src/witness_oracle.rs\<close>: the digest of the
  statement a batch proves, the oracles that offer the guest another witness, and the sweep that
  judges them, with the status the divergence validator derives from it. The guest is the model of
  \<open>lib/src/executor\<close>; the message of a caught panic is the panic value itself.
\<close>

section \<open>The statement digest\<close>

definition push_u64 :: "bytes \<Rightarrow> u64 \<Rightarrow> bytes" where
  "push_u64 buf value = buf @ u64_be value"

definition push_b256 :: "bytes \<Rightarrow> b256 \<Rightarrow> bytes" where
  "push_b256 buf value = buf @ bytes32 value"

definition push_bytes :: "bytes \<Rightarrow> bytes \<Rightarrow> bytes" where
  "push_bytes buf bytes = push_u64 buf (of_nat (length bytes)) @ bytes"

fun push_auth :: "bytes \<Rightarrow> tx_auth \<Rightarrow> bytes" where
  "push_auth buf (L1 tx_hash abi) = push_bytes (push_b256 (push_u64 buf 0) tx_hash) abi"
| "push_auth buf (Upgrade tx_hash abi) = push_bytes (push_b256 (push_u64 buf 1) tx_hash) abi"
| "push_auth buf (L2 signed_bs) = push_bytes (push_u64 buf 2) signed_bs"
| "push_auth buf (System tx_hash encoded) = push_bytes (push_b256 (push_u64 buf 3) tx_hash) encoded"

definition push_tx :: "tx_input \<Rightarrow> bytes \<Rightarrow> bytes" where
  "push_tx tx buf =
     push_auth (case ti_chain_id tx of
         Some chain_id \<Rightarrow> push_u64 (push_u64 buf 1) chain_id
       | None \<Rightarrow> push_u64 buf 0) (ti_auth tx)"

definition push_block :: "block_input \<Rightarrow> bytes \<Rightarrow> bytes" where
  "push_block block buf =
     (let buf = push_u64 buf (bi_number block);
          buf = push_u64 buf (bi_timestamp block);
          buf = push_u64 buf (bi_base_fee block);
          buf = push_u64 buf (bi_gas_limit block);
          buf = push_bytes buf (bytes20 (bi_coinbase block));
          buf = push_b256 buf (bi_prev_randao block);
          buf = push_u64 buf (of_nat (length (bi_transactions block)))
      in fold push_tx (bi_transactions block) buf)"

definition statement_buffer :: "batch_input \<Rightarrow> bytes" where
  "statement_buffer inp =
     (let buf = push_u64 [] (ucast (in_version inp));
          buf = push_u64 buf (in_chain_id inp);
          buf = push_u64 buf (ucast (in_spec_id inp));
          buf = push_u64 buf (ucast (in_protocol_version_minor inp));
          meta = in_batch_meta inp;
          buf = push_b256 buf (bm_tree_root_before meta);
          buf = push_u64 buf (bm_leaf_count_before meta);
          buf = push_u64 buf (bm_block_number_before meta);
          buf = push_u64 buf (bm_last_block_timestamp_before meta);
          buf = push_b256 buf (bm_block_hashes_blake_before meta);
          buf = push_u64 buf (of_bool (bm_fri_proof_verification_enabled meta));
          buf = push_u64 buf (bm_max_tx_gas_limit meta);
          buf = push_u64 buf (ucast (bm_pubdata_content meta));
          buf = push_u64 buf (ucast (bm_da_commitment_scheme meta));
          buf = push_bytes buf (bm_pubdata meta);
          buf = push_u64 buf (of_nat (length (bm_blob_versioned_hashes meta)));
          buf = fold (\<lambda>h buf. push_b256 buf h) (bm_blob_versioned_hashes meta) buf;
          buf = push_u64 buf (of_nat (length (in_blocks inp)))
      in fold push_block (in_blocks inp) buf)"

definition statement_digest :: "crypto \<Rightarrow> batch_input \<Rightarrow> b256" where
  "statement_digest c inp = cr_keccak256 c (statement_buffer inp)"

section \<open>Verdicts\<close>

datatype outcome = Rejected panic | AcceptedIdentical | AcceptedDifferent b256 b256

definition classify :: "b256 \<Rightarrow> b256 \<Rightarrow> outcome" where
  "classify honest mutated = (if honest = mutated then AcceptedIdentical else AcceptedDifferent honest mutated)"

datatype oracle_verdict = NoSite | StatementMoved b256 | Judged outcome

record oracle_report =
  rep_oracle :: string
  rep_verdict :: oracle_verdict

record honest_run =
  hr_statement :: b256
  hr_commitment :: b256

record witness_soundness =
  ws_honest :: honest_run
  ws_oracles :: "oracle_report list"

fun is_finding :: "oracle_verdict \<Rightarrow> bool" where
  "is_finding (Judged (AcceptedDifferent _ _)) = True"
| "is_finding _ = False"

fun is_moved :: "oracle_verdict \<Rightarrow> bool" where
  "is_moved (StatementMoved _) = True"
| "is_moved _ = False"

definition finding :: "witness_soundness \<Rightarrow> oracle_report option" where
  "finding sweep = List.find (\<lambda>report. is_finding (rep_verdict report)) (ws_oracles sweep)"

definition harness_error :: "witness_soundness \<Rightarrow> oracle_report option" where
  "harness_error sweep = List.find (\<lambda>report. is_moved (rep_verdict report)) (ws_oracles sweep)"

section \<open>Oracles and the sweep\<close>

record witness_oracle =
  wo_name :: string
  wo_witness :: "batch_input \<Rightarrow> batch_input option"

definition guest_commit ::
  "crypto \<Rightarrow> ('al, 'au, 'tx) tx_crates \<Rightarrow> ('evm, 'tx, 'log) revm \<Rightarrow> batch_input \<Rightarrow> (panic, b256) result" where
  "guest_commit c cr rv inp = rbind (execute_and_commit c cr rv inp) (\<lambda>(out, commitment). Ok commitment)"

definition evaluate ::
  "crypto \<Rightarrow> ('al, 'au, 'tx) tx_crates \<Rightarrow> ('evm, 'tx, 'log) revm \<Rightarrow> batch_input \<Rightarrow> honest_run \<Rightarrow>
   witness_oracle \<Rightarrow> oracle_verdict" where
  "evaluate c cr rv honest run wo =
     (case wo_witness wo honest of
        None \<Rightarrow> NoSite
      | Some mutated \<Rightarrow>
          let produced = statement_digest c mutated
          in if produced \<noteq> hr_statement run then StatementMoved produced
             else case guest_commit c cr rv mutated of
                 Err panic_ \<Rightarrow> Judged (Rejected panic_)
               | Ok commitment \<Rightarrow> Judged (classify (hr_commitment run) commitment))"

definition evaluate_all ::
  "crypto \<Rightarrow> ('al, 'au, 'tx) tx_crates \<Rightarrow> ('evm, 'tx, 'log) revm \<Rightarrow> batch_input \<Rightarrow> witness_oracle list \<Rightarrow>
   (panic, witness_soundness) result" where
  "evaluate_all c cr rv honest oracle_list =
     rbind (guest_commit c cr rv honest) (\<lambda>commitment.
     let run = \<lparr>hr_statement = statement_digest c honest, hr_commitment = commitment\<rparr>
     in Ok \<lparr>ws_honest = run,
            ws_oracles = map (\<lambda>wo. \<lparr>rep_oracle = wo_name wo, rep_verdict = evaluate c cr rv honest run wo\<rparr>)
              oracle_list\<rparr>)"

definition Honest :: witness_oracle where
  "Honest = \<lparr>wo_name = ''honest'', wo_witness = \<lambda>honest. Some honest\<rparr>"

definition FABRICATED_LOG :: l2_to_l1_log_entry where
  "FABRICATED_LOG = \<lparr>le_l2_shard_id = 0, le_is_service = True, le_tx_number_in_block = 0, le_sender = 0,
     le_key = of_be_bytes (replicate 32 0xa1), le_value = of_be_bytes (replicate 32 0xa2)\<rparr>"

definition UnboundL2ToL1Logs :: witness_oracle where
  "UnboundL2ToL1Logs = \<lparr>wo_name = ''unbound_l2_to_l1_logs'',
     wo_witness = \<lambda>honest. case in_blocks honest of
         [] \<Rightarrow> None
       | block # blocks \<Rightarrow> Some (honest\<lparr>in_blocks :=
           block\<lparr>bi_l2_to_l1_logs := bi_l2_to_l1_logs block @ [FABRICATED_LOG]\<rparr> # blocks\<rparr>)\<rparr>"

definition oracles :: "witness_oracle list" where
  "oracles = [Honest, UnboundL2ToL1Logs]"

section \<open>The status of the validator\<close>

datatype status = Match | Divergence | Finding | Error

fun exit_code :: "status \<Rightarrow> int" where
  "exit_code Match = 0"
| "exit_code Divergence = 1"
| "exit_code Finding = 1"
| "exit_code Error = 2"

datatype sweep_error = OraclesCouldNotRun panic | OracleMovedStatement string

text \<open>The fields of the validator's report that the sweep reads or writes.\<close>

record report =
  rp_status :: status
  rp_witness_soundness :: "witness_soundness option"
  rp_error :: "sweep_error option"

definition sweep_witness_oracles ::
  "crypto \<Rightarrow> ('al, 'au, 'tx) tx_crates \<Rightarrow> ('evm, 'tx, 'log) revm \<Rightarrow> batch_input \<Rightarrow> report \<Rightarrow> report" where
  "sweep_witness_oracles c cr rv honest rep =
     (case evaluate_all c cr rv honest oracles of
        Err err \<Rightarrow> rep\<lparr>rp_status := Error, rp_error := Some (OraclesCouldNotRun err)\<rparr>
      | Ok sweep \<Rightarrow>
          let rep = (case harness_error sweep of
                Some moved \<Rightarrow> rep\<lparr>rp_status := Error, rp_error := Some (OracleMovedStatement (rep_oracle moved))\<rparr>
              | None \<Rightarrow> if finding sweep \<noteq> None \<and> rp_status rep = Match then rep\<lparr>rp_status := Finding\<rparr> else rep)
          in rep\<lparr>rp_witness_soundness := Some sweep\<rparr>)"

section \<open>What the digest keeps\<close>

text \<open>A batch with every field the digest leaves out reset.\<close>

definition statement_tx :: "tx_input \<Rightarrow> tx_input" where
  "statement_tx tx = tx\<lparr>ti_gas_used_override := None, ti_force_fail := False\<rparr>"

definition statement_block :: "block_input \<Rightarrow> block_input" where
  "statement_block b = b\<lparr>bi_transactions := map statement_tx (bi_transactions b), bi_account_preimages := [],
     bi_block_hashes := [], bi_storage_proofs := [], bi_block_header_hash := 0, bi_l2_to_l1_logs := [],
     bi_expected_tree_root := 0\<rparr>"

definition statement_meta :: "batch_meta \<Rightarrow> batch_meta" where
  "statement_meta m = m\<lparr>bm_previous_block_hashes := [], bm_upgrade_tx_hash := 0, bm_multichain_root := 0,
     bm_sl_chain_id := 0, bm_tree_update := None, bm_account_preimages_after := [],
     bm_l1_tx_filtering_enabled := False, bm_large_contracts_enabled := False, bm_interop_proofs := None\<rparr>"

definition statement_of :: "batch_input \<Rightarrow> batch_input" where
  "statement_of inp = inp\<lparr>in_blocks := map statement_block (in_blocks inp),
     in_batch_meta := statement_meta (in_batch_meta inp), in_bytecodes := []\<rparr>"

text \<open>Every length fits the eight bytes it is written in.\<close>

definition sized_auth :: "tx_auth \<Rightarrow> bool" where
  "sized_auth auth \<longleftrightarrow> (case auth of L1 _ bs \<Rightarrow> length bs < 2 ^ 64 | Upgrade _ bs \<Rightarrow> length bs < 2 ^ 64
     | L2 bs \<Rightarrow> length bs < 2 ^ 64 | System _ bs \<Rightarrow> length bs < 2 ^ 64)"

definition sized_block :: "block_input \<Rightarrow> bool" where
  "sized_block b \<longleftrightarrow> length (bi_transactions b) < 2 ^ 64 \<and> (\<forall>tx \<in> set (bi_transactions b). sized_auth (ti_auth tx))"

definition sized_batch :: "batch_input \<Rightarrow> bool" where
  "sized_batch inp \<longleftrightarrow> length (bm_pubdata (in_batch_meta inp)) < 2 ^ 64 \<and>
     length (bm_blob_versioned_hashes (in_batch_meta inp)) < 2 ^ 64 \<and>
     length (in_blocks inp) < 2 ^ 64 \<and> (\<forall>b \<in> set (in_blocks inp). sized_block b)"

end
