(* ===== verification/Witness_Sound.thy ===== *)
theory Witness_Sound
  imports Witness_Oracle
begin

text \<open>
  Lemmas on the witness-soundness harness: the statement buffer is cut in one way only, so it
  determines every field it takes, and the executor reads none of the logs a block lists.
\<close>

section \<open>Self-delimiting encodings\<close>

text \<open>
  An encoding is cut off a buffer in one way only: two buffers that start with encodings agree on
  the part \<open>v\<close> of the encoded values and on the rest.
\<close>

definition delimits :: "('a \<Rightarrow> 'b) \<Rightarrow> ('a \<Rightarrow> bool) \<Rightarrow> ('a \<Rightarrow> bytes) \<Rightarrow> bool" where
  "delimits v P enc \<longleftrightarrow> (\<forall>x y r s. P x \<longrightarrow> P y \<longrightarrow> enc x @ r = enc y @ s \<longrightarrow> v x = v y \<and> r = s)"

lemma delimitsI:
  assumes "\<And>x y r s. P x \<Longrightarrow> P y \<Longrightarrow> enc x @ r = enc y @ s \<Longrightarrow> v x = v y \<and> r = s"
  shows "delimits v P enc"
  unfolding delimits_def using assms by blast

lemma delimitsD: "delimits v P enc \<Longrightarrow> enc x @ r = enc y @ s \<Longrightarrow> P x \<Longrightarrow> P y \<Longrightarrow> v x = v y \<and> r = s"
  unfolding delimits_def by blast

lemma u64_cut: "u64_be a @ r = u64_be b @ s \<longleftrightarrow> a = b \<and> r = s"
  by (simp add: append_eq_append_conv)

lemma bytes32_cut: "bytes32 a @ r = bytes32 b @ s \<longleftrightarrow> a = b \<and> r = s"
  by (simp add: append_eq_append_conv)

lemma length_cut:
  assumes "length a < 2 ^ 64" "length b < 2 ^ 64"
  shows "(of_nat (length a) :: u64) = of_nat (length b) \<longleftrightarrow> length a = length b"
proof
  assume "(of_nat (length a) :: u64) = of_nat (length b)"
  then have "unat (of_nat (length a) :: u64) = unat (of_nat (length b) :: u64)" by simp
  then show "length a = length b" using assms by (simp add: unat_of_nat)
qed simp

lemma bytes_cut:
  assumes "length a < 2 ^ 64" "length b < 2 ^ 64"
  shows "(of_nat (length a) :: u64) = of_nat (length b) \<and> a @ r = b @ s \<longleftrightarrow> a = b \<and> r = s"
  unfolding length_cut [OF assms] by (auto simp: append_eq_append_conv)

text \<open>A sequence is delimited when its length is known and its items are.\<close>

lemma delimits_concat:
  assumes "delimits v P enc" and "length xs = length ys" and "\<forall>x \<in> set xs. P x" and "\<forall>y \<in> set ys. P y"
    and "concat (map enc xs) @ r = concat (map enc ys) @ s"
  shows "map v xs = map v ys \<and> r = s"
  using assms(2-)
proof (induction xs ys rule: list_induct2)
  case (Cons x xs y ys)
  then have "v x = v y \<and> concat (map enc xs) @ r = concat (map enc ys) @ s"
    by (intro delimitsD [OF assms(1)]) simp_all
  then show ?case using Cons by simp
qed simp

section \<open>The statement buffer\<close>

lemma push_auth_append: "push_auth buf a = buf @ push_auth [] a"
  by (cases a) (simp_all add: push_u64_def push_b256_def push_bytes_def)

lemma push_tx_append: "push_tx tx buf = buf @ push_tx tx []"
  unfolding push_tx_def by (subst (1 2) push_auth_append) (simp add: push_u64_def split: option.split)

lemma fold_push: "(\<And>x buf. p x buf = buf @ e x) \<Longrightarrow> fold p xs buf = buf @ concat (map e xs)"
  by (induction xs arbitrary: buf) simp_all

lemma push_txs_append: "fold push_tx txs buf = buf @ concat (map (\<lambda>tx. push_tx tx []) txs)"
  by (rule fold_push) (rule push_tx_append)

lemma push_block_append:
  "push_block b buf = buf @ u64_be (bi_number b) @ u64_be (bi_timestamp b) @ u64_be (bi_base_fee b) @ u64_be (bi_gas_limit b) @
     u64_be 20 @ bytes20 (bi_coinbase b) @ bytes32 (bi_prev_randao b) @ u64_be (of_nat (length (bi_transactions b))) @
     concat (map (\<lambda>tx. push_tx tx []) (bi_transactions b))"
  by (simp add: push_block_def push_txs_append push_u64_def push_bytes_def push_b256_def)

lemma push_blocks_append: "fold push_block bs buf = buf @ concat (map (\<lambda>b. push_block b []) bs)"
  by (rule fold_push) (simp add: push_block_append)

lemma push_hashes_append: "fold (\<lambda>h buf. push_b256 buf h) hs buf = buf @ concat (map (\<lambda>h. bytes32 h) hs)"
  by (rule fold_push) (simp add: push_b256_def)

lemma auth_delimits: "delimits id sized_auth (push_auth [])"
proof (rule delimitsI)
  fix x y r s assume "sized_auth x" "sized_auth y" "push_auth [] x @ r = push_auth [] y @ s"
  then show "id x = id y \<and> r = s"
    by (cases x; cases y)
       (simp_all add: sized_auth_def push_u64_def push_b256_def push_bytes_def u64_cut bytes32_cut bytes_cut del: be_bytes_0)
qed

lemma statement_tx_eq: "statement_tx x = statement_tx y \<longleftrightarrow> ti_chain_id x = ti_chain_id y \<and> ti_auth x = ti_auth y"
  by (cases x; cases y) (auto simp: statement_tx_def)

lemma statement_block_eq:
  "statement_block x = statement_block y \<longleftrightarrow>
     bi_number x = bi_number y \<and> bi_timestamp x = bi_timestamp y \<and> bi_base_fee x = bi_base_fee y \<and>
     bi_gas_limit x = bi_gas_limit y \<and> bi_coinbase x = bi_coinbase y \<and> bi_prev_randao x = bi_prev_randao y \<and>
     map statement_tx (bi_transactions x) = map statement_tx (bi_transactions y)"
  by (cases x; cases y) (auto simp: statement_block_def)

lemma statement_meta_eq:
  "statement_meta x = statement_meta y \<longleftrightarrow>
     bm_tree_root_before x = bm_tree_root_before y \<and> bm_leaf_count_before x = bm_leaf_count_before y \<and>
     bm_block_number_before x = bm_block_number_before y \<and>
     bm_last_block_timestamp_before x = bm_last_block_timestamp_before y \<and>
     bm_block_hashes_blake_before x = bm_block_hashes_blake_before y \<and>
     bm_fri_proof_verification_enabled x = bm_fri_proof_verification_enabled y \<and>
     bm_max_tx_gas_limit x = bm_max_tx_gas_limit y \<and> bm_pubdata_content x = bm_pubdata_content y \<and>
     bm_da_commitment_scheme x = bm_da_commitment_scheme y \<and> bm_pubdata x = bm_pubdata y \<and>
     bm_blob_versioned_hashes x = bm_blob_versioned_hashes y"
  by (cases x; cases y) (auto simp: statement_meta_def)

lemma statement_of_eq:
  "statement_of x = statement_of y \<longleftrightarrow>
     in_version x = in_version y \<and> in_chain_id x = in_chain_id y \<and> in_spec_id x = in_spec_id y \<and>
     in_protocol_version_minor x = in_protocol_version_minor y \<and>
     statement_meta (in_batch_meta x) = statement_meta (in_batch_meta y) \<and>
     map statement_block (in_blocks x) = map statement_block (in_blocks y)"
  by (cases x; cases y) (auto simp: statement_of_def)

lemma tx_delimits: "delimits statement_tx (\<lambda>tx. sized_auth (ti_auth tx)) (\<lambda>tx. push_tx tx [])"
proof (rule delimitsI)
  fix x y r s assume ok: "sized_auth (ti_auth x)" "sized_auth (ti_auth y)" and eq: "push_tx x [] @ r = push_tx y [] @ s"
  have tx: "push_tx tx [] = (case ti_chain_id tx of Some i \<Rightarrow> u64_be 1 @ u64_be i | None \<Rightarrow> u64_be 0) @ push_auth [] (ti_auth tx)"
    for tx by (simp add: push_tx_def push_u64_def push_auth_append [of "_ @ _"] push_auth_append [of "be_bytes _ _"] del: be_bytes_0 split: option.split)
  have "ti_chain_id x = ti_chain_id y \<and> push_auth [] (ti_auth x) @ r = push_auth [] (ti_auth y) @ s"
    using eq by (simp add: tx u64_cut del: be_bytes_0 split: option.splits)
  then show "statement_tx x = statement_tx y \<and> r = s"
    using delimitsD [OF auth_delimits _ ok] unfolding statement_tx_eq id_apply by blast
qed

lemma bytes20_cut: "bytes20 a @ r = bytes20 b @ s \<longleftrightarrow> a = b \<and> r = s"
  by (simp add: append_eq_append_conv)

text \<open>A counted sequence: the count, then the items.\<close>

lemma counted_cut:
  assumes "delimits v P enc" and "length xs < 2 ^ 64" and "length ys < 2 ^ 64"
    and "\<forall>x \<in> set xs. P x" and "\<forall>y \<in> set ys. P y"
    and "(of_nat (length xs) :: u64) = of_nat (length ys)"
    and "concat (map enc xs) @ r = concat (map enc ys) @ s"
  shows "map v xs = map v ys \<and> r = s"
  using delimits_concat [OF assms(1) _ assms(4,5,7)] assms(2,3,6) by (simp add: length_cut)

lemma block_delimits: "delimits statement_block sized_block (\<lambda>b. push_block b [])"
proof (rule delimitsI)
  fix x y r s assume ok: "sized_block x" "sized_block y" and eq: "push_block x [] @ r = push_block y [] @ s"
  let ?enc = "\<lambda>tx. push_tx tx []"
  have cut: "bi_number x = bi_number y \<and> bi_timestamp x = bi_timestamp y \<and> bi_base_fee x = bi_base_fee y \<and>
     bi_gas_limit x = bi_gas_limit y \<and> bi_coinbase x = bi_coinbase y \<and> bi_prev_randao x = bi_prev_randao y \<and>
     (of_nat (length (bi_transactions x)) :: u64) = of_nat (length (bi_transactions y)) \<and>
     concat (map ?enc (bi_transactions x)) @ r = concat (map ?enc (bi_transactions y)) @ s"
    using eq unfolding push_block_append append_assoc append_Nil u64_cut bytes32_cut bytes20_cut by blast
  have "map statement_tx (bi_transactions x) = map statement_tx (bi_transactions y) \<and> r = s"
    by (rule counted_cut [OF tx_delimits]) (use ok cut in \<open>simp_all add: sized_block_def\<close>)
  then show "statement_block x = statement_block y \<and> r = s" using cut by (simp add: statement_block_eq)
qed

lemma hashes_delimit: "delimits id (\<lambda>_. True) (\<lambda>h. bytes32 h)"
  by (rule delimitsI) (simp add: bytes32_cut)

lemma statement_buffer_flat:
  "statement_buffer inp = u64_be (ucast (in_version inp)) @ u64_be (in_chain_id inp) @ u64_be (ucast (in_spec_id inp)) @
     u64_be (ucast (in_protocol_version_minor inp)) @ bytes32 (bm_tree_root_before (in_batch_meta inp)) @
     u64_be (bm_leaf_count_before (in_batch_meta inp)) @ u64_be (bm_block_number_before (in_batch_meta inp)) @
     u64_be (bm_last_block_timestamp_before (in_batch_meta inp)) @ bytes32 (bm_block_hashes_blake_before (in_batch_meta inp)) @
     u64_be (of_bool (bm_fri_proof_verification_enabled (in_batch_meta inp))) @ u64_be (bm_max_tx_gas_limit (in_batch_meta inp)) @
     u64_be (ucast (bm_pubdata_content (in_batch_meta inp))) @ u64_be (ucast (bm_da_commitment_scheme (in_batch_meta inp))) @
     u64_be (of_nat (length (bm_pubdata (in_batch_meta inp)))) @ bm_pubdata (in_batch_meta inp) @
     u64_be (of_nat (length (bm_blob_versioned_hashes (in_batch_meta inp)))) @
     concat (map (\<lambda>h. bytes32 h) (bm_blob_versioned_hashes (in_batch_meta inp))) @
     u64_be (of_nat (length (in_blocks inp))) @ concat (map (\<lambda>b. push_block b []) (in_blocks inp))"
  unfolding statement_buffer_def Let_def push_hashes_append push_blocks_append
  unfolding push_u64_def push_b256_def push_bytes_def append_assoc append_Nil ..

text \<open>The encodings read no more than the statement.\<close>

lemma map_through:
  assumes "\<And>x. enc (v x) = enc x" and "map v xs = map v ys"
  shows "map enc xs = map enc ys" and "length xs = length ys"
proof -
  have "map enc zs = map enc (map v zs)" for zs using assms(1) by simp
  then show "map enc xs = map enc ys" using assms(2) by metis
  show "length xs = length ys" using assms(2) by (rule map_eq_imp_length_eq)
qed

lemma push_statement_tx: "push_tx (statement_tx tx) buf = push_tx tx buf"
  by (simp add: push_tx_def statement_tx_def)

lemma push_statement_block: "push_block (statement_block b) buf = push_block b buf"
  by (simp add: push_block_append) (simp add: statement_block_def push_statement_tx comp_def)

lemma ucast_inject:
  assumes "LENGTH('a::len) \<le> LENGTH('b::len)"
  shows "(ucast (a :: 'a word) :: 'b word) = ucast b \<longleftrightarrow> a = b"
  using assms by (metis is_up ucast_up_ucast_id)

lemma statement_buffer_of:
  assumes st: "statement_of x = statement_of y"
  shows "statement_buffer x = statement_buffer y"
proof -
  have "map statement_block (in_blocks x) = map statement_block (in_blocks y)" using st by (simp add: statement_of_eq)
  note blocks = map_through [of "\<lambda>b. push_block b []", OF push_statement_block this]
  show ?thesis using st blocks by (simp add: statement_of_eq statement_meta_eq statement_buffer_flat)
qed

lemma statement_buffer_inject:
  assumes ok: "sized_batch x" "sized_batch y"
  shows "statement_buffer x = statement_buffer y \<longleftrightarrow> statement_of x = statement_of y"
proof
  let ?m = "in_batch_meta x" and ?n = "in_batch_meta y"
  assume eq: "statement_buffer x = statement_buffer y"
  have pub: "length (bm_pubdata ?m) < 2 ^ 64" "length (bm_pubdata ?n) < 2 ^ 64" using ok by (simp_all add: sized_batch_def)
  note flat = eq [unfolded statement_buffer_flat u64_cut bytes32_cut bytes_cut [OF pub]]
  let ?rest = "\<lambda>z. u64_be (of_nat (length (in_blocks z))) @ concat (map (\<lambda>b. push_block b []) (in_blocks z))"
  have cnt: "(of_nat (length (bm_blob_versioned_hashes ?m)) :: u64) = of_nat (length (bm_blob_versioned_hashes ?n))"
    "concat (map (\<lambda>h. bytes32 h) (bm_blob_versioned_hashes ?m)) @ ?rest x =
     concat (map (\<lambda>h. bytes32 h) (bm_blob_versioned_hashes ?n)) @ ?rest y"
    using flat by blast+
  have "map id (bm_blob_versioned_hashes ?m) = map id (bm_blob_versioned_hashes ?n) \<and> ?rest x = ?rest y"
    by (rule counted_cut [OF hashes_delimit _ _ _ _ cnt]) (use ok in \<open>simp_all add: sized_batch_def\<close>)
  then have hs: "bm_blob_versioned_hashes ?m = bm_blob_versioned_hashes ?n" "?rest x = ?rest y" by simp_all
  have "map statement_block (in_blocks x) = map statement_block (in_blocks y)"
    using counted_cut [OF block_delimits, of "in_blocks x" "in_blocks y" "[]" "[]"] ok hs(2)
    by (simp add: sized_batch_def u64_cut)
  then show "statement_of x = statement_of y"
    using flat hs(1) by (simp add: statement_of_eq statement_meta_eq ucast_inject of_bool_eq_iff)
qed (rule statement_buffer_of)

section \<open>The logs of a block are not read\<close>

definition clear_logs :: "block_input \<Rightarrow> block_input" where
  "clear_logs b = b\<lparr>bi_l2_to_l1_logs := []\<rparr>"

lemma clear_logs_kept: "keeps_executed clear_logs"
  by (simp add: keeps_executed_def clear_logs_def)

lemma clear_logs_sel [simp]:
  "bi_storage_proofs (clear_logs b) = bi_storage_proofs b"
  "bi_account_preimages (clear_logs b) = bi_account_preimages b"
  by (simp_all add: clear_logs_def)

lemma build_cleared: "build_proven_db c (map_blocks clear_logs inp) = build_proven_db c inp"
proof -
  have "collect_storage c (map_blocks clear_logs inp) = collect_storage c inp"
    by (simp add: collect_storage_def foldR_map expected_root_for_block_def)
  moreover have "build_verified_accounts c (map clear_logs blocks) storage codes = build_verified_accounts c blocks storage codes"
    for blocks storage codes by (simp add: build_verified_accounts_def foldR_map)
  moreover have "verify_witness_block_hashes (map clear_logs blocks) meta = verify_witness_block_hashes blocks meta"
    for blocks meta by (simp add: verify_witness_block_hashes_def checkR_map last_map keeps_executedD [OF clear_logs_kept] Let_def)
  ultimately show ?thesis by (simp add: build_proven_db_def)
qed

lemma execute_cleared:
  "execute_and_commit_inner c cr rv (map_blocks clear_logs inp) = execute_and_commit_inner c cr rv inp"
proof (cases "resolve_spec_and_validate rv inp")
  case (Ok spec)
  have "in_blocks inp \<noteq> []" by (rule validate_block_sequenceD(1) [OF resolve_validates [OF Ok]])
  then show ?thesis
    by (simp add: execute_and_commit_inner_def resolve_kept [OF clear_logs_kept] build_cleared run_kept [OF clear_logs_kept])
qed (simp add: execute_and_commit_inner_def resolve_kept [OF clear_logs_kept])

lemma logs_unread:
  assumes "map_blocks clear_logs x = map_blocks clear_logs y"
  shows "guest_commit c cr rv x = guest_commit c cr rv y"
  using execute_cleared [of c cr rv x] execute_cleared [of c cr rv y] assms
  by (simp add: guest_commit_def execute_and_commit_def)

section \<open>The sweep\<close>

lemma evaluate_allD:
  assumes "evaluate_all c cr rv honest os = Ok sweep"
  shows "guest_commit c cr rv honest = Ok (hr_commitment (ws_honest sweep))"
    and "hr_statement (ws_honest sweep) = statement_digest c honest"
    and "ws_oracles sweep = map (\<lambda>wo. \<lparr>rep_oracle = wo_name wo,
      rep_verdict = evaluate c cr rv honest (ws_honest sweep) wo\<rparr>) os"
  using assms by (auto simp: evaluate_all_def Let_def)

lemma evaluate_finding:
  "is_finding (evaluate c cr rv honest run wo) \<longleftrightarrow>
     (\<exists>m h. wo_witness wo honest = Some m \<and> statement_digest c m = hr_statement run \<and>
        guest_commit c cr rv m = Ok h \<and> h \<noteq> hr_commitment run)"
  by (auto simp: evaluate_def Let_def classify_def split: option.splits result.splits)

lemma evaluate_moved:
  "is_moved (evaluate c cr rv honest run wo) \<longleftrightarrow>
     (\<exists>m. wo_witness wo honest = Some m \<and> statement_digest c m \<noteq> hr_statement run)"
  by (auto simp: evaluate_def Let_def classify_def split: option.splits result.splits)

lemma find_map_Some:
  "List.find P (map g xs) \<noteq> None \<longleftrightarrow> (\<exists>x \<in> set xs. P (g x))"
  by (auto simp: find_None_iff)

lemma unbound_logs_identical:
  assumes "wo_witness UnboundL2ToL1Logs honest = Some m"
  shows "guest_commit c cr rv m = guest_commit c cr rv honest" and "statement_digest c m = statement_digest c honest"
proof -
  obtain block blocks where b: "in_blocks honest = block # blocks"
    and m: "m = honest\<lparr>in_blocks := block\<lparr>bi_l2_to_l1_logs := bi_l2_to_l1_logs block @ [FABRICATED_LOG]\<rparr> # blocks\<rparr>"
    using assms by (auto simp: UnboundL2ToL1Logs_def split: list.splits)
  have "map_blocks clear_logs m = map_blocks clear_logs honest"
    by (cases honest) (use b m in \<open>simp add: map_blocks_def clear_logs_def\<close>)
  then show "guest_commit c cr rv m = guest_commit c cr rv honest" by (rule logs_unread)
  have "statement_of m = statement_of honest"
    by (simp add: statement_of_eq b m statement_block_eq)
  then show "statement_digest c m = statement_digest c honest"
    unfolding statement_digest_def by (intro arg_cong [where f = "cr_keccak256 c"] statement_buffer_of)
qed

end
