(* ===== verification/Witness_Claims.thy ===== *)
theory Witness_Claims
  imports Batch_Claims Witness_Sound
begin

text \<open>
  The claims about the witness-soundness harness: what its statement digest binds, what a finding
  of a sweep is, that the shipped oracles never produce one, and that an oracle over a chain flag
  the digest leaves out does.
\<close>

section \<open>The digest and the sweep\<close>

text \<open>
  C34. Two batches have the same statement digest exactly when they agree in every field the digest
  takes, unless the digests collide: the serialization of the statement, with its length prefixes
  and variant tags, is injective.
\<close>

theorem statement_digest_exact:
  assumes "sized_batch x" and "sized_batch y"
    and "inj_on (cr_keccak256 c) {statement_buffer x, statement_buffer y}"
  shows "statement_digest c x = statement_digest c y \<longleftrightarrow> statement_of x = statement_of y"
  using inj_onD [OF assms(3), of "statement_buffer x" "statement_buffer y"] statement_buffer_inject [OF assms(1,2)]
  by (auto simp: statement_digest_def)

lemma sample_sized: "sized_batch sample_batch"
  by (simp add: sized_batch_def sized_block_def sample_batch_def sample_meta_def sample_block_def)

definition sample_offer :: batch_input where
  "sample_offer = sample_batch\<lparr>in_bytecodes := [(5, [1, 2])]\<rparr>"

lemma sample_offer_facts:
  "sized_batch sample_offer" "statement_of sample_offer = statement_of sample_batch"
  "statement_buffer sample_offer = statement_buffer sample_batch"
proof -
  show "sized_batch sample_offer" using sample_sized by (simp add: sample_offer_def sized_batch_def)
  show st: "statement_of sample_offer = statement_of sample_batch" by (simp add: sample_offer_def statement_of_def)
  show "statement_buffer sample_offer = statement_buffer sample_batch" by (rule statement_buffer_of [OF st])
qed

theorem statement_digest_exact_witness:
  "statement_digest sample_crypto sample_batch = statement_digest sample_crypto sample_offer \<longleftrightarrow>
   statement_of sample_batch = statement_of sample_offer"
  by (rule statement_digest_exact [OF sample_sized]) (simp_all add: sample_offer_facts)

text \<open>
  C33. A sweep reports a finding exactly when the guest commits two different values for one
  statement: some oracle offers a batch with the statement of the honest one, and the guest accepts
  both with different commitments. It reports a harness error exactly when some oracle offers a
  batch of another statement. The conditions are that lengths fit eight bytes and that no offer's
  statement collides with the honest one.
\<close>

theorem finding_is_two_witnesses:
  assumes sweep: "evaluate_all c cr rv honest os = Ok sweep" and "sized_batch honest"
    and offers: "\<And>wo m. wo \<in> set os \<Longrightarrow> wo_witness wo honest = Some m \<Longrightarrow>
      sized_batch m \<and> inj_on (cr_keccak256 c) {statement_buffer m, statement_buffer honest}"
  shows "(finding sweep \<noteq> None \<longleftrightarrow> (\<exists>wo \<in> set os. \<exists>m h h'. wo_witness wo honest = Some m \<and>
      statement_of m = statement_of honest \<and> guest_commit c cr rv honest = Ok h \<and> guest_commit c cr rv m = Ok h' \<and> h' \<noteq> h)) \<and>
    (harness_error sweep \<noteq> None \<longleftrightarrow> (\<exists>wo \<in> set os. \<exists>m. wo_witness wo honest = Some m \<and>
      statement_of m \<noteq> statement_of honest))"
proof -
  note d = evaluate_allD [OF sweep]
  have st: "statement_digest c m = statement_digest c honest \<longleftrightarrow> statement_of m = statement_of honest"
    if "wo \<in> set os" "wo_witness wo honest = Some m" for wo m
    using inj_onD [of "cr_keccak256 c" _ "statement_buffer m" "statement_buffer honest"] offers [OF that]
      statement_buffer_inject [of m honest] assms(2) by (auto simp: statement_digest_def)
  have "finding sweep \<noteq> None \<longleftrightarrow> (\<exists>wo \<in> set os. \<exists>m h'. wo_witness wo honest = Some m \<and>
      statement_digest c m = statement_digest c honest \<and> guest_commit c cr rv m = Ok h' \<and>
      h' \<noteq> hr_commitment (ws_honest sweep))"
    unfolding finding_def d(3) find_map_Some oracle_report.select_convs evaluate_finding d(2) ..
  moreover have "harness_error sweep \<noteq> None \<longleftrightarrow> (\<exists>wo \<in> set os. \<exists>m. wo_witness wo honest = Some m \<and>
      statement_digest c m \<noteq> statement_digest c honest)"
    unfolding harness_error_def d(3) find_map_Some oracle_report.select_convs evaluate_moved d(2) ..
  ultimately show ?thesis using st d(1) by (metis result.inject(2))
qed

definition sample_oracle :: witness_oracle where
  "sample_oracle = \<lparr>wo_name = ''offer'', wo_witness = \<lambda>_. Some sample_offer\<rparr>"

lemma sample_commit: "\<exists>h. guest_commit sample_crypto sample_crates sample_revm sample_batch = Ok h"
  using sample_run by (auto simp: guest_commit_def execute_and_commit_def)

theorem finding_is_two_witnesses_witness:
  "\<exists>sweep. evaluate_all sample_crypto sample_crates sample_revm sample_batch [sample_oracle] = Ok sweep \<and>
     harness_error sweep = None"
proof -
  obtain sweep where s: "evaluate_all sample_crypto sample_crates sample_revm sample_batch [sample_oracle] = Ok sweep"
    using sample_commit by (auto simp: evaluate_all_def Let_def)
  moreover have "harness_error sweep = None"
    using finding_is_two_witnesses [OF s sample_sized] by (simp add: sample_oracle_def sample_offer_facts)
  ultimately show ?thesis by blast
qed

text \<open>
  C35. The shipped oracles never produce a finding. On a batch the guest refuses, the validator
  reports that the oracles could not run; on every other batch both the identity and the fabricated
  log are judged accepted with the identical commitment and the status is left as it was.
\<close>

theorem shipped_oracles_clean:
  "sweep_witness_oracles c cr rv honest rep =
     (case guest_commit c cr rv honest of
        Err err \<Rightarrow> rep\<lparr>rp_status := Error, rp_error := Some (OraclesCouldNotRun err)\<rparr>
      | Ok h \<Rightarrow> rep\<lparr>rp_witness_soundness := Some
          \<lparr>ws_honest = \<lparr>hr_statement = statement_digest c honest, hr_commitment = h\<rparr>,
           ws_oracles = [\<lparr>rep_oracle = ''honest'', rep_verdict = Judged AcceptedIdentical\<rparr>,
             \<lparr>rep_oracle = ''unbound_l2_to_l1_logs'', rep_verdict = Judged AcceptedIdentical\<rparr>]\<rparr>\<rparr>)"
proof (cases "guest_commit c cr rv honest")
  case (Ok h)
  let ?run = "\<lparr>hr_statement = statement_digest c honest, hr_commitment = h\<rparr>"
  obtain r where r: "execute_and_commit_inner c cr rv honest = Ok r"
    using Ok by (auto simp: guest_commit_def execute_and_commit_def)
  then have "in_blocks honest \<noteq> []"
    by (auto simp: execute_and_commit_inner_def dest: validate_block_sequenceD(1) [OF resolve_validates])
  then obtain m where m: "wo_witness UnboundL2ToL1Logs honest = Some m"
    by (auto simp: UnboundL2ToL1Logs_def neq_Nil_conv)
  have "evaluate c cr rv honest ?run Honest = Judged AcceptedIdentical"
    by (simp add: evaluate_def Honest_def Ok classify_def)
  moreover have "evaluate c cr rv honest ?run UnboundL2ToL1Logs = Judged AcceptedIdentical"
    by (simp add: evaluate_def m unbound_logs_identical [OF m] Ok classify_def)
  moreover have "wo_name Honest = ''honest''" "wo_name UnboundL2ToL1Logs = ''unbound_l2_to_l1_logs''"
    by (simp_all add: Honest_def UnboundL2ToL1Logs_def)
  ultimately show ?thesis
    by (simp add: sweep_witness_oracles_def evaluate_all_def Ok oracles_def harness_error_def finding_def Let_def)
qed (simp add: sweep_witness_oracles_def evaluate_all_def)

section \<open>A flag the digest leaves out\<close>

definition flip_filtering :: "batch_input \<Rightarrow> batch_input" where
  "flip_filtering inp = inp\<lparr>in_batch_meta := (in_batch_meta inp)
     \<lparr>bm_l1_tx_filtering_enabled := \<not> bm_l1_tx_filtering_enabled (in_batch_meta inp)\<rparr>\<rparr>"

lemma flip_filtering_sel [simp]:
  "in_version (flip_filtering inp) = in_version inp" "in_chain_id (flip_filtering inp) = in_chain_id inp"
  "in_spec_id (flip_filtering inp) = in_spec_id inp" "in_blocks (flip_filtering inp) = in_blocks inp"
  "in_protocol_version_minor (flip_filtering inp) = in_protocol_version_minor inp"
  "in_bytecodes (flip_filtering inp) = in_bytecodes inp"
  "in_batch_meta (flip_filtering inp) =
     (in_batch_meta inp)\<lparr>bm_l1_tx_filtering_enabled := \<not> bm_l1_tx_filtering_enabled (in_batch_meta inp)\<rparr>"
  by (simp_all add: flip_filtering_def)

lemma flipped_parts:
  fixes m :: batch_meta and b :: bool
  defines "m' \<equiv> m\<lparr>bm_l1_tx_filtering_enabled := b\<rparr>"
  shows "verify_block_hashes_blake_before c m' block = verify_block_hashes_blake_before c m block"
    and "verify_post_state c m' lp = verify_post_state c m lp"
    and "derive_interop c sc spec m' root = derive_interop c sc spec m root"
    and "committed_pubdata sc spec m' logs = committed_pubdata sc spec m logs"
    and "da_commitment c m' pubdata = da_commitment c m pubdata"
    and "verify_witness_block_hashes bs m' = verify_witness_block_hashes bs m"
proof -
  have "verify_tree_update c m' w = verify_tree_update c m w" for w by (simp add: m'_def verify_tree_update_def cong: option.case_cong)
  then show "verify_post_state c m' lp = verify_post_state c m lp" by (simp add: m'_def verify_post_state_def)
qed (simp_all add: m'_def verify_block_hashes_blake_before_def derive_interop_def committed_pubdata_def da_commitment_def
    verify_witness_block_hashes_def cong: if_cong)

lemma flipped_resolve:
  assumes "resolve_spec_and_validate sc inp = Ok AtlasV5" and "sc_is_enabled_in sc AtlasV5 AtlasV5"
  shows "resolve_spec_and_validate sc (flip_filtering inp) = Ok AtlasV5"
proof -
  have "validate_block_sequence sc (flip_filtering inp) AtlasV5 = validate_block_sequence sc inp AtlasV5"
    by (simp add: validate_block_sequence_def validate_atlas_v4_block_invariants_def validate_expected_tree_roots_def Let_def cong: if_cong)
  then show ?thesis using assms by (auto simp: resolve_spec_and_validate_def Let_def cong: option.case_cong)
qed

lemma flipped_build: "build_proven_db c (flip_filtering inp) = build_proven_db c inp"
  by (simp add: build_proven_db_def collect_storage_def expected_root_for_block_def flipped_parts)

text \<open>The commitment of the flipped batch differs in the configuration hash only.\<close>

definition v5_commitment :: "crypto \<Rightarrow> batch_commitment \<Rightarrow> batch_input \<Rightarrow> b256" where
  "v5_commitment c r inp = batch_public_input_hash c (bc_state_before r) (bc_state_after r)
     (Some (chain_config_hash c CC_AtlasV5 (chain_config_of_batch inp))) (bc_batch_hash r)"

lemma flipped_run:
  assumes "run_execution_and_commit c cr rv inp AtlasV5 db = Ok r"
  shows "bc_commitment r = v5_commitment c r inp"
    and "\<exists>r'. run_execution_and_commit c cr rv (flip_filtering inp) AtlasV5 db = Ok r' \<and>
      bc_commitment r' = v5_commitment c r (flip_filtering inp)"
proof -
  have run: "run_blocks c cr rv (flip_filtering inp) AtlasV5 db ring = run_blocks c cr rv inp AtlasV5 db ring" for ring
    by (simp add: run_blocks_def Let_def)
  show "bc_commitment r = v5_commitment c r inp"
    using assms by (auto simp: run_execution_and_commit_def Let_def v5_commitment_def)
  show "\<exists>r'. run_execution_and_commit c cr rv (flip_filtering inp) AtlasV5 db = Ok r' \<and>
      bc_commitment r' = v5_commitment c r (flip_filtering inp)"
    using assms by (auto simp: run_execution_and_commit_def Let_def v5_commitment_def run flipped_parts)
qed

definition flip_oracle :: witness_oracle where
  "flip_oracle = \<lparr>wo_name = ''flips_l1_tx_filtering'', wo_witness = \<lambda>honest. Some (flip_filtering honest)\<rparr>"

definition flip_messages :: "crypto \<Rightarrow> batch_commitment \<Rightarrow> batch_input \<Rightarrow> bytes set" where
  "flip_messages c r inp =
     {chain_config_preimage CC_AtlasV5 (chain_config_of_batch inp),
      chain_config_preimage CC_AtlasV5 (chain_config_of_batch (flip_filtering inp)),
      public_input_preimage (bc_state_before r) (bc_state_after r)
        (Some (chain_config_hash c CC_AtlasV5 (chain_config_of_batch inp))) (bc_batch_hash r),
      public_input_preimage (bc_state_before r) (bc_state_after r)
        (Some (chain_config_hash c CC_AtlasV5 (chain_config_of_batch (flip_filtering inp)))) (bc_batch_hash r)}"

lemma flip_digest: "statement_digest c (flip_filtering inp) = statement_digest c inp"
proof -
  have "statement_of (flip_filtering inp) = statement_of inp" by (simp add: statement_of_eq statement_meta_eq)
  then show ?thesis unfolding statement_digest_def by (intro arg_cong [where f = "cr_keccak256 c"] statement_buffer_of)
qed

text \<open>
  C39. The statement digest does not take the L1 transaction filter of the chain configuration, which
  the commitment binds from AtlasV5 on: flipping it keeps the digest, the guest accepts the flipped
  batch as well, and the harness reports the different commitment as a soundness finding of the
  guest. The conditions are that the two configurations and the two public inputs do not collide.
\<close>

theorem filtering_flag_reported:
  assumes run: "execute_and_commit_inner c cr rv honest = Ok r" and "in_spec_id honest = 4"
    and "sc_is_enabled_in rv AtlasV5 AtlasV5" and inj: "inj_on (cr_keccak256 c) (flip_messages c r honest)"
  shows "\<exists>h. guest_commit c cr rv (flip_filtering honest) = Ok h \<and>
    evaluate c cr rv honest \<lparr>hr_statement = statement_digest c honest, hr_commitment = bc_commitment r\<rparr> flip_oracle =
      Judged (AcceptedDifferent (bc_commitment r) h)"
proof -
  obtain spec db where spec: "resolve_spec_and_validate rv honest = Ok spec" and db: "build_proven_db c honest = Ok db"
    and ex: "run_execution_and_commit c cr rv honest spec db = Ok r"
    using run by (auto simp: execute_and_commit_inner_def)
  have "spec = AtlasV5" using spec assms(2) by (auto simp: resolve_spec_and_validate_def zk_spec_id_def Let_def)
  note v5 = spec [unfolded this] ex [unfolded this]
  obtain r' where r': "run_execution_and_commit c cr rv (flip_filtering honest) AtlasV5 db = Ok r'"
      "bc_commitment r' = v5_commitment c r (flip_filtering honest)"
    using flipped_run(2) [OF v5(2)] by blast
  let ?k = "chain_config_of_batch honest" and ?k' = "chain_config_of_batch (flip_filtering honest)"
  have "cc_l1_tx_filtering_enabled ?k' \<noteq> cc_l1_tx_filtering_enabled ?k" by (simp add: chain_config_of_batch_def Let_def)
  then have "chain_config_preimage CC_AtlasV5 ?k \<noteq> chain_config_preimage CC_AtlasV5 ?k'"
    by (auto simp: chain_config_preimage_inject committed_config_def)
  then have "chain_config_hash c CC_AtlasV5 ?k \<noteq> chain_config_hash c CC_AtlasV5 ?k'"
    using inj_onD [OF inj] by (auto simp: chain_config_hash_def flip_messages_def)
  then have "public_input_preimage (bc_state_before r) (bc_state_after r) (Some (chain_config_hash c CC_AtlasV5 ?k)) (bc_batch_hash r) \<noteq>
      public_input_preimage (bc_state_before r) (bc_state_after r) (Some (chain_config_hash c CC_AtlasV5 ?k')) (bc_batch_hash r)"
    by (simp add: public_input_preimage_inject)
  then have "bc_commitment r \<noteq> bc_commitment r'"
    using inj_onD [OF inj] unfolding flipped_run(1) [OF v5(2)] r'(2) v5_commitment_def batch_public_input_hash_def
    by (auto simp: flip_messages_def)
  moreover have "guest_commit c cr rv (flip_filtering honest) = Ok (bc_commitment r')"
    by (simp add: guest_commit_def execute_and_commit_def execute_and_commit_inner_def
        flipped_resolve [OF v5(1) assms(3)] flipped_build db r'(1))
  ultimately show ?thesis by (simp add: evaluate_def flip_oracle_def flip_digest classify_def)
qed

section \<open>An AtlasV5 batch\<close>

text \<open>
  An empty AtlasV5 batch under hash functions that tell apart what the theorem above needs told
  apart: the flag of a configuration and the configuration hash of a public input.
\<close>

definition v5_keccak :: "bytes \<Rightarrow> b256" where
  "v5_keccak bs = (if length bs = 192 then 1 + (if bs ! 159 = 0 then 0 else 1)
     else if length bs = 128 then 3 + (if bs ! 95 = 1 then 0 else 1) else 9)"

definition v5_crypto :: crypto where
  "v5_crypto = \<lparr>cr_node = \<lambda>_ _. 0, cr_blake2s = \<lambda>_. 0, cr_keccak256 = v5_keccak\<rparr>"

definition v5_proof :: storage_proof where
  "v5_proof = Existing \<lparr>sp_index = 0, sp_value = 0, sp_next_index = 0, sp_siblings = []\<rparr>"

lemma v5_verify: "verify v5_crypto v5_proof k = Ok (0, Some 0)"
proof -
  have "[0..<TREE_DEPTH] = [0..<63] @ [63]" by (simp add: TREE_DEPTH_def upt_Suc_append [symmetric] numeral_eq_Suc del: upt_Suc)
  then show ?thesis by (simp add: v5_proof_def recover_root_def recover_step_def v5_crypto_def case_prod_unfold)
qed

lemma v5_slot: "verify_slot v5_crypto v5_proof k 0 = Ok (Some 0)"
  by (simp add: verify_slot_def v5_verify)

definition v5_exec :: block_execution where
  "v5_exec = \<lparr>bx_tx_results = [], bx_tx_hashes = [], bx_receipt_leaves = [], bx_l2_to_l1_logs = [],
     bx_state_effects = \<lparr>se_storage_writes = [], se_destroyed_accounts = [], se_deployed_accounts = []\<rparr>\<rparr>"

definition v5_root :: b256 where
  "v5_root = (case block_tx_tree_root v5_crypto [] of Ok r \<Rightarrow> r | Err _ \<Rightarrow> 0)"

lemma v5_tree_root: "block_tx_tree_root v5_crypto [] = Ok v5_root"
  by (simp add: v5_root_def block_tx_tree_root_def merkle_root_def block_empty_subtree_hashes_def)

definition v5_block :: block_input where
  "v5_block = (let block = sample_block\<lparr>bi_account_preimages := [(HISTORY_STORAGE_ADDRESS, ap_encode sample_account)],
       bi_storage_proofs := [(0, v5_proof)]\<rparr>
     in block\<lparr>bi_block_header_hash := compute_block_header_hash v5_crypto (block_header_args block 0 v5_root v5_root v5_exec)\<rparr>)"

definition v5_meta :: batch_meta where
  "v5_meta = sample_meta\<lparr>bm_tree_root_before := 0, bm_block_hashes_blake_before := 0, bm_max_tx_gas_limit := DEFAULT_MAX_TX_GAS_LIMIT,
     bm_interop_proofs := Some \<lparr>isp_sl_chain_id = v5_proof, isp_multichain_height = v5_proof, isp_multichain_root = v5_proof,
       isp_commitment_tree = Some \<lparr>ict_height_begin = v5_proof, ict_root_begin = v5_proof, ict_height_end = v5_proof,
         ict_root_end = v5_proof\<rparr>\<rparr>\<rparr>"

definition v5_batch :: batch_input where
  "v5_batch = sample_batch\<lparr>in_spec_id := 4, in_protocol_version_minor := 34, in_blocks := [v5_block], in_batch_meta := v5_meta\<rparr>"

lemma v5_block_sel [simp]:
  "bi_number v5_block = 1" "bi_timestamp v5_block = 10" "bi_gas_limit v5_block = 0" "bi_base_fee v5_block = 0"
  "bi_transactions v5_block = []" "bi_block_hashes v5_block = []" "bi_expected_tree_root v5_block = 0"
  "bi_account_preimages v5_block = [(HISTORY_STORAGE_ADDRESS, ap_encode sample_account)]"
  "bi_storage_proofs v5_block = [(0, v5_proof)]"
  by (simp_all add: v5_block_def sample_block_def)

lemma v5_batch_sel [simp]:
  "in_version v5_batch = 6" "in_chain_id v5_batch = 270" "in_spec_id v5_batch = 4" "in_protocol_version_minor v5_batch = 34"
  "in_blocks v5_batch = [v5_block]" "in_batch_meta v5_batch = v5_meta" "in_bytecodes v5_batch = []"
  by (simp_all add: v5_batch_def sample_batch_def)

lemma v5_enabled [simp]: "sc_is_enabled_in sample_revm s AtlasV5"
  by (cases s) (simp_all add: sample_revm_def)

lemma v5_resolve: "resolve_spec_and_validate sample_revm v5_batch = Ok AtlasV5"
  by (simp add: resolve_spec_and_validate_def SUPPORTED_BATCH_INPUT_VERSIONS_def wire_versions newest_spec_of_version_def
      zk_spec_id_def validate_block_sequence_def validate_expected_tree_roots_def validate_atlas_v4_block_invariants_def
      ATLAS_V5_MIN_PROTOCOL_MINOR_def windows2_def)
     (simp add: v5_meta_def sample_meta_def PUBDATA_CONTENT_FULL_def MAX_BLOCK_GAS_LIMIT_def MAX_TX_GAS_LIMIT_def)

definition v5_db :: proven_db where
  "v5_db = \<lparr>pd_verified_storage = [0 \<mapsto> Some 0],
     pd_verified_accounts = \<lparr>va_infos = [HISTORY_STORAGE_ADDRESS \<mapsto>
         Some \<lparr>ai_nonce = 1, ai_balance = 2, ai_code_hash = KECCAK_EMPTY, ai_code = None\<rparr>],
       va_code_fields = [HISTORY_STORAGE_ADDRESS \<mapsto> code_fields_empty]\<rparr>,
     pd_bytecodes = Map.empty, pd_block_hashes = Map.empty\<rparr>"

lemma v5_build: "build_proven_db v5_crypto v5_batch = Ok v5_db"
proof -
  have storage: "collect_storage v5_crypto v5_batch = Ok [0 \<mapsto> Some 0]"
    by (simp add: collect_storage_def add_proof_def verify_storage_proof_def v5_verify expected_root_for_block_def v5_meta_def)
  have key: "derive_account_properties_key v5_crypto a = 0" "ap_hash v5_crypto bs = 0" for a bs
    by (simp_all add: derive_account_properties_key_def derive_flat_storage_key_def ap_hash_def v5_crypto_def)
  have "build_verified_accounts v5_crypto (in_blocks v5_batch) [0 \<mapsto> Some 0] Map.empty = Ok (pd_verified_accounts v5_db)"
    by (simp add: build_verified_accounts_def verify_account_def key decode_encode account_info_of_def sample_account_def
        code_fields_of_def code_fields_empty_def v5_db_def)
  moreover have "verify_witness_block_hashes (in_blocks v5_batch) (in_batch_meta v5_batch) = Ok ()"
    by (simp add: verify_witness_block_hashes_def)
  moreover have "load_bytecodes v5_crypto (in_bytecodes v5_batch) = Ok Map.empty" by (simp add: load_bytecodes_def)
  ultimately show ?thesis unfolding build_proven_db_def by (simp add: storage from_parts_def) (simp add: v5_db_def)
qed

lemma v5_keccak_nonzero: "v5_keccak bs \<noteq> 0"
  by (simp add: v5_keccak_def)

lemma v5_header: "bi_block_header_hash v5_block =
    compute_block_header_hash v5_crypto (block_header_args v5_block 0 v5_root v5_root v5_exec)"
  by (simp add: v5_block_def block_header_args_def Let_def)

definition v5_result :: block_result where
  "v5_result = \<lparr>br_block_number = 1, br_computed_block_header_hash = bi_block_header_hash v5_block,
     br_tx_results = [], br_l2_to_l1_logs = []\<rparr>"

lemma v5_execute:
  "execute_block_proven v5_crypto sample_crates sample_revm 270 AtlasV5 v5_block (Some cap) False
     \<lparr>cd_db = set_block_hashes Map.empty v5_db, cd_accounts = []\<rparr> =
   Ok ((v5_result, \<lparr>se_storage_writes = [], se_destroyed_accounts = [], se_deployed_accounts = []\<rparr>),
     \<lparr>cd_db = set_block_hashes Map.empty v5_db, cd_accounts = []\<rparr>)"
proof -
  let ?cache = "\<lparr>cd_db = set_block_hashes Map.empty v5_db, cd_accounts = []\<rparr> :: cache_db"
  have history: "apply_pre_block_write v5_crypto sample_revm 1 h ?cache = Ok (None, ?cache)" for h
    by (simp add: apply_pre_block_write_def basic_ref_def history_is_contract_def pre_state_code_fields_def v5_db_def
        set_block_hashes_def code_fields_empty_def)
  have evm: "run_evm_block v5_crypto sample_crates sample_revm 270 AtlasV5 v5_block (Some cap) False ?cache = Ok (v5_exec, ?cache)"
    by (simp add: run_evm_block_def initial_evm_loop_def net_storage_writes_def v5_exec_def)
       (simp add: sample_revm_def)
  have "bi_block_header_hash v5_block \<noteq> 0"
    using v5_keccak_nonzero by (simp add: v5_header compute_block_header_hash_def v5_crypto_def)
  moreover have "parent_hash_of (set_block_hashes Map.empty v5_db) 1 = 0"
    by (simp add: parent_hash_of_def block_hash_ref_def set_block_hashes_def)
  moreover have "bx_tx_hashes v5_exec = []" "bx_receipt_leaves v5_exec = []" "bx_tx_results v5_exec = []" "bx_l2_to_l1_logs v5_exec = []"
    "bx_state_effects v5_exec = \<lparr>se_storage_writes = [], se_destroyed_accounts = [], se_deployed_accounts = []\<rparr>"
    by (simp_all add: v5_exec_def)
  ultimately show ?thesis
    by (simp add: execute_block_proven_def history evm header_roots_def v5_tree_root v5_header [symmetric] merge_pre_block_write_def
        v5_result_def)
qed

definition v5_loop :: batch_loop where
  "v5_loop = \<lparr>lp_cache = \<lparr>cd_db = insert_block_hash 1 (bi_block_header_hash v5_block) (set_block_hashes Map.empty v5_db), cd_accounts = []\<rparr>,
     lp_block_results = [v5_result], lp_computed_block_hashes = [1 \<mapsto> bi_block_header_hash v5_block],
     lp_storage_writes = [], lp_destroyed_accounts = [], lp_deployed_accounts = []\<rparr>"

lemma v5_run_blocks: "run_blocks v5_crypto sample_crates sample_revm v5_batch AtlasV5 v5_db (replicate 256 0) = Ok v5_loop"
proof -
  have "bm_large_contracts_enabled v5_meta = False" by (simp add: v5_meta_def sample_meta_def)
  then show ?thesis
    by (simp add: run_blocks_def sample_pre_batch new_cache_db_def run_block_def verify_intra_batch_hashes_def initial_loop_def
        v5_execute v5_loop_def Let_def) (simp add: v5_result_def)
qed

lemma v5_interop:
  "\<exists>d. derive_interop v5_crypto sample_revm AtlasV5 v5_meta 0 = Ok d"
proof -
  have "derive_merkle_engine_root v5_crypto a h b v5_proof v5_proof 0 = Ok 0" for a h b
    by (simp add: derive_merkle_engine_root_def v5_slot or_zero_def)
  moreover obtain v where "derive_sl_chain_id v5_crypto v5_proof 0 = Ok v"
    by (simp add: derive_sl_chain_id_def v5_slot or_zero_def zeros_def)
  ultimately show ?thesis
    by (simp add: derive_interop_def v5_meta_def derive_multichain_root_def derive_interop_commitment_tree_roots_def)
qed

lemma v5_run: "\<exists>r. execute_and_commit_inner v5_crypto sample_crates sample_revm v5_batch = Ok r"
proof -
  have meta: "bm_upgrade_tx_hash v5_meta = 0" "bm_da_commitment_scheme v5_meta = 0" "bm_block_hashes_blake_before v5_meta = 0"
    by (simp_all add: v5_meta_def sample_meta_def)
  have ring: "verify_block_hashes_blake_before v5_crypto v5_meta v5_block = Ok (replicate 256 0)"
    by (simp add: verify_block_hashes_blake_before_def reconstruct_ring_def meta block_hashes_blake_def v5_crypto_def)
  have post: "verify_post_state v5_crypto v5_meta v5_loop = Ok (0, 3)"
    by (simp add: verify_post_state_def build_revm_write_map_def collect_map_def storage_write_map_def v5_loop_def
        verify_tree_update_def v5_meta_def sample_meta_def)
  have res: "lp_block_results v5_loop = [v5_result]" "br_l2_to_l1_logs v5_result = []"
    by (simp_all add: v5_loop_def v5_result_def)
  let ?hist = "(\<lambda>_. 0)(1 := result_hash v5_result)"
  have w: "replicate 256 0 = ring_window ?hist (uint (1 :: u64))"
    by (rule nth_equalityI) (simp_all add: ring_window_nth)
  obtain blake where "reconstruct_block_hashes_blake_after v5_crypto 1 1 (replicate 256 0) (lp_computed_block_hashes v5_loop)
      (result_hash v5_result) = Ok blake"
    using ring_after_window [OF w, of 1 "lp_computed_block_hashes v5_loop" "result_hash v5_result" v5_crypto] by auto
  moreover have "count_transactions v5_crypto abi 0 [v5_block] = Ok \<lparr>ct_l1_tx_hashes = [], ct_num_l1_txs = 0, ct_num_l2_txs = 0,
      ct_num_upgrade_txs = 0, ct_interop_roots_rolling_hash = 0\<rparr>" for abi
    by (simp add: count_transactions_def)
  moreover obtain root where "l2_to_l1_logs_root v5_crypto [] = Ok root" using l2_to_l1_logs_root_eq [of v5_crypto "[]"] by simp
  moreover obtain d where "derive_interop v5_crypto sample_revm AtlasV5 v5_meta 0 = Ok d" using v5_interop by blast
  moreover have "\<exists>r. fixed_height_keccak_root v5_crypto [w, x, y, z] CHAIN_BATCH_ROOT_EMPTY_SUBTREE_HASHES = Ok r" for w x y z
    by (simp add: fixed_height_keccak_root_def CHAIN_BATCH_ROOT_EMPTY_SUBTREE_HASHES_def)
  ultimately show ?thesis
    by (simp add: execute_and_commit_inner_def v5_resolve v5_build run_execution_and_commit_def ring v5_run_blocks post meta res
      logs_root_hash_def da_commitment_def Let_def)
qed

lemma v5_messages: "inj_on (cr_keccak256 v5_crypto) (flip_messages v5_crypto r v5_batch)"
proof -
  let ?k = "chain_config_of_batch v5_batch" and ?k' = "chain_config_of_batch (flip_filtering v5_batch)"
  have flag: "\<not> bm_l1_tx_filtering_enabled v5_meta" by (simp add: v5_meta_def sample_meta_def)
  have len: "length (chain_config_preimage CC_AtlasV5 k) = 192" for k by (simp add: chain_config_preimage_def Let_def)
  have at: "chain_config_preimage CC_AtlasV5 k ! 159 = bool_byte (cc_l1_tx_filtering_enabled k)" for k
    by (simp add: chain_config_preimage_def Let_def)
  have cfg: "v5_keccak (chain_config_preimage CC_AtlasV5 k) = (if cc_l1_tx_filtering_enabled k then 2 else 1)" for k
    by (simp add: v5_keccak_def len at bool_byte_def)
  have flags: "\<not> cc_l1_tx_filtering_enabled ?k" "cc_l1_tx_filtering_enabled ?k'"
    using flag by (simp_all add: chain_config_of_batch_def Let_def)
  have "bytes32 1 ! 31 = 1" "bytes32 2 ! 31 = 2" by (simp_all add: bytes32_low)
  then have pub: "v5_keccak (public_input_preimage s t (Some 1) b) = 3" "v5_keccak (public_input_preimage s t (Some 2) b) = 4" for s t b
    by (simp_all add: v5_keccak_def public_input_preimage_def nth_append)
  have k: "cr_keccak256 v5_crypto = v5_keccak" by (simp add: v5_crypto_def)
  show ?thesis
    unfolding flip_messages_def chain_config_hash_def k cfg using flags by (simp add: cfg pub inj_on_def)
qed

theorem filtering_flag_reported_witness:
  "\<exists>r h. execute_and_commit_inner v5_crypto sample_crates sample_revm v5_batch = Ok r \<and>
    evaluate v5_crypto sample_crates sample_revm v5_batch
      \<lparr>hr_statement = statement_digest v5_crypto v5_batch, hr_commitment = bc_commitment r\<rparr> flip_oracle =
      Judged (AcceptedDifferent (bc_commitment r) h)"
proof -
  obtain r where r: "execute_and_commit_inner v5_crypto sample_crates sample_revm v5_batch = Ok r" using v5_run by blast
  then show ?thesis using filtering_flag_reported [OF r _ _ v5_messages] by auto
qed

end
