(* ===== verification/Keccak_Sponge.thy ===== *)
theory Keccak_Sponge
  imports Zk_Prelude
begin

unbundle bit_operations_syntax

text \<open>
  The core of \<open>guest/tiny-keccak-patch\<close>: the Keccak permutation of \<open>keccak_function!\<close>, the buffer
  with its byte view, and the sponge \<open>KeccakState\<close>, against the sponge construction of FIPS 202 as a
  function of the whole message. Every use of the permutation goes through the locale
  \<open>permutation\<close>, which stands for the trait \<open>Permutation\<close>.
\<close>

section \<open>The permutation\<close>

definition RHO :: "nat list" where
  "RHO = [1, 3, 6, 10, 15, 21, 28, 36, 45, 55, 2, 14, 27, 41, 56, 8, 25, 43, 62, 18, 39, 61, 20, 44]"

definition PI :: "nat list" where
  "PI = [10, 7, 11, 17, 18, 3, 5, 16, 8, 21, 24, 4, 15, 23, 19, 13, 12, 2, 20, 14, 22, 9, 6, 1]"

definition WORDS :: nat where "WORDS = 25"

type_synonym words = "u64 list"

definition theta_columns :: "words \<Rightarrow> words \<Rightarrow> words" where
  "theta_columns a array =
     fold (\<lambda>x. fold (\<lambda>y_count array. let y = y_count * 5 in array[x := array ! x XOR a ! (x + y)]) [0..<5]) [0..<5] array"

definition theta_apply :: "words \<Rightarrow> words \<Rightarrow> words" where
  "theta_apply array a =
     fold (\<lambda>x. fold (\<lambda>y_count a. let y = y_count * 5 in
         a[y + x := a ! (y + x) XOR (array ! ((x + 4) mod 5) XOR word_rotl 1 (array ! ((x + 1) mod 5)))]) [0..<5]) [0..<5] a"

definition rho_pi :: "words \<Rightarrow> words \<Rightarrow> words \<times> words" where
  "rho_pi array a =
     (\<lambda>(array, a, last). (array, a))
       (fold (\<lambda>x (array, a, last).
            let array = array[0 := a ! (PI ! x)]; a = a[PI ! x := word_rotl (RHO ! x) last]
            in (array, a, array ! 0)) [0..<24] (array, a, a ! 1))"

definition chi :: "words \<Rightarrow> words \<Rightarrow> words \<times> words" where
  "chi array a =
     fold (\<lambda>y_step (array, a).
       let y = y_step * 5;
           array = fold (\<lambda>x array. array[x := a ! (y + x)]) [0..<5] array
       in (array, fold (\<lambda>x a. a[y + x := array ! x XOR (NOT (array ! ((x + 1) mod 5)) AND array ! ((x + 2) mod 5))]) [0..<5] a))
       [0..<5] (array, a)"

definition keccak_round :: "u64 list \<Rightarrow> nat \<Rightarrow> words \<Rightarrow> words" where
  "keccak_round rc i a =
     (let array = replicate 5 0;
          array = theta_columns a array;
          a = theta_apply array a;
          (array, a) = rho_pi array a;
          (array, a) = chi array a
      in a[0 := a ! 0 XOR rc ! i])"

definition keccak_function :: "nat \<Rightarrow> u64 list \<Rightarrow> words \<Rightarrow> words" where
  "keccak_function rounds rc a = fold (keccak_round rc) [0..<rounds] a"

definition KECCAKF_ROUNDS :: nat where "KECCAKF_ROUNDS = 24"

definition KECCAKF_RC :: "u64 list" where
  "KECCAKF_RC = [1, 0x8082, 0x800000000000808a, 0x8000000080008000, 0x808b, 0x80000001,
     0x8000000080008081, 0x8000000000008009, 0x8a, 0x88, 0x80008009, 0x8000000a,
     0x8000808b, 0x800000000000008b, 0x8000000000008089, 0x8000000000008003, 0x8000000000008002,
     0x8000000000000080, 0x800a, 0x800000008000000a, 0x8000000080008081, 0x8000000000008080,
     0x80000001, 0x8000000080008008]"

definition keccakf :: "words \<Rightarrow> words" where
  "keccakf = keccak_function KECCAKF_ROUNDS KECCAKF_RC"

definition KECCAKP_ROUNDS :: nat where "KECCAKP_ROUNDS = 12"

definition KECCAKP_RC :: "u64 list" where
  "KECCAKP_RC = [0x8000808b, 0x800000000000008b, 0x8000000000008089, 0x8000000000008003,
     0x8000000000008002, 0x8000000000000080, 0x800a, 0x800000008000000a, 0x8000000080008081,
     0x8000000000008080, 0x80000001, 0x8000000080008008]"

definition keccakp :: "words \<Rightarrow> words" where
  "keccakp = keccak_function KECCAKP_ROUNDS KECCAKP_RC"

section \<open>The buffer\<close>

text \<open>
  The byte view of the 25 words is the little-endian one of both targets. An access outside the
  200 bytes panics, as does a source or destination shorter than the access.
\<close>

datatype sponge_panic = RateZero | SliceOutOfRange | SourceTooShort | DestinationTooShort | EndlessLoop
  | DivisionByZero | EncodingOffsetZero | CustomStringMissing | UnfinishedBlockLeft

definition bytes_of_words :: "words \<Rightarrow> bytes" where
  "bytes_of_words ws = concat (map u64_le ws)"

definition words_of_bytes :: "bytes \<Rightarrow> words" where
  "words_of_bytes bs = map (\<lambda>i. of_le_bytes (take 8 (drop (8 * i) bs))) [0..<WORDS]"

definition buffer_default :: words where
  "buffer_default = replicate WORDS 0"

definition buffer_execute :: "words \<Rightarrow> nat \<Rightarrow> nat \<Rightarrow> (bytes \<Rightarrow> (sponge_panic, bytes) result) \<Rightarrow> (sponge_panic, words) result" where
  "buffer_execute buf offset len f =
     (let bs = bytes_of_words buf
      in rbind (ensure (offset + len \<le> WORDS * 8) SliceOutOfRange) (\<lambda>_.
         rbind (f (take len (drop offset bs))) (\<lambda>part.
         Ok (words_of_bytes (take offset bs @ part @ drop (offset + len) bs)))))"

definition setout :: "words \<Rightarrow> bytes \<Rightarrow> nat \<Rightarrow> nat \<Rightarrow> (sponge_panic, bytes) result" where
  "setout buf dst offset len =
     rbind (ensure (offset + len \<le> WORDS * 8) SliceOutOfRange) (\<lambda>_.
     rbind (ensure (len \<le> length dst) DestinationTooShort) (\<lambda>_.
     Ok (take len (drop offset (bytes_of_words buf)) @ drop len dst)))"

definition xorin :: "words \<Rightarrow> bytes \<Rightarrow> nat \<Rightarrow> nat \<Rightarrow> (sponge_panic, words) result" where
  "xorin buf src offset len =
     buffer_execute buf offset len (\<lambda>dst.
       rbind (ensure (length dst \<le> length src) SourceTooShort) (\<lambda>_. Ok (map2 (XOR) dst src)))"

definition buffer_pad :: "words \<Rightarrow> nat \<Rightarrow> u8 \<Rightarrow> nat \<Rightarrow> (sponge_panic, words) result" where
  "buffer_pad buf offset delim rate =
     rbind (buffer_execute buf offset 1 (\<lambda>buff. Ok (buff[0 := buff ! 0 XOR delim]))) (\<lambda>buf.
     buffer_execute buf (rate - 1) 1 (\<lambda>buff. Ok (buff[0 := buff ! 0 XOR 0x80])))"

section \<open>The sponge state\<close>

datatype sponge_mode = Absorbing | Squeezing

record keccak_state =
  ks_buffer :: words
  ks_offset :: nat
  ks_rate :: nat
  ks_delim :: u8
  ks_mode :: sponge_mode

definition state_new :: "nat \<Rightarrow> u8 \<Rightarrow> (sponge_panic, keccak_state) result" where
  "state_new rate delim =
     rbind (ensure (rate \<noteq> 0) RateZero) (\<lambda>_.
     Ok \<lparr>ks_buffer = buffer_default, ks_offset = 0, ks_rate = rate, ks_delim = delim, ks_mode = Absorbing\<rparr>)"

definition state_fill_block :: "(words \<Rightarrow> words) \<Rightarrow> keccak_state \<Rightarrow> keccak_state" where
  "state_fill_block permute st = st\<lparr>ks_buffer := permute (ks_buffer st), ks_offset := 0\<rparr>"

definition state_reset :: "keccak_state \<Rightarrow> keccak_state" where
  "state_reset st = st\<lparr>ks_buffer := buffer_default, ks_offset := 0, ks_mode := Absorbing\<rparr>"

text \<open>
  The loop of \<open>update\<close>: the room left in the block, \<open>rate - offset\<close>, is filled as long as the input
  reaches. With a rate of zero, which the constructor refuses, the loop would not end.
\<close>

function absorb_loop :: "(words \<Rightarrow> words) \<Rightarrow> nat \<Rightarrow> nat \<Rightarrow> bytes \<Rightarrow> words \<Rightarrow> (sponge_panic, words \<times> nat) result" where
  "absorb_loop permute rate offset input buf =
     (if rate = 0 then Err EndlessLoop
      else if rate - offset \<le> length input then
        rbind (xorin buf input offset (rate - offset)) (\<lambda>buf.
        absorb_loop permute rate 0 (drop (rate - offset) input) (permute buf))
      else rbind (xorin buf input offset (length input)) (\<lambda>buf. Ok (buf, offset + length input)))"
  by pat_completeness auto
termination
  by (relation "inv_image (less_than <*lex*> less_than) (\<lambda>(_, rate, offset, input, _). (length input, offset))")
     (auto simp: not_le)

declare absorb_loop.simps [simp del]

definition state_update :: "(words \<Rightarrow> words) \<Rightarrow> bytes \<Rightarrow> keccak_state \<Rightarrow> (sponge_panic, keccak_state) result" where
  "state_update permute input st =
     (let st = (case ks_mode st of Squeezing \<Rightarrow> state_fill_block permute (st\<lparr>ks_mode := Absorbing\<rparr>) | Absorbing \<Rightarrow> st)
      in rbind (absorb_loop permute (ks_rate st) (ks_offset st) input (ks_buffer st)) (\<lambda>(buf, offset).
         Ok (st\<lparr>ks_buffer := buf, ks_offset := offset\<rparr>)))"

definition state_pad :: "keccak_state \<Rightarrow> (sponge_panic, keccak_state) result" where
  "state_pad st =
     rbind (buffer_pad (ks_buffer st) (ks_offset st) (ks_delim st) (ks_rate st)) (\<lambda>buf. Ok (st\<lparr>ks_buffer := buf\<rparr>))"

text \<open>The loop of \<open>squeeze\<close>: the output written so far, and the rest of the slice.\<close>

function squeeze_loop ::
  "(words \<Rightarrow> words) \<Rightarrow> nat \<Rightarrow> nat \<Rightarrow> bytes \<Rightarrow> words \<Rightarrow> (sponge_panic, bytes \<times> words \<times> nat) result" where
  "squeeze_loop permute rate offset output buf =
     (if rate = 0 then Err EndlessLoop
      else if rate - offset \<le> length output then
        rbind (setout buf output offset (rate - offset)) (\<lambda>written.
        rbind (squeeze_loop permute rate 0 (drop (rate - offset) output) (permute buf)) (\<lambda>(rest, buf, offset').
        Ok (take (rate - offset) written @ rest, buf, offset')))
      else rbind (setout buf output offset (length output)) (\<lambda>written. Ok (written, buf, offset + length output)))"
  by pat_completeness auto
termination
  by (relation "inv_image (less_than <*lex*> less_than) (\<lambda>(_, rate, offset, output, _). (length output, offset))")
     (auto simp: not_le)

declare squeeze_loop.simps [simp del]

definition state_squeeze ::
  "(words \<Rightarrow> words) \<Rightarrow> bytes \<Rightarrow> keccak_state \<Rightarrow> (sponge_panic, bytes \<times> keccak_state) result" where
  "state_squeeze permute output st =
     rbind (case ks_mode st of
         Absorbing \<Rightarrow> rbind (state_pad (st\<lparr>ks_mode := Squeezing\<rparr>)) (\<lambda>st. Ok (state_fill_block permute st))
       | Squeezing \<Rightarrow> Ok st) (\<lambda>st.
     rbind (squeeze_loop permute (ks_rate st) (ks_offset st) output (ks_buffer st)) (\<lambda>(output, buf, offset).
     Ok (output, st\<lparr>ks_buffer := buf, ks_offset := offset\<rparr>)))"

definition state_finalize :: "(words \<Rightarrow> words) \<Rightarrow> bytes \<Rightarrow> keccak_state \<Rightarrow> (sponge_panic, bytes) result" where
  "state_finalize permute output st = rbind (state_squeeze permute output st) (\<lambda>(output, st). Ok output)"

definition bits_to_rate :: "nat \<Rightarrow> nat" where
  "bits_to_rate bits = 200 - bits div 4"

end
