(* ===== verification/Sponge_Spec.thy ===== *)
theory Sponge_Spec
  imports Keccak_Sponge
begin

unbundle bit_operations_syntax

text \<open>
  The sponge construction as a function of the whole message, and the proof that \<open>KeccakState\<close>
  computes it however the message is cut: \<open>sponge\<close> pads the message, xors it block by block into
  the state and reads the output from successive permutations. The lemmas live in the locale
  \<open>permutation\<close>; \<open>keccakf\<close> and \<open>keccakp\<close> interpret it.
\<close>

section \<open>Words and bytes\<close>

lemma length_concat_le: "length (concat (map u64_le ws)) = 8 * length ws"
  by (induction ws) simp_all

lemma length_bytes_of_words [simp]: "length (bytes_of_words ws) = 8 * length ws"
  by (simp add: bytes_of_words_def length_concat_le)

lemma length_words_of_bytes [simp]: "length (words_of_bytes bs) = WORDS"
  by (simp add: words_of_bytes_def)

lemma word_slice: "i < length ws \<Longrightarrow> take 8 (drop (8 * i) (concat (map u64_le ws))) = u64_le (ws ! i)"
proof (induction ws arbitrary: i)
  case (Cons w ws)
  then show ?case by (cases i) simp_all
qed simp

lemma words_of_bytes_of_words: "length ws = WORDS \<Longrightarrow> words_of_bytes (bytes_of_words ws) = ws"
  by (rule nth_equalityI) (simp_all add: words_of_bytes_def bytes_of_words_def word_slice)

lemma split_words: "length bs = 8 * n \<Longrightarrow> concat (map (\<lambda>i. take 8 (drop (8 * i) bs)) [0..<n]) = bs"
proof (induction n arbitrary: bs)
  case (Suc n)
  have "concat (map (\<lambda>i. take 8 (drop (8 * i) bs)) [0..<Suc n]) =
      concat (map (\<lambda>i. take 8 (drop (8 * i) (take (8 * n) bs))) [0..<n]) @ drop (8 * n) bs"
    using Suc.prems by (auto simp: drop_take intro!: arg_cong [where f = concat] map_cong)
  moreover have "concat (map (\<lambda>i. take 8 (drop (8 * i) (take (8 * n) bs))) [0..<n]) = take (8 * n) bs"
    using Suc.prems by (intro Suc.IH) simp
  ultimately show ?case by simp
qed simp

lemma bytes_of_words_of_bytes:
  assumes "length bs = 8 * WORDS"
  shows "bytes_of_words (words_of_bytes bs) = bs"
proof -
  have "u64_le (of_le_bytes (take 8 (drop (8 * i) bs)) :: u64) = take 8 (drop (8 * i) bs)" if "i < WORDS" for i
    using that assms by (intro le_of_le_bytes) auto
  then have "bytes_of_words (words_of_bytes bs) = concat (map (\<lambda>i. take 8 (drop (8 * i) bs)) [0..<WORDS])"
    by (auto simp: bytes_of_words_def words_of_bytes_def comp_def intro!: arg_cong [where f = concat] map_cong)
  then show ?thesis using split_words [OF assms] by simp
qed

section \<open>Xor at an offset\<close>

definition xor_at :: "bytes \<Rightarrow> nat \<Rightarrow> bytes \<Rightarrow> bytes" where
  "xor_at bs offset src = take offset bs @ map2 (XOR) (drop offset bs) src @ drop (offset + length src) bs"

definition xor_words :: "words \<Rightarrow> nat \<Rightarrow> bytes \<Rightarrow> words" where
  "xor_words ws offset src = words_of_bytes (xor_at (bytes_of_words ws) offset src)"

lemma length_xor_at [simp]: "offset + length src \<le> length bs \<Longrightarrow> length (xor_at bs offset src) = length bs"
  by (simp add: xor_at_def)

lemma length_xor_words [simp]: "length (xor_words ws offset src) = WORDS"
  by (simp add: xor_words_def)

lemma xor_at_nil [simp]: "xor_at bs offset [] = bs"
  by (simp add: xor_at_def)

lemma nth_xor_at:
  assumes "offset + length src \<le> length bs" and "i < length bs"
  shows "xor_at bs offset src ! i =
    (if offset \<le> i \<and> i < offset + length src then bs ! i XOR src ! (i - offset) else bs ! i)"
  using assms by (auto simp: xor_at_def nth_append min_def)

lemma xor_at_append:
  assumes "offset + length a + length b \<le> length bs"
  shows "xor_at (xor_at bs offset a) (offset + length a) b = xor_at bs offset (a @ b)"
  by (rule nth_equalityI) (use assms in \<open>auto simp: nth_xor_at nth_append\<close>)

lemma xor_words_append:
  assumes "length ws = WORDS" and "offset + length a + length b \<le> 200"
  shows "xor_words (xor_words ws offset a) (offset + length a) b = xor_words ws offset (a @ b)"
  using assms by (simp add: xor_words_def bytes_of_words_of_bytes xor_at_append WORDS_def)

lemma xor_words_nil: "length ws = WORDS \<Longrightarrow> xor_words ws offset [] = ws"
  by (simp add: xor_words_def words_of_bytes_of_words)

lemma xorin_Ok:
  assumes "length buf = WORDS" and "offset + len \<le> 200" and "len \<le> length src"
  shows "xorin buf src offset len = Ok (xor_words buf offset (take len src))"
proof -
  have "map2 (XOR) (take len (drop offset bs)) src = map2 (XOR) (drop offset bs) (take len src)" for bs :: bytes
    by (rule nth_equalityI) auto
  moreover have "length (take len (drop offset (bytes_of_words buf))) = len" using assms by (simp add: WORDS_def)
  ultimately show ?thesis
    using assms by (simp add: xorin_def buffer_execute_def xor_words_def xor_at_def WORDS_def Let_def)
qed

lemma execute_one:
  assumes "length buf = WORDS" and "offset < 200"
  shows "buffer_execute buf offset 1 (\<lambda>buff. Ok (buff[0 := buff ! 0 XOR x])) = Ok (xor_words buf offset [x])"
proof -
  have "take 1 (drop offset (bytes_of_words buf)) = [bytes_of_words buf ! offset]"
    using assms by (intro nth_equalityI) (auto simp: WORDS_def)
  moreover have "map2 (XOR) (drop offset (bytes_of_words buf)) [x] = [bytes_of_words buf ! offset XOR x]"
    using assms by (intro nth_equalityI) (auto simp: WORDS_def)
  ultimately show ?thesis
    using assms by (simp add: buffer_execute_def xor_words_def xor_at_def WORDS_def Let_def)
qed

text \<open>Xor with zeros changes nothing, so delimiter and final bit can be xored one by one.\<close>

lemma xor_at_zeros: "xor_at bs offset (zeros n) = bs" if "offset + n \<le> length bs"
  by (rule nth_equalityI) (use that in \<open>auto simp: nth_xor_at zeros_def\<close>)

lemma xor_at_same:
  assumes "offset < length bs"
  shows "xor_at (xor_at bs offset [x]) offset [y] = xor_at bs offset [x XOR y]"
  by (rule nth_equalityI) (use assms in \<open>auto simp: nth_xor_at xor.assoc\<close>)

lemma xor_words_zeros: "length ws = WORDS \<Longrightarrow> offset + n \<le> 200 \<Longrightarrow> xor_words ws offset (zeros n) = ws"
  by (simp add: xor_words_def xor_at_zeros WORDS_def words_of_bytes_of_words)

section \<open>The construction\<close>

text \<open>
  A message is padded with the delimiter, zeros and the final bit; every block is xored into the
  front of the state and permuted; output byte \<open>j\<close> is byte \<open>j mod rate\<close> of the state after
  \<open>j div rate\<close> more permutations.
\<close>

function sponge_blocks :: "nat \<Rightarrow> bytes \<Rightarrow> bytes list" where
  "sponge_blocks rate bs =
     (if rate = 0 \<or> length bs < rate then [] else take rate bs # sponge_blocks rate (drop rate bs))"
  by pat_completeness auto
termination by (relation "measure (\<lambda>(rate, bs). length bs)") auto

declare sponge_blocks.simps [simp del]

definition pad_tail :: "nat \<Rightarrow> u8 \<Rightarrow> bytes" where
  "pad_tail n delim = (if n = 1 then [delim XOR 0x80] else delim # zeros (n - 2) @ [0x80])"

definition pad_message :: "nat \<Rightarrow> u8 \<Rightarrow> bytes \<Rightarrow> bytes" where
  "pad_message rate delim m = m @ pad_tail (rate - length m mod rate) delim"

definition absorb_block :: "(words \<Rightarrow> words) \<Rightarrow> bytes \<Rightarrow> words \<Rightarrow> words" where
  "absorb_block permute block ws = permute (xor_words ws 0 block)"

definition out_byte :: "(words \<Rightarrow> words) \<Rightarrow> nat \<Rightarrow> words \<Rightarrow> nat \<Rightarrow> u8" where
  "out_byte permute rate ws j = bytes_of_words ((permute ^^ (j div rate)) ws) ! (j mod rate)"

definition sponge_core :: "(words \<Rightarrow> words) \<Rightarrow> nat \<Rightarrow> u8 \<Rightarrow> bytes \<Rightarrow> words" where
  "sponge_core permute rate delim m = fold (absorb_block permute) (sponge_blocks rate (pad_message rate delim m)) buffer_default"

definition sponge :: "(words \<Rightarrow> words) \<Rightarrow> nat \<Rightarrow> u8 \<Rightarrow> bytes \<Rightarrow> nat \<Rightarrow> bytes" where
  "sponge permute rate delim m n = map (out_byte permute rate (sponge_core permute rate delim m)) [0..<n]"

text \<open>The blocks of a message and the rest it leaves.\<close>

definition rest :: "nat \<Rightarrow> bytes \<Rightarrow> bytes" where
  "rest rate m = drop (length m div rate * rate) m"

lemma length_rest [simp]: "length (rest rate m) = length m mod rate"
  by (simp add: rest_def minus_div_mult_eq_mod)

lemma rest_short: "length m < rate \<Longrightarrow> rest rate m = m"
  by (simp add: rest_def)

lemma rest_step: "0 < rate \<Longrightarrow> rate \<le> length m \<Longrightarrow> rest rate m = rest rate (drop rate m)"
  by (simp add: rest_def le_div_geq add.commute)

lemma blocks_short: "length m < rate \<Longrightarrow> sponge_blocks rate m = []"
  by (subst sponge_blocks.simps) simp

lemma blocks_step: "0 < rate \<Longrightarrow> rate \<le> length m \<Longrightarrow> sponge_blocks rate m = take rate m # sponge_blocks rate (drop rate m)"
  by (subst sponge_blocks.simps) simp

lemma blocks_append:
  assumes "0 < rate"
  shows "sponge_blocks rate (m @ x) = sponge_blocks rate m @ sponge_blocks rate (rest rate m @ x)"
    and "rest rate (m @ x) = rest rate (rest rate m @ x)"
proof -
  have "sponge_blocks rate (m @ x) = sponge_blocks rate m @ sponge_blocks rate (rest rate m @ x) \<and>
      rest rate (m @ x) = rest rate (rest rate m @ x)"
  proof (induction "length m" arbitrary: m rule: less_induct)
    case less
    show ?case
    proof (cases "length m < rate")
      case True
      then show ?thesis by (simp add: blocks_short rest_short)
    next
      case False
      then show ?thesis
        using less [of "drop rate m"] assms by (simp add: blocks_step [of rate m] blocks_step [of rate "m @ x"]
            rest_step [of rate m] rest_step [of rate "m @ x"])
    qed
  qed
  then show "sponge_blocks rate (m @ x) = sponge_blocks rate m @ sponge_blocks rate (rest rate m @ x)"
    and "rest rate (m @ x) = rest rate (rest rate m @ x)" by blast+
qed

lemma length_pad_tail: "0 < n \<Longrightarrow> length (pad_tail n delim) = n"
  by (auto simp: pad_tail_def)

lemma blocks_padded:
  assumes "0 < rate"
  shows "sponge_blocks rate (pad_message rate delim m) =
    sponge_blocks rate m @ [rest rate m @ pad_tail (rate - length m mod rate) delim]"
proof -
  have "length (rest rate m @ pad_tail (rate - length m mod rate) delim) = rate"
    using assms by (simp add: length_pad_tail)
  then show ?thesis
    using assms blocks_append(1) [OF assms, of m "pad_tail (rate - length m mod rate) delim"]
    by (simp add: pad_message_def blocks_step blocks_short)
qed

lemma xor_words_pad:
  assumes "length t < rate" and "length ws = WORDS" and "0 < rate" and "rate \<le> 200"
  shows "xor_words (xor_words ws 0 (t @ [d])) (rate - 1) [0x80] = xor_words ws 0 (t @ pad_tail (rate - length t) d)"
proof (cases "rate - length t = 1")
  case True
  then have "rate - 1 = length t" by simp
  then have "xor_words (xor_words (xor_words ws 0 t) (length t) [d]) (rate - 1) [0x80] =
      xor_words (xor_words ws 0 t) (length t) [d XOR 0x80]"
    using assms by (simp add: xor_words_def bytes_of_words_of_bytes WORDS_def xor_at_same)
  then show ?thesis
    using True assms xor_words_append [of ws 0 t "[d]"] xor_words_append [of ws 0 t "[d XOR 0x80]"] by (simp add: pad_tail_def)
next
  case False
  define n where "n = rate - length t - 2"
  have r: "rate - 1 = length (t @ [d] @ zeros n)" "rate - length t = n + 2" using False assms(1) by (simp_all add: n_def)
  have "xor_words ws 0 (t @ [d]) = xor_words ws 0 (t @ [d] @ zeros n)"
    using xor_words_append [of ws 0 "t @ [d]" "zeros n"] xor_words_zeros [of "xor_words ws 0 (t @ [d])" "length (t @ [d])" n]
      assms r by simp
  then show ?thesis
    using xor_words_append [of ws 0 "t @ [d] @ zeros n" "[0x80]"] assms r by (simp add: pad_tail_def)
qed

lemma same_block:
  assumes "k mod rate + i < (rate :: nat)"
  shows "(k + i) mod rate = k mod rate + i" and "(k + i) div rate = k div rate"
proof -
  have eq: "k + i = (k mod rate + i) + rate * (k div rate)" by simp
  show "(k + i) mod rate = k mod rate + i"
    by (subst eq, subst mod_mult_self2, rule mod_less [OF assms])
  show "(k + i) div rate = k div rate"
    by (subst eq, subst div_mult_self2) (use assms in auto)
qed

lemma next_block:
  assumes "0 < (rate :: nat)"
  shows "(k + (rate - k mod rate)) mod rate = 0" and "(k + (rate - k mod rate)) div rate = Suc (k div rate)"
    and "k mod rate + (rate - k mod rate) = rate"
proof -
  define q r where "q = k div rate" and "r = k mod rate"
  have "k = rate * q + r" "r < rate" using assms by (simp_all add: q_def r_def)
  then have "k + (rate - r) = rate * Suc q" by simp
  then have "k + (rate - k mod rate) = rate * Suc (k div rate)" by (simp only: q_def r_def)
  then show "(k + (rate - k mod rate)) mod rate = 0" "(k + (rate - k mod rate)) div rate = Suc (k div rate)"
    using assms by simp_all
  show "k mod rate + (rate - k mod rate) = rate" using assms by (simp add: less_imp_le)
qed

section \<open>The state computes it\<close>

text \<open>
  \<open>absorbing st w m\<close>: the state has absorbed the message \<open>m\<close> from the words \<open>w\<close>; \<open>squeezing st w k\<close>: it
  has given out \<open>k\<close> bytes of the output that starts at the words \<open>w\<close>.
\<close>

definition absorbing :: "(words \<Rightarrow> words) \<Rightarrow> keccak_state \<Rightarrow> words \<Rightarrow> bytes \<Rightarrow> bool" where
  "absorbing permute st w m \<longleftrightarrow> ks_mode st = Absorbing \<and>
     ks_buffer st = xor_words (fold (absorb_block permute) (sponge_blocks (ks_rate st) m) w) 0 (rest (ks_rate st) m) \<and>
     ks_offset st = length m mod ks_rate st"

definition squeezing :: "(words \<Rightarrow> words) \<Rightarrow> keccak_state \<Rightarrow> words \<Rightarrow> nat \<Rightarrow> bool" where
  "squeezing permute st w k \<longleftrightarrow> ks_mode st = Squeezing \<and>
     ks_buffer st = (permute ^^ (k div ks_rate st)) w \<and> ks_offset st = k mod ks_rate st"

text \<open>Squeezing in pieces: the outputs are consecutive parts of one output.\<close>

primrec squeezes :: "(words \<Rightarrow> words) \<Rightarrow> bytes list \<Rightarrow> keccak_state \<Rightarrow> (sponge_panic, bytes list \<times> keccak_state) result" where
  "squeezes permute [] st = Ok ([], st)"
| "squeezes permute (outp # outps) st =
     rbind (state_squeeze permute outp st) (\<lambda>(bs, st). rbind (squeezes permute outps st) (\<lambda>(bss, st). Ok (bs # bss, st)))"

locale permutation =
  fixes permute :: "words \<Rightarrow> words"
  assumes permute_words: "length ws = WORDS \<Longrightarrow> length (permute ws) = WORDS"
begin

lemma fold_words: "length ws = WORDS \<Longrightarrow> length (fold (absorb_block permute) bs ws) = WORDS"
  by (induction bs arbitrary: ws) (simp_all add: absorb_block_def permute_words)

lemma power_words: "length ws = WORDS \<Longrightarrow> length ((permute ^^ n) ws) = WORDS"
  by (induction n) (simp_all add: permute_words)

lemma absorb_loop_Ok:
  assumes "0 < rate" "rate \<le> 200" "length ws = WORDS" "length t < rate"
  shows "absorb_loop permute rate (length t) x (xor_words ws 0 t) =
    Ok (xor_words (fold (absorb_block permute) (sponge_blocks rate (t @ x)) ws) 0 (rest rate (t @ x)), length (t @ x) mod rate)"
  using assms(3,4)
proof (induction "length x" arbitrary: x t ws rule: less_induct)
  case less
  show ?case
  proof (cases "rate - length t \<le> length x")
    case True
    let ?room = "rate - length t" and ?b = "take rate (t @ x)"
    have b: "xorin (xor_words ws 0 t) x (length t) ?room = Ok (xor_words ws 0 ?b)"
      using less.prems True assms(1,2) xor_words_append [of ws 0 t "take ?room x"] by (simp add: xorin_Ok)
    have w: "length (permute (xor_words ws 0 ?b)) = WORDS" by (simp add: permute_words)
    have "absorb_loop permute rate 0 (drop ?room x) (permute (xor_words ws 0 ?b)) =
        Ok (xor_words (fold (absorb_block permute) (sponge_blocks rate (drop ?room x)) (permute (xor_words ws 0 ?b))) 0
          (rest rate (drop ?room x)), length (drop ?room x) mod rate)"
      using less.hyps [of "drop ?room x" "permute (xor_words ws 0 ?b)" "[]"] less.prems True assms(1) w
      by (simp add: xor_words_nil)
    moreover have "drop rate (t @ x) = drop ?room x" "rate \<le> length (t @ x)" using less.prems True by simp_all
    moreover have "length (t @ x) mod rate = length (drop ?room x) mod rate"
      using less.prems True assms(1) by (simp add: le_mod_geq add.commute)
    ultimately show ?thesis
      using b True assms(1) by (subst absorb_loop.simps)
        (simp add: blocks_step [of rate "t @ x"] rest_step [of rate "t @ x"] absorb_block_def)
  next
    case False
    then have short: "length (t @ x) < rate" by simp
    have "xorin (xor_words ws 0 t) x (length t) (length x) = Ok (xor_words ws 0 (t @ x))"
      using less.prems short assms(2) xor_words_append [of ws 0 t x] by (simp add: xorin_Ok)
    then show ?thesis using False short assms(1) by (subst absorb_loop.simps) (simp add: blocks_short rest_short)
  qed
qed

lemma update_absorbs:
  assumes "absorbing permute st w m" "0 < ks_rate st" "ks_rate st \<le> 200" "length w = WORDS"
  shows "\<exists>st'. state_update permute x st = Ok st' \<and> absorbing permute st' w (m @ x) \<and>
    ks_rate st' = ks_rate st \<and> ks_delim st' = ks_delim st"
proof -
  let ?r = "ks_rate st" and ?ws = "fold (absorb_block permute) (sponge_blocks (ks_rate st) m) w"
  have "absorb_loop permute ?r (ks_offset st) x (ks_buffer st) =
      Ok (xor_words (fold (absorb_block permute) (sponge_blocks ?r (rest ?r m @ x)) ?ws) 0 (rest ?r (rest ?r m @ x)),
        length (rest ?r m @ x) mod ?r)"
    using absorb_loop_Ok [of ?r ?ws "rest ?r m" x] assms by (simp add: absorbing_def fold_words)
  then show ?thesis
    using assms(1,2) by (simp add: state_update_def absorbing_def blocks_append [of ?r m x] mod_simps)
qed

lemma updates_absorb:
  assumes "absorbing permute st w m" "0 < ks_rate st" "ks_rate st \<le> 200" "length w = WORDS"
  shows "\<exists>st'. foldR (state_update permute) xs st = Ok st' \<and> absorbing permute st' w (m @ concat xs) \<and>
    ks_rate st' = ks_rate st \<and> ks_delim st' = ks_delim st"
  using assms
proof (induction xs arbitrary: st m)
  case (Cons x xs)
  obtain st1 where st1: "state_update permute x st = Ok st1" "absorbing permute st1 w (m @ x)"
      "ks_rate st1 = ks_rate st" "ks_delim st1 = ks_delim st"
    using update_absorbs [OF Cons.prems] by blast
  then show ?case using Cons.IH [of st1 "m @ x"] Cons.prems by simp
qed auto

lemma new_absorbs: "0 < rate \<Longrightarrow> \<exists>st. state_new rate delim = Ok st \<and> absorbing permute st buffer_default [] \<and>
    ks_rate st = rate \<and> ks_delim st = delim"
  by (simp add: state_new_def absorbing_def blocks_short rest_short xor_words_nil buffer_default_def)

lemma pad_absorbs:
  assumes "absorbing permute st w m" "0 < ks_rate st" "ks_rate st \<le> 200" "length w = WORDS"
  shows "buffer_pad (ks_buffer st) (ks_offset st) (ks_delim st) (ks_rate st) =
    Ok (xor_words (fold (absorb_block permute) (sponge_blocks (ks_rate st) m) w) 0
      (rest (ks_rate st) m @ pad_tail (ks_rate st - length m mod ks_rate st) (ks_delim st)))"
proof -
  let ?r = "ks_rate st" and ?ws = "fold (absorb_block permute) (sponge_blocks (ks_rate st) m) w" and ?t = "rest (ks_rate st) m"
  let ?n = "?r - length ?t" and ?d = "ks_delim st"
  have t: "length ?t < ?r" and ws: "length ?ws = WORDS" using assms by (simp_all add: fold_words)
  have "buffer_execute (xor_words ?ws 0 ?t) (length ?t) 1 (\<lambda>buff. Ok (buff[0 := buff ! 0 XOR ?d])) = Ok (xor_words ?ws 0 (?t @ [?d]))"
    using t ws assms(3) xor_words_append [of ?ws 0 ?t "[?d]"] execute_one [of "xor_words ?ws 0 ?t" "length ?t" ?d] by simp
  moreover have "buffer_execute (xor_words ?ws 0 (?t @ [?d])) (?r - 1) 1 (\<lambda>buff. Ok (buff[0 := buff ! 0 XOR 0x80])) =
      Ok (xor_words (xor_words ?ws 0 (?t @ [?d])) (?r - 1) [0x80])"
    using assms(2,3) execute_one [of "xor_words ?ws 0 (?t @ [?d])" "?r - 1" "0x80"] by simp
  ultimately have "buffer_pad (xor_words ?ws 0 ?t) (length ?t) ?d ?r = Ok (xor_words (xor_words ?ws 0 (?t @ [?d])) (?r - 1) [0x80])"
    by (simp add: buffer_pad_def)
  moreover have "xor_words (xor_words ?ws 0 (?t @ [?d])) (?r - 1) [0x80] = xor_words ?ws 0 (?t @ pad_tail ?n ?d)"
    using t ws assms(2,3) by (rule xor_words_pad)
  ultimately show ?thesis using assms(1) by (simp add: absorbing_def)
qed

text \<open>Squeezing gives the output bytes in order, wherever it is interrupted.\<close>

lemma setout_Ok:
  assumes "length buf = WORDS" "offset + len \<le> 200" "len \<le> length dst"
  shows "setout buf dst offset len = Ok (map (\<lambda>i. bytes_of_words buf ! (offset + i)) [0..<len] @ drop len dst)"
proof -
  have "take len (drop offset (bytes_of_words buf)) = map (\<lambda>i. bytes_of_words buf ! (offset + i)) [0..<len]"
    by (rule nth_equalityI) (use assms in \<open>auto simp: WORDS_def\<close>)
  then show ?thesis using assms by (simp add: setout_def WORDS_def)
qed

lemma out_bytes_in_block:
  assumes "k mod rate + len \<le> rate" "0 < rate"
  shows "map (\<lambda>i. bytes_of_words ((permute ^^ (k div rate)) w) ! (k mod rate + i)) [0..<len] =
    map (out_byte permute rate w) [k..<k + len]"
proof (rule nth_equalityI)
  fix i assume "i < length (map (\<lambda>i. bytes_of_words ((permute ^^ (k div rate)) w) ! (k mod rate + i)) [0..<len])"
  then have i: "i < len" by simp
  then have "k mod rate + i < rate" using assms(1) by simp
  note same_block [OF this]
  then show "map (\<lambda>i. bytes_of_words ((permute ^^ (k div rate)) w) ! (k mod rate + i)) [0..<len] ! i =
      map (out_byte permute rate w) [k..<k + len] ! i" using i by (simp add: out_byte_def)
qed simp

lemma squeeze_loop_Ok:
  assumes "0 < rate" "rate \<le> 200" "length w = WORDS"
  shows "squeeze_loop permute rate (k mod rate) outp ((permute ^^ (k div rate)) w) =
    Ok (map (out_byte permute rate w) [k..<k + length outp], (permute ^^ ((k + length outp) div rate)) w,
      (k + length outp) mod rate)"
proof (induction "length outp" arbitrary: outp k rule: less_induct)
  case less
  let ?buf = "(permute ^^ (k div rate)) w" and ?n = "length outp"
  have buf: "length ?buf = WORDS" using assms(3) by (rule power_words)
  have off: "k mod rate < rate" using assms(1) by simp
  show ?case
  proof (cases "rate - k mod rate \<le> ?n")
    case True
    let ?room = "rate - k mod rate"
    note k' = next_block [OF assms(1), of k]
    have "setout ?buf outp (k mod rate) ?room = Ok (map (out_byte permute rate w) [k..<k + ?room] @ drop ?room outp)"
      using setout_Ok [OF buf, of "k mod rate" ?room outp] True assms(1,2) off out_bytes_in_block [of k rate ?room w] by simp
    moreover have "squeeze_loop permute rate 0 (drop ?room outp) (permute ?buf) =
        Ok (map (out_byte permute rate w) [k + ?room..<k + ?n], (permute ^^ ((k + ?n) div rate)) w, (k + ?n) mod rate)"
      using less.hyps [of "drop ?room outp" "k + ?room"] True off k' by simp
    moreover have "[k..<k + ?n] = [k..<k + ?room] @ [k + ?room..<k + ?n]" using True by (metis upt_add_eq_append le_add1 le_add_diff_inverse add.assoc)
    ultimately show ?thesis using True assms(1) by (subst squeeze_loop.simps) simp
  next
    case False
    have "k mod rate + ?n < rate" using False by simp
    note same_block [OF this]
    moreover have "setout ?buf outp (k mod rate) ?n = Ok (map (out_byte permute rate w) [k..<k + ?n])"
      using setout_Ok [OF buf, of "k mod rate" ?n outp] False assms(1,2) off out_bytes_in_block [of k rate ?n w] by simp
    ultimately show ?thesis using False assms(1) by (subst squeeze_loop.simps) simp
  qed
qed

lemma squeeze_continues:
  assumes "squeezing permute st w k" "0 < ks_rate st" "ks_rate st \<le> 200" "length w = WORDS"
  shows "\<exists>st'. state_squeeze permute outp st = Ok (map (out_byte permute (ks_rate st) w) [k..<k + length outp], st') \<and>
    squeezing permute st' w (k + length outp) \<and> ks_rate st' = ks_rate st"
  using assms by (simp add: state_squeeze_def squeezing_def squeeze_loop_Ok)

lemma core_words: "length (sponge_core permute rate delim m) = WORDS"
  by (simp add: sponge_core_def fold_words buffer_default_def)

lemma squeeze_starts:
  assumes "absorbing permute st buffer_default m" "0 < ks_rate st" "ks_rate st \<le> 200"
  shows "\<exists>st'. state_squeeze permute outp st = Ok (sponge permute (ks_rate st) (ks_delim st) m (length outp), st') \<and>
    squeezing permute st' (sponge_core permute (ks_rate st) (ks_delim st) m) (length outp) \<and> ks_rate st' = ks_rate st"
proof -
  let ?r = "ks_rate st" and ?ws = "fold (absorb_block permute) (sponge_blocks (ks_rate st) m) buffer_default"
  let ?core = "sponge_core permute ?r (ks_delim st) m" and ?block = "rest ?r m @ pad_tail (?r - length m mod ?r) (ks_delim st)"
  have m: "ks_mode st = Absorbing" using assms(1) by (simp add: absorbing_def)
  have len: "length buffer_default = WORDS" by (simp add: buffer_default_def)
  have core: "?core = permute (xor_words ?ws 0 ?block)"
    by (simp add: sponge_core_def blocks_padded [OF assms(2)] absorb_block_def)
  have "state_pad (st\<lparr>ks_mode := Squeezing\<rparr>) = Ok (st\<lparr>ks_mode := Squeezing, ks_buffer := xor_words ?ws 0 ?block\<rparr>)"
    using pad_absorbs [OF assms(1-3) len] by (simp add: state_pad_def)
  then have "state_squeeze permute outp st =
      state_squeeze permute outp (st\<lparr>ks_mode := Squeezing, ks_buffer := ?core, ks_offset := 0\<rparr>)"
    by (simp add: state_squeeze_def m core state_fill_block_def)
  moreover have "squeezing permute (st\<lparr>ks_mode := Squeezing, ks_buffer := ?core, ks_offset := 0\<rparr>) ?core 0"
    by (simp add: squeezing_def)
  ultimately show ?thesis
    using squeeze_continues [of "st\<lparr>ks_mode := Squeezing, ks_buffer := ?core, ks_offset := 0\<rparr>" ?core 0 outp] assms(2,3)
    by (simp add: core_words sponge_def)
qed

lemma finalize_sponge:
  assumes "absorbing permute st buffer_default m" "0 < ks_rate st" "ks_rate st \<le> 200"
  shows "state_finalize permute outp st = Ok (sponge permute (ks_rate st) (ks_delim st) m (length outp))"
  using squeeze_starts [OF assms, of outp] by (auto simp: state_finalize_def)

lemma squeezes_continue:
  assumes "squeezing permute st w k" "0 < ks_rate st" "ks_rate st \<le> 200" "length w = WORDS"
  shows "\<exists>bss st'. squeezes permute outps st = Ok (bss, st') \<and>
    concat bss = map (out_byte permute (ks_rate st) w) [k..<k + length (concat outps)]"
  using assms
proof (induction outps arbitrary: st k)
  case (Cons outp outps)
  obtain st1 where st1: "state_squeeze permute outp st = Ok (map (out_byte permute (ks_rate st) w) [k..<k + length outp], st1)"
      "squeezing permute st1 w (k + length outp)" "ks_rate st1 = ks_rate st"
    using squeeze_continues [OF Cons.prems] by blast
  obtain bss st2 where "squeezes permute outps st1 = Ok (bss, st2)"
      "concat bss = map (out_byte permute (ks_rate st) w) [k + length outp..<k + length outp + length (concat outps)]"
    using Cons.IH [OF st1(2)] Cons.prems(2-4) st1(3) by auto
  moreover have "[k..<k + length (concat (outp # outps))] =
      [k..<k + length outp] @ [k + length outp..<k + length outp + length (concat outps)]"
    by (metis add.assoc concat.simps(2) le_add1 length_append upt_add_eq_append)
  ultimately show ?case using st1(1) by simp
qed simp

text \<open>Filling the block with nothing absorbs zeros to its end.\<close>

lemma fill_absorbs:
  assumes "absorbing permute st w m" "0 < ks_rate st" "ks_rate st \<le> 200" "length w = WORDS"
  shows "absorbing permute (state_fill_block permute st) w (m @ zeros (ks_rate st - length m mod ks_rate st))"
proof -
  let ?r = "ks_rate st" and ?ws = "fold (absorb_block permute) (sponge_blocks (ks_rate st) m) w"
  let ?z = "zeros (?r - length m mod ?r)"
  have lt: "length m mod ?r < ?r" using assms(2) by simp
  have full: "length (rest ?r m @ ?z) = ?r" using lt by simp
  have ws: "length ?ws = WORDS" using assms(4) by (rule fold_words)
  have "xor_words ?ws 0 (rest ?r m @ ?z) = xor_words ?ws 0 (rest ?r m)"
    using xor_words_append [OF ws, of 0 "rest ?r m" ?z] xor_words_zeros [of "xor_words ?ws 0 (rest ?r m)" "length m mod ?r"]
      lt assms(3) by simp
  moreover have "sponge_blocks ?r (rest ?r m @ ?z) = [rest ?r m @ ?z]"
    using full assms(2) by (simp add: blocks_step blocks_short)
  moreover have "rest ?r (m @ ?z) = []" "length (m @ ?z) mod ?r = 0"
  proof -
    have "length (m @ ?z) mod ?r = length (rest ?r m @ ?z) mod ?r" by (simp add: mod_simps)
    then show z: "length (m @ ?z) mod ?r = 0" using full by simp
    then show "rest ?r (m @ ?z) = []" by (metis length_0_conv length_rest)
  qed
  moreover have "ks_mode (state_fill_block permute st) = Absorbing" using assms(1) by (simp add: absorbing_def state_fill_block_def)
  ultimately show ?thesis
    using assms(1,2) ws blocks_append(1) [of ?r m ?z]
    by (simp add: absorbing_def state_fill_block_def absorb_block_def xor_words_nil permute_words)
qed

end

section \<open>The two permutations\<close>

lemma fold_length: "(\<And>x a. length (f x a) = length a) \<Longrightarrow> length (fold f xs a) = length a"
  by (induction xs arbitrary: a) simp_all

lemma length_theta: "length (theta_apply array a) = length a"
  unfolding theta_apply_def by (intro fold_length) (simp add: Let_def)

lemma length_rho_pi: "length (snd (rho_pi array a)) = length a"
proof -
  have "length (fst (snd (fold (\<lambda>x (array, a, last).
      let array = array[0 := a ! (PI ! x)]; a = a[PI ! x := word_rotl (RHO ! x) last] in (array, a, array ! 0)) xs s))) =
    length (fst (snd s))" for xs and s :: "words \<times> words \<times> u64"
    by (induction xs arbitrary: s) (auto simp: Let_def split: prod.splits)
  then show ?thesis by (simp add: rho_pi_def case_prod_unfold)
qed

lemma length_chi: "length (snd (chi array a)) = length a"
proof -
  have "length (snd (fold (\<lambda>y_step (array, a).
       let y = y_step * 5;
           array = fold (\<lambda>x array. array[x := a ! (y + x)]) [0..<5] array
       in (array, fold (\<lambda>x a. a[y + x := array ! x XOR (NOT (array ! ((x + 1) mod 5)) AND array ! ((x + 2) mod 5))]) [0..<5] a))
       xs s)) = length (snd s)" for xs and s :: "words \<times> words"
    by (induction xs arbitrary: s) (auto simp: Let_def fold_length split: prod.splits)
  then show ?thesis by (simp add: chi_def)
qed

lemma length_keccak_round: "length (keccak_round rc i a) = length a"
  by (simp add: keccak_round_def Let_def case_prod_unfold length_chi length_rho_pi length_theta)

lemma length_keccak_function: "length (keccak_function rounds rc a) = length a"
  unfolding keccak_function_def by (intro fold_length) (rule length_keccak_round)

interpretation kf: permutation keccakf
  by unfold_locales (simp add: keccakf_def length_keccak_function)

interpretation kp: permutation keccakp
  by unfold_locales (simp add: keccakp_def length_keccak_function)

end
