(* ===== verification/Keccak_Hashes.thy ===== *)
theory Keccak_Hashes
  imports Keccak_Sponge
begin

text \<open>
  The hash functions of \<open>guest/tiny-keccak-patch\<close> over the sponge state: \<open>Keccak\<close>, \<open>Sha3\<close>, \<open>Shake\<close>,
  \<open>CShake\<close>, \<open>Kmac\<close>, \<open>TupleHash\<close>, \<open>ParallelHash\<close> and \<open>KangarooTwelve\<close>, with the length encodings of
  SP 800-185. A struct with the one field \<open>state\<close> is that state. A \<open>usize\<close> that is encoded is a
  64-bit word, so a length in bits wraps as it does on the guest.
\<close>

section \<open>Length encodings\<close>

record encoded_len =
  el_offset :: nat
  el_buffer :: bytes

definition encoded_value :: "encoded_len \<Rightarrow> bytes" where
  "encoded_value e = drop (el_offset e) (el_buffer e)"

definition first_nonzero :: "bytes \<Rightarrow> nat \<Rightarrow> nat" where
  "first_nonzero bs fallback =
     (let i = length (takeWhile (\<lambda>b. b = 0) bs) in if i < length bs then i else fallback)"

definition left_encode :: "u64 \<Rightarrow> encoded_len" where
  "left_encode len =
     (let buffer = 0 # u64_be len;
          offset = first_nonzero buffer 8;
          buffer = buffer[offset - 1 := 9 - of_nat offset]
      in \<lparr>el_offset = offset - 1, el_buffer = buffer\<rparr>)"

definition right_encode :: "u64 \<Rightarrow> encoded_len" where
  "right_encode len =
     (let buffer = u64_be len @ [0];
          offset = first_nonzero buffer 7;
          buffer = buffer[8 := 8 - of_nat offset]
      in \<lparr>el_offset = offset, el_buffer = buffer\<rparr>)"

definition bit_length :: "bytes \<Rightarrow> u64" where
  "bit_length bs = of_nat (length bs) * 8"

section \<open>Keccak, SHA-3 and SHAKE\<close>

definition keccak_new :: "nat \<Rightarrow> (sponge_panic, keccak_state) result" where
  "keccak_new bits = state_new (bits_to_rate bits) 0x01"

definition keccak_update :: "bytes \<Rightarrow> keccak_state \<Rightarrow> (sponge_panic, keccak_state) result" where
  "keccak_update = state_update keccakf"

definition keccak_finalize :: "bytes \<Rightarrow> keccak_state \<Rightarrow> (sponge_panic, bytes) result" where
  "keccak_finalize = state_finalize keccakf"

definition sha3_new :: "nat \<Rightarrow> (sponge_panic, keccak_state) result" where
  "sha3_new bits = state_new (bits_to_rate bits) 0x06"

definition sha3_update :: "bytes \<Rightarrow> keccak_state \<Rightarrow> (sponge_panic, keccak_state) result" where
  "sha3_update = state_update keccakf"

definition sha3_finalize :: "bytes \<Rightarrow> keccak_state \<Rightarrow> (sponge_panic, bytes) result" where
  "sha3_finalize = state_finalize keccakf"

definition shake_new :: "nat \<Rightarrow> (sponge_panic, keccak_state) result" where
  "shake_new bits = state_new (bits_to_rate bits) 0x1f"

definition shake_update :: "bytes \<Rightarrow> keccak_state \<Rightarrow> (sponge_panic, keccak_state) result" where
  "shake_update = state_update keccakf"

definition shake_finalize :: "bytes \<Rightarrow> keccak_state \<Rightarrow> (sponge_panic, bytes) result" where
  "shake_finalize = state_finalize keccakf"

definition shake_squeeze :: "bytes \<Rightarrow> keccak_state \<Rightarrow> (sponge_panic, bytes \<times> keccak_state) result" where
  "shake_squeeze = state_squeeze keccakf"

section \<open>cSHAKE\<close>

definition cshake_fill_block :: "keccak_state \<Rightarrow> keccak_state" where
  "cshake_fill_block = state_fill_block keccakf"

definition cshake_update :: "bytes \<Rightarrow> keccak_state \<Rightarrow> (sponge_panic, keccak_state) result" where
  "cshake_update = state_update keccakf"

definition cshake_new :: "bytes \<Rightarrow> bytes \<Rightarrow> nat \<Rightarrow> (sponge_panic, keccak_state) result" where
  "cshake_new name custom_string bits =
     (let rate = bits_to_rate bits
      in if name = [] \<and> custom_string = [] then state_new rate 0x1f
         else rbind (state_new rate 0x04) (\<lambda>state.
              rbind (state_update keccakf (encoded_value (left_encode (of_nat rate))) state) (\<lambda>state.
              rbind (state_update keccakf (encoded_value (left_encode (bit_length name))) state) (\<lambda>state.
              rbind (state_update keccakf name state) (\<lambda>state.
              rbind (state_update keccakf (encoded_value (left_encode (bit_length custom_string))) state) (\<lambda>state.
              rbind (state_update keccakf custom_string state) (\<lambda>state.
              Ok (state_fill_block keccakf state))))))))"

definition cshake_finalize :: "bytes \<Rightarrow> keccak_state \<Rightarrow> (sponge_panic, bytes) result" where
  "cshake_finalize = state_finalize keccakf"

definition cshake_squeeze :: "bytes \<Rightarrow> keccak_state \<Rightarrow> (sponge_panic, bytes \<times> keccak_state) result" where
  "cshake_squeeze = state_squeeze keccakf"

section \<open>KMAC\<close>

definition KMAC_NAME :: bytes where "KMAC_NAME = [0x4b, 0x4d, 0x41, 0x43]"

definition kmac_new :: "bytes \<Rightarrow> bytes \<Rightarrow> nat \<Rightarrow> (sponge_panic, keccak_state) result" where
  "kmac_new key custom_string bits =
     (let rate = bits_to_rate bits
      in rbind (cshake_new KMAC_NAME custom_string bits) (\<lambda>state.
         rbind (cshake_update (encoded_value (left_encode (of_nat rate))) state) (\<lambda>state.
         rbind (cshake_update (encoded_value (left_encode (bit_length key))) state) (\<lambda>state.
         rbind (cshake_update key state) (\<lambda>state.
         Ok (cshake_fill_block state))))))"

definition kmac_update :: "bytes \<Rightarrow> keccak_state \<Rightarrow> (sponge_panic, keccak_state) result" where
  "kmac_update = cshake_update"

definition kmac_finalize :: "bytes \<Rightarrow> keccak_state \<Rightarrow> (sponge_panic, bytes) result" where
  "kmac_finalize outp state =
     rbind (cshake_update (encoded_value (right_encode (bit_length outp))) state) (\<lambda>state. cshake_finalize outp state)"

definition kmac_into_xof :: "keccak_state \<Rightarrow> (sponge_panic, keccak_state) result" where
  "kmac_into_xof state = cshake_update (encoded_value (right_encode 0)) state"

section \<open>TupleHash\<close>

definition TUPLE_HASH_NAME :: bytes where
  "TUPLE_HASH_NAME = [0x54, 0x75, 0x70, 0x6c, 0x65, 0x48, 0x61, 0x73, 0x68]"

definition tuple_hash_new :: "bytes \<Rightarrow> nat \<Rightarrow> (sponge_panic, keccak_state) result" where
  "tuple_hash_new custom_string bits = cshake_new TUPLE_HASH_NAME custom_string bits"

definition tuple_hash_update :: "bytes \<Rightarrow> keccak_state \<Rightarrow> (sponge_panic, keccak_state) result" where
  "tuple_hash_update input state =
     rbind (cshake_update (encoded_value (left_encode (bit_length input))) state) (\<lambda>state. cshake_update input state)"

definition tuple_hash_finalize :: "bytes \<Rightarrow> keccak_state \<Rightarrow> (sponge_panic, bytes) result" where
  "tuple_hash_finalize outp state =
     rbind (cshake_update (encoded_value (right_encode (bit_length outp))) state) (\<lambda>state. cshake_finalize outp state)"

definition tuple_hash_into_xof :: "keccak_state \<Rightarrow> (sponge_panic, keccak_state) result" where
  "tuple_hash_into_xof state = cshake_update (encoded_value (right_encode 0)) state"

section \<open>ParallelHash\<close>

definition PARALLEL_HASH_NAME :: bytes where
  "PARALLEL_HASH_NAME = [0x50, 0x61, 0x72, 0x61, 0x6c, 0x6c, 0x65, 0x6c, 0x48, 0x61, 0x73, 0x68]"

record unfinished_state =
  us_state :: keccak_state
  us_absorbed :: nat

record parallel_hash =
  ph_state :: keccak_state
  ph_block_size :: nat
  ph_bits :: nat
  ph_blocks :: nat
  ph_unfinished :: "unfinished_state option"

definition suboutput :: "nat \<Rightarrow> bytes" where
  "suboutput bits = zeros (bits div 4)"

definition parallel_hash_new :: "bytes \<Rightarrow> nat \<Rightarrow> nat \<Rightarrow> (sponge_panic, parallel_hash) result" where
  "parallel_hash_new custom_string block_size bits =
     rbind (cshake_new PARALLEL_HASH_NAME custom_string bits) (\<lambda>state.
     rbind (cshake_update (encoded_value (left_encode (of_nat block_size))) state) (\<lambda>state.
     Ok \<lparr>ph_state = state, ph_block_size = block_size, ph_bits = bits, ph_blocks = 0, ph_unfinished = None\<rparr>))"

text \<open>A finished block: its hash goes into the outer state.\<close>

definition absorb_suboutput :: "keccak_state \<Rightarrow> parallel_hash \<Rightarrow> (sponge_panic, parallel_hash) result" where
  "absorb_suboutput block ph =
     rbind (cshake_finalize (suboutput (ph_bits ph)) block) (\<lambda>sub.
     rbind (cshake_update sub (ph_state ph)) (\<lambda>state.
     Ok (ph\<lparr>ph_state := state, ph_blocks := ph_blocks ph + 1\<rparr>)))"

definition hash_chunk :: "bytes \<Rightarrow> parallel_hash \<Rightarrow> (sponge_panic, parallel_hash) result" where
  "hash_chunk chunk ph =
     rbind (cshake_new [] [] (ph_bits ph)) (\<lambda>state.
     rbind (cshake_update chunk state) (\<lambda>state. absorb_suboutput state ph))"

function chunks :: "nat \<Rightarrow> bytes \<Rightarrow> bytes list" where
  "chunks n bs = (if n = 0 \<or> bs = [] then [] else take n bs # chunks n (drop n bs))"
  by pat_completeness auto
termination by (relation "measure (\<lambda>(n, bs). length bs)") auto

declare chunks.simps [simp del]

text \<open>The second half of \<open>update\<close>: the whole blocks of the input, and what is left of it.\<close>

definition parallel_blocks :: "bytes \<Rightarrow> parallel_hash \<Rightarrow> (sponge_panic, parallel_hash) result" where
  "parallel_blocks input ph =
     rbind (ensure (ph_block_size ph \<noteq> 0) DivisionByZero) (\<lambda>_.
     let input_blocks_end = length input div ph_block_size ph * ph_block_size ph;
         input_end = drop input_blocks_end input
     in rbind (foldR hash_chunk (chunks (ph_block_size ph) (take input_blocks_end input)) ph) (\<lambda>ph.
        if input_end = [] then Ok ph
        else rbind (ensure (ph_unfinished ph = None) UnfinishedBlockLeft) (\<lambda>_.
             rbind (cshake_new [] [] (ph_bits ph)) (\<lambda>state.
             rbind (cshake_update input_end state) (\<lambda>state.
             Ok (ph\<lparr>ph_unfinished := Some \<lparr>us_state = state, us_absorbed = length input_end\<rparr>\<rparr>))))))"

definition parallel_hash_update :: "bytes \<Rightarrow> parallel_hash \<Rightarrow> (sponge_panic, parallel_hash) result" where
  "parallel_hash_update input ph =
     (case ph_unfinished ph of
        None \<Rightarrow> parallel_blocks input ph
      | Some unfinished \<Rightarrow>
          let ph = ph\<lparr>ph_unfinished := None\<rparr>; to_absorb = ph_block_size ph - us_absorbed unfinished
          in if to_absorb \<le> length input then
               rbind (cshake_update (take to_absorb input) (us_state unfinished)) (\<lambda>state.
               rbind (absorb_suboutput state ph) (\<lambda>ph. parallel_blocks (drop to_absorb input) ph))
             else rbind (cshake_update input (us_state unfinished)) (\<lambda>state.
               Ok (ph\<lparr>ph_unfinished := Some \<lparr>us_state = state, us_absorbed = us_absorbed unfinished + length input\<rparr>\<rparr>)))"

definition parallel_last_block :: "parallel_hash \<Rightarrow> (sponge_panic, parallel_hash) result" where
  "parallel_last_block ph =
     (case ph_unfinished ph of
        Some unfinished \<Rightarrow> absorb_suboutput (us_state unfinished) (ph\<lparr>ph_unfinished := None\<rparr>)
      | None \<Rightarrow> Ok ph)"

definition parallel_hash_finalize :: "bytes \<Rightarrow> parallel_hash \<Rightarrow> (sponge_panic, bytes) result" where
  "parallel_hash_finalize outp ph =
     rbind (parallel_last_block ph) (\<lambda>ph.
     rbind (cshake_update (encoded_value (right_encode (of_nat (ph_blocks ph)))) (ph_state ph)) (\<lambda>state.
     rbind (cshake_update (encoded_value (right_encode (bit_length outp))) state) (\<lambda>state.
     cshake_finalize outp state)))"

definition parallel_hash_into_xof :: "parallel_hash \<Rightarrow> (sponge_panic, keccak_state) result" where
  "parallel_hash_into_xof ph =
     rbind (parallel_last_block ph) (\<lambda>ph.
     rbind (cshake_update (encoded_value (right_encode (of_nat (ph_blocks ph)))) (ph_state ph)) (\<lambda>state.
     cshake_update (encoded_value (right_encode 0)) state))"

section \<open>KangarooTwelve\<close>

definition encode_len :: "u64 \<Rightarrow> encoded_len" where
  "encode_len len =
     (let len_view = u64_be len; offset = first_nonzero len_view 8
      in \<lparr>el_offset = offset, el_buffer = (len_view @ [0])[8 := 8 - of_nat offset]\<rparr>)"

definition MAX_CHUNK_SIZE :: nat where "MAX_CHUNK_SIZE = 8192"

record kangaroo_twelve =
  k12_state :: keccak_state
  k12_current_chunk :: keccak_state
  k12_custom_string :: "bytes option"
  k12_written :: nat
  k12_chunks :: nat

definition k12_new :: "bytes \<Rightarrow> (sponge_panic, kangaroo_twelve) result" where
  "k12_new custom_string =
     (let rate = bits_to_rate 128
      in rbind (state_new rate 0) (\<lambda>state.
         rbind (state_new rate 0x0b) (\<lambda>current_chunk.
         Ok \<lparr>k12_state = state, k12_current_chunk = current_chunk, k12_custom_string = Some custom_string,
             k12_written = 0, k12_chunks = 0\<rparr>)))"

text \<open>The first part of \<open>update\<close>: what still fits the first chunk.\<close>

definition k12_first_chunk :: "bytes \<Rightarrow> kangaroo_twelve \<Rightarrow> (sponge_panic, bytes \<times> kangaroo_twelve) result" where
  "k12_first_chunk to_absorb k =
     (if k12_chunks k = 0 then
        let todo = min (MAX_CHUNK_SIZE - k12_written k) (length to_absorb)
        in rbind (state_update keccakp (take todo to_absorb) (k12_state k)) (\<lambda>state.
           let k = k\<lparr>k12_state := state, k12_written := k12_written k + todo\<rparr>; to_absorb = drop todo to_absorb
           in if 0 < length to_absorb \<and> k12_written k = MAX_CHUNK_SIZE then
                rbind (state_update keccakp [0x03, 0, 0, 0, 0, 0, 0, 0] (k12_state k)) (\<lambda>state.
                Ok (to_absorb, k\<lparr>k12_state := state, k12_written := 0, k12_chunks := k12_chunks k + 1\<rparr>))
              else Ok (to_absorb, k))
      else Ok (to_absorb, k))"

text \<open>A full chunk is hashed into the main state before the next byte.\<close>

definition k12_close_chunk :: "kangaroo_twelve \<Rightarrow> (sponge_panic, kangaroo_twelve) result" where
  "k12_close_chunk k =
     (if k12_written k = MAX_CHUNK_SIZE then
        rbind (state_finalize keccakp (zeros 32) (k12_current_chunk k)) (\<lambda>chunk_hash.
        rbind (state_update keccakp chunk_hash (k12_state k)) (\<lambda>state.
        Ok (k\<lparr>k12_state := state, k12_current_chunk := state_reset (k12_current_chunk k), k12_written := 0,
              k12_chunks := k12_chunks k + 1\<rparr>)))
      else Ok k)"

function k12_absorb :: "bytes \<Rightarrow> kangaroo_twelve \<Rightarrow> (sponge_panic, kangaroo_twelve) result" where
  "k12_absorb to_absorb k =
     (if to_absorb = [] then Ok k
      else rbind (k12_close_chunk k) (\<lambda>k.
        let todo = min (MAX_CHUNK_SIZE - k12_written k) (length to_absorb)
        in if todo = 0 then Err EndlessLoop
           else rbind (state_update keccakp (take todo to_absorb) (k12_current_chunk k)) (\<lambda>current_chunk.
                k12_absorb (drop todo to_absorb)
                  (k\<lparr>k12_current_chunk := current_chunk, k12_written := k12_written k + todo\<rparr>))))"
  by pat_completeness auto
termination by (relation "measure (\<lambda>(bs, k). length bs)") auto

declare k12_absorb.simps [simp del]

definition k12_update :: "bytes \<Rightarrow> kangaroo_twelve \<Rightarrow> (sponge_panic, kangaroo_twelve) result" where
  "k12_update input k = rbind (k12_first_chunk input k) (\<lambda>(to_absorb, k). k12_absorb to_absorb k)"

text \<open>The hash of the chunk that is being filled, and the number of chunks.\<close>

definition k12_last_chunk :: "kangaroo_twelve \<Rightarrow> (sponge_panic, keccak_state) result" where
  "k12_last_chunk k =
     rbind (state_finalize keccakp (zeros 32) (k12_current_chunk k)) (\<lambda>tmp_chunk.
     rbind (state_update keccakp tmp_chunk (k12_state k)) (\<lambda>state.
     rbind (state_update keccakp (encoded_value (encode_len (of_nat (k12_chunks k)))) state) (\<lambda>state.
     state_update keccakp [0xff, 0xff] state)))"

definition k12_into_xof :: "kangaroo_twelve \<Rightarrow> (sponge_panic, keccak_state) result" where
  "k12_into_xof k =
     rbind (ok_or (k12_custom_string k) CustomStringMissing) (\<lambda>custom_string.
     let k = k\<lparr>k12_custom_string := None\<rparr>
     in rbind (k12_update custom_string k) (\<lambda>k.
        rbind (k12_update (encoded_value (encode_len (of_nat (length custom_string)))) k) (\<lambda>k.
        if k12_chunks k = 0 then Ok ((k12_state k)\<lparr>ks_delim := 0x07\<rparr>)
        else rbind (k12_last_chunk k) (\<lambda>state. Ok (state\<lparr>ks_delim := 0x06\<rparr>)))))"

definition k12_squeeze :: "bytes \<Rightarrow> keccak_state \<Rightarrow> (sponge_panic, bytes \<times> keccak_state) result" where
  "k12_squeeze = state_squeeze keccakp"

definition k12_finalize :: "bytes \<Rightarrow> kangaroo_twelve \<Rightarrow> (sponge_panic, bytes) result" where
  "k12_finalize outp k = rbind (k12_into_xof k) (\<lambda>xof. rbind (k12_squeeze outp xof) (\<lambda>(outp, xof). Ok outp))"

end
