(* ===== verification/Keccak_Claims.thy ===== *)
theory Keccak_Claims
  imports Sponge_Spec Keccak_Hashes
begin

text \<open>
  The claims about \<open>guest/tiny-keccak-patch\<close>: every hasher is the sponge of its whole message, no
  access leaves the buffer, the length encodings are uniquely decodable, and the tree hashes are
  the hashes of the trees whatever the cut of the input.
\<close>

section \<open>Hashers over the sponge\<close>

definition valid_bits :: "nat \<Rightarrow> bool" where
  "valid_bits bits \<longleftrightarrow> bits \<in> {128, 224, 256, 384, 512}"

lemma rate_bounds: "valid_bits bits \<Longrightarrow> 0 < bits_to_rate bits \<and> bits_to_rate bits \<le> 200"
  by (auto simp: valid_bits_def bits_to_rate_def)

lemma default_words: "length buffer_default = WORDS"
  by (simp add: buffer_default_def)

lemma hash_whole:
  assumes "0 < rate" and "rate \<le> 200"
  shows "rbind (state_new rate delim) (\<lambda>st. rbind (foldR (state_update keccakf) parts st) (\<lambda>st. state_finalize keccakf outp st)) =
    Ok (sponge keccakf rate delim (concat parts) (length outp))"
proof -
  obtain st where st: "state_new rate delim = Ok st" "absorbing keccakf st buffer_default []" "ks_rate st = rate" "ks_delim st = delim"
    using kf.new_absorbs [OF assms(1)] by blast
  obtain st' where "foldR (state_update keccakf) parts st = Ok st'" "absorbing keccakf st' buffer_default (concat parts)"
      "ks_rate st' = rate" "ks_delim st' = delim"
    using kf.updates_absorb [OF st(2), of parts] st(3,4) assms default_words by auto
  then show ?thesis using st(1) kf.finalize_sponge [of st' "concat parts" outp] assms by simp
qed

text \<open>
  C36. Keccak, SHA-3 and SHAKE hash the concatenation of what they are fed: however the input is
  cut into updates, the digest is that of the FIPS 202 sponge over the whole message with the rate
  and the delimiter of the function, and no step panics.
\<close>

theorem digest_of_concatenation:
  assumes "valid_bits bits"
  shows "rbind (keccak_new bits) (\<lambda>st. rbind (foldR keccak_update parts st) (keccak_finalize outp)) =
      Ok (sponge keccakf (200 - bits div 4) 0x01 (concat parts) (length outp)) \<and>
    rbind (sha3_new bits) (\<lambda>st. rbind (foldR sha3_update parts st) (sha3_finalize outp)) =
      Ok (sponge keccakf (200 - bits div 4) 0x06 (concat parts) (length outp)) \<and>
    rbind (shake_new bits) (\<lambda>st. rbind (foldR shake_update parts st) (shake_finalize outp)) =
      Ok (sponge keccakf (200 - bits div 4) 0x1f (concat parts) (length outp))"
  using rate_bounds [OF assms] hash_whole [of "bits_to_rate bits" _ parts outp]
  by (simp add: keccak_new_def keccak_update_def keccak_finalize_def sha3_new_def sha3_update_def sha3_finalize_def
      shake_new_def shake_update_def shake_finalize_def bits_to_rate_def)

theorem digest_of_concatenation_witness:
  "rbind (keccak_new 256) (\<lambda>st. rbind (foldR keccak_update [[1, 2], [3]] st) (keccak_finalize (zeros 32))) =
     Ok (sponge keccakf 136 0x01 [1, 2, 3] 32)"
proof -
  have "valid_bits 256" by (simp add: valid_bits_def)
  from digest_of_concatenation [OF this, of "[[1, 2], [3]]" "zeros 32"] show ?thesis by simp
qed

text \<open>
  Squeezing in pieces gives one output stream: the parts an extendable-output function hands
  out, concatenated, are the prefix of the sponge output of their total length.
\<close>

theorem squeezed_stream:
  assumes "valid_bits bits"
  shows "\<exists>st bss st'. shake_new bits = Ok st \<and>
    rbind (foldR shake_update parts st) (squeezes keccakf outps) = Ok (bss, st') \<and>
    concat bss = sponge keccakf (200 - bits div 4) 0x1f (concat parts) (length (concat outps))"
proof -
  let ?r = "bits_to_rate bits"
  have r: "0 < ?r" "?r \<le> 200" using rate_bounds [OF assms] by simp_all
  obtain st where st: "shake_new bits = Ok st" "absorbing keccakf st buffer_default []" "ks_rate st = ?r" "ks_delim st = 0x1f"
    using kf.new_absorbs [OF r(1), of "0x1f"] by (auto simp: shake_new_def)
  obtain st1 where st1: "foldR shake_update parts st = Ok st1" "absorbing keccakf st1 buffer_default (concat parts)"
      "ks_rate st1 = ?r" "ks_delim st1 = 0x1f"
    using kf.updates_absorb [OF st(2), of parts] st(3,4) r default_words by (auto simp: shake_update_def)
  show ?thesis
  proof (cases outps)
    case Nil
    then show ?thesis using st(1) st1(1) by (simp add: sponge_def)
  next
    case (Cons outp outps')
    let ?core = "sponge_core keccakf ?r 0x1f (concat parts)"
    obtain st2 where st2: "state_squeeze keccakf outp st1 = Ok (sponge keccakf ?r 0x1f (concat parts) (length outp), st2)"
        "squeezing keccakf st2 ?core (length outp)" "ks_rate st2 = ?r"
      using kf.squeeze_starts [OF st1(2), of outp] st1(3,4) r by auto
    obtain bss st3 where "squeezes keccakf outps' st2 = Ok (bss, st3)"
        "concat bss = map (out_byte keccakf ?r ?core) [length outp..<length outp + length (concat outps')]"
      using kf.squeezes_continue [OF st2(2), of outps'] st2(3) r kf.core_words by auto
    moreover have "[0..<length outp + length (concat outps')] = [0..<length outp] @ [length outp..<length outp + length (concat outps')]"
      by (rule upt_add_eq_append) simp
    ultimately show ?thesis using st(1) st1(1) st2(1) Cons by (simp add: sponge_def bits_to_rate_def)
  qed
qed

theorem squeezed_stream_witness:
  "\<exists>st bss st'. shake_new 128 = Ok st \<and> rbind (foldR shake_update [[7]] st) (squeezes keccakf [zeros 200, zeros 1]) = Ok (bss, st') \<and>
     concat bss = sponge keccakf 168 0x1f [7] 201"
proof -
  have "valid_bits 128" by (simp add: valid_bits_def)
  from squeezed_stream [OF this, of "[[7]]" "[zeros 200, zeros 1]"] show ?thesis by simp
qed

section \<open>No access leaves the buffer\<close>

datatype sponge_op = Update bytes | Squeeze bytes | FillBlock

definition run_op :: "(words \<Rightarrow> words) \<Rightarrow> sponge_op \<Rightarrow> keccak_state \<Rightarrow> (sponge_panic, keccak_state) result" where
  "run_op permute x st =
     (case x of Update bs \<Rightarrow> state_update permute bs st
      | Squeeze bs \<Rightarrow> rbind (state_squeeze permute bs st) (\<lambda>(_, st). Ok st)
      | FillBlock \<Rightarrow> Ok (state_fill_block permute st))"

definition wf_sponge :: "nat \<Rightarrow> keccak_state \<Rightarrow> bool" where
  "wf_sponge rate st \<longleftrightarrow> ks_rate st = rate \<and> ks_offset st < rate \<and> length (ks_buffer st) = WORDS"

context permutation
begin

lemma wf_absorbing:
  assumes "wf_sponge rate st" and "ks_mode st = Absorbing" and "rate \<le> 200"
  shows "absorbing permute st (ks_buffer st) (zeros (ks_offset st))"
  using assms by (simp add: absorbing_def wf_sponge_def blocks_short rest_short xor_words_zeros)

lemma absorbing_wf:
  assumes "absorbing permute st w m" and "ks_rate st = rate" and "0 < rate"
  shows "wf_sponge rate st"
  using assms by (simp add: absorbing_def wf_sponge_def)

lemma wf_squeezing:
  assumes "wf_sponge rate st" and "ks_mode st = Squeezing"
  shows "squeezing permute st (ks_buffer st) (ks_offset st)"
  using assms by (simp add: squeezing_def wf_sponge_def)

lemma squeezing_wf:
  assumes "squeezing permute st w k" and "ks_rate st = rate" and "0 < rate" and "length w = WORDS"
  shows "wf_sponge rate st"
  using assms by (simp add: squeezing_def wf_sponge_def power_words)

lemma fill_wf: "wf_sponge rate st \<Longrightarrow> wf_sponge rate (state_fill_block permute st)"
  by (simp add: wf_sponge_def state_fill_block_def permute_words)

lemma update_wf:
  assumes wf: "wf_sponge rate st" and r: "0 < rate" "rate \<le> 200"
  shows "\<exists>st'. state_update permute bs st = Ok st' \<and> wf_sponge rate st'"
proof -
  define st0 where "st0 = (case ks_mode st of Squeezing \<Rightarrow> state_fill_block permute (st\<lparr>ks_mode := Absorbing\<rparr>) | Absorbing \<Rightarrow> st)"
  have st0: "wf_sponge rate st0" "ks_mode st0 = Absorbing"
    using wf by (auto simp: st0_def wf_sponge_def state_fill_block_def permute_words split: sponge_mode.split)
  then have eq: "state_update permute bs st = state_update permute bs st0"
    by (simp add: state_update_def st0_def [symmetric] Let_def)
  obtain st' where "state_update permute bs st0 = Ok st'" "absorbing permute st' (ks_buffer st0) (zeros (ks_offset st0) @ bs)"
      "ks_rate st' = ks_rate st0"
    using update_absorbs [OF wf_absorbing [OF st0 r(2)]] st0(1) r by (auto simp: wf_sponge_def)
  then show ?thesis using eq st0(1) r absorbing_wf by (auto simp: wf_sponge_def)
qed

lemma squeeze_wf:
  assumes wf: "wf_sponge rate st" and r: "0 < rate" "rate \<le> 200"
  shows "\<exists>bs' st'. state_squeeze permute bs st = Ok (bs', st') \<and> length bs' = length bs \<and> wf_sponge rate st'"
proof -
  have len: "length (ks_buffer st) = WORDS" using wf by (simp add: wf_sponge_def)
  have sq: ?thesis if eq0: "state_squeeze permute bs st = state_squeeze permute bs st0" and wf0: "wf_sponge rate st0"
    and m0: "ks_mode st0 = Squeezing" for st0
  proof -
    have "ks_rate st0 = rate" "length (ks_buffer st0) = WORDS" using wf0 by (simp_all add: wf_sponge_def)
    then obtain st' where "state_squeeze permute bs st0 = Ok (map (out_byte permute rate (ks_buffer st0)) [ks_offset st0..<ks_offset st0 + length bs], st')"
        "squeezing permute st' (ks_buffer st0) (ks_offset st0 + length bs)" "ks_rate st' = rate"
      using squeeze_continues [OF wf_squeezing [OF wf0 m0], of bs] r by blast
    moreover from this have "wf_sponge rate st'" using r(1) \<open>length (ks_buffer st0) = WORDS\<close> by (intro squeezing_wf)
    ultimately show ?thesis by (simp add: eq0)
  qed
  show ?thesis
  proof (cases "ks_mode st")
    case Squeezing
    then show ?thesis using sq [of st] wf by simp
  next
    case Absorbing
    have "ks_rate st = rate" using wf by (simp add: wf_sponge_def)
    then obtain buf where "buffer_pad (ks_buffer st) (ks_offset st) (ks_delim st) (ks_rate st) = Ok buf" "length buf = WORDS"
      using pad_absorbs [OF wf_absorbing [OF wf Absorbing r(2)] _ _ len] r by simp
    then have "state_squeeze permute bs st =
        state_squeeze permute bs (state_fill_block permute (st\<lparr>ks_mode := Squeezing, ks_buffer := buf\<rparr>))"
      by (simp add: state_squeeze_def Absorbing state_pad_def state_fill_block_def)
    moreover have "wf_sponge rate (state_fill_block permute (st\<lparr>ks_mode := Squeezing, ks_buffer := buf\<rparr>))"
      using wf \<open>length buf = WORDS\<close> by (simp add: wf_sponge_def state_fill_block_def permute_words)
    ultimately show ?thesis by (rule sq) (simp add: state_fill_block_def)
  qed
qed

lemma run_op_wf:
  assumes "wf_sponge rate st" and "0 < rate" and "rate \<le> 200"
  shows "\<exists>st'. run_op permute x st = Ok st' \<and> wf_sponge rate st'"
  using update_wf [OF assms] squeeze_wf [OF assms] fill_wf [OF assms(1)]
  by (cases x) (fastforce simp: run_op_def)+

lemma run_ops_wf:
  assumes "wf_sponge rate st" and "0 < rate" and "rate \<le> 200"
  shows "\<exists>st'. foldR (run_op permute) ops st = Ok st' \<and> wf_sponge rate st'"
  using assms(1)
proof (induction ops arbitrary: st)
  case (Cons x ops)
  then show ?case using run_op_wf [OF Cons.prems assms(2,3), of x] by auto
qed simp

end

text \<open>
  C37. No access leaves the sponge buffer. From a fresh state with any rate of 1 to 200 bytes, every
  sequence of updates, squeezes and block fills with inputs of any length runs without a panic, and
  the offset stays below the rate, so the subtraction of the two never goes below zero.
\<close>

theorem sponge_in_bounds:
  assumes "0 < rate" and "rate \<le> 200"
  shows "\<exists>st st'. state_new rate delim = Ok st \<and> foldR (run_op keccakf) ops st = Ok st' \<and> ks_rate st' = rate \<and>
    ks_offset st' < rate \<and> length (ks_buffer st') = WORDS"
proof -
  obtain st where st: "state_new rate delim = Ok st" "absorbing keccakf st buffer_default []" "ks_rate st = rate"
    using kf.new_absorbs [OF assms(1)] by blast
  then show ?thesis
    using kf.run_ops_wf [OF kf.absorbing_wf [OF st(2,3) assms(1)] assms, of ops] by (auto simp: wf_sponge_def)
qed

theorem sponge_in_bounds_witness:
  "\<exists>st st'. state_new 136 1 = Ok st \<and> foldR (run_op keccakf) [Update (zeros 300), Squeeze (zeros 5), Update [1], FillBlock] st = Ok st' \<and>
     ks_rate st' = 136 \<and> ks_offset st' < 136 \<and> length (ks_buffer st') = WORDS"
  by (rule sponge_in_bounds) simp_all

section \<open>Length encodings\<close>

lemma takeWhile_zeros: "x \<noteq> 0 \<Longrightarrow> length (takeWhile (\<lambda>b. b = 0) (zeros n @ x # xs)) = n"
  by (induction n) (simp_all add: zeros_def)

text \<open>The significant bytes of a number, at least one.\<close>

definition digits :: "u64 \<Rightarrow> bytes" where
  "digits n = (let xs = dropWhile (\<lambda>b. b = 0) (u64_be n) in if xs = [] then [0] else xs)"

lemma digits_bounds: "1 \<le> length (digits n)" "length (digits n) \<le> 8"
  using length_dropWhile_le [of "\<lambda>b. b = 0" "u64_be n"] by (auto simp: digits_def Let_def Suc_leI)

lemma digits_spec: "u64_be n = zeros (8 - length (digits n)) @ digits n"
proof -
  have tw: "takeWhile (\<lambda>b. b = 0) bs = zeros (length (takeWhile (\<lambda>b. b = 0) bs))" for bs :: bytes
    by (induction bs) (simp_all add: zeros_def)
  have split: "u64_be n = takeWhile (\<lambda>b. b = 0) (u64_be n) @ dropWhile (\<lambda>b. b = 0) (u64_be n)" by simp
  then have len: "length (takeWhile (\<lambda>b. b = 0) (u64_be n)) + length (dropWhile (\<lambda>b. b = 0) (u64_be n)) = 8"
    by (metis length_append length_be_bytes)
  show ?thesis
  proof (cases "dropWhile (\<lambda>b. b = 0) (u64_be n) = []")
    case True
    then have l: "length (takeWhile (\<lambda>b. b = 0) (u64_be n)) = 8" using len unfolding True by simp
    have "u64_be n = takeWhile (\<lambda>b. b = 0) (u64_be n)" using split True by (metis append_Nil2)
    also have "\<dots> = zeros 8" using tw [of "u64_be n"] unfolding l .
    finally have "u64_be n = zeros 8" .
    moreover have "digits n = [0]" using True by (simp add: digits_def)
    moreover have "zeros 7 @ [0 :: u8] = zeros 8" by (simp add: zeros_def numeral_eq_Suc)
    ultimately show ?thesis by simp
  next
    case False
    have "8 - length (dropWhile (\<lambda>b. b = 0) (u64_be n)) = length (takeWhile (\<lambda>b. b = 0) (u64_be n))" using len by simp
    moreover have "digits n = dropWhile (\<lambda>b. b = 0) (u64_be n)" using False unfolding digits_def Let_def by (rule if_not_P)
    ultimately show ?thesis using split tw [of "u64_be n"] by metis
  qed
qed

lemma digits_inject: "digits a = digits b \<Longrightarrow> a = b"
  by (metis digits_spec u64_be_inject)

lemma digits_head: "digits n = [0] \<or> hd (digits n) \<noteq> 0"
  using hd_dropWhile [of "\<lambda>b. b = 0" "u64_be n"] by (auto simp: digits_def Let_def)

lemma first_digit:
  assumes "digits n = [0] \<Longrightarrow> fallback = m"
  shows "first_nonzero (zeros m @ digits n @ zeros r) fallback = m"
proof (cases "digits n = [0]")
  case True
  have "takeWhile (\<lambda>b. b = 0) (zeros m @ digits n @ zeros r) = zeros m @ digits n @ zeros r"
    by (rule takeWhile_eq_all_conv [THEN iffD2]) (auto simp: True zeros_def)
  then show ?thesis unfolding first_nonzero_def Let_def by (simp only: less_irrefl if_False assms [OF True])
next
  case False
  then obtain x xs where d: "digits n = x # xs" "x \<noteq> 0"
    using digits_head [of n] digits_bounds [of n] by (cases "digits n") auto
  have "length (takeWhile (\<lambda>b. b = 0) (zeros m @ digits n @ zeros r)) = m"
    using takeWhile_zeros [OF d(2), of m "xs @ zeros r"] d(1) by simp
  then show ?thesis using digits_bounds [of n] unfolding first_nonzero_def Let_def by auto
qed

lemma drop_updated: "i < length xs \<Longrightarrow> drop i (xs[i := x]) = x # drop (Suc i) xs"
  by (simp add: upd_conv_take_nth_drop)

lemma left_encode_value: "encoded_value (left_encode n) = of_nat (length (digits n)) # digits n"
proof -
  define k where "k = length (digits n)"
  have k: "1 \<le> k" "k \<le> 8" using digits_bounds by (simp_all add: k_def)
  have "0 # zeros (8 - k) = zeros (9 - k)" using k by (simp add: zeros_def Suc_diff_le flip: replicate_Suc)
  then have buf: "0 # u64_be n = zeros (9 - k) @ digits n" using digits_spec [of n] by (simp add: k_def)
  have off: "first_nonzero (0 # u64_be n) 8 = 9 - k"
    using first_digit [of n 8 "9 - k" 0] by (simp add: buf k_def zeros_def)
  have "9 - of_nat (9 - k) = (of_nat k :: u8)" using k by (simp add: of_nat_diff)
  moreover have "Suc (9 - k - 1) = 9 - k" using k by simp
  moreover have "drop (9 - k) (0 # u64_be n) = digits n" unfolding buf by simp
  moreover have "9 - k - 1 < length (0 # u64_be n)" by simp
  ultimately show ?thesis
    unfolding left_encode_def Let_def off encoded_value_def encoded_len.select_convs k_def [symmetric]
    by (simp only: drop_updated)
qed

lemma right_encode_value: "encoded_value (right_encode n) = digits n @ [of_nat (length (digits n))]"
proof -
  define k where "k = length (digits n)"
  have k: "1 \<le> k" "k \<le> 8" using digits_bounds by (simp_all add: k_def)
  have buf: "u64_be n @ [0] = zeros (8 - k) @ digits n @ zeros 1" using digits_spec [of n] by (simp add: k_def zeros_def)
  have off: "first_nonzero (u64_be n @ [0]) 7 = 8 - k"
    using first_digit [of n 7 "8 - k" 1] by (simp only: buf) (simp add: k_def)
  have "8 - of_nat (8 - k) = (of_nat k :: u8)" using k by (simp add: of_nat_diff)
  moreover have "(u64_be n @ [0])[8 := x] = zeros (8 - k) @ digits n @ [x]" for x
    using k by (subst buf) (auto simp: list_update_append k_def zeros_def)
  ultimately show ?thesis
    unfolding right_encode_def Let_def off encoded_value_def encoded_len.select_convs k_def [symmetric] by simp
qed

lemma length_byte_inject: "(of_nat (length (digits a)) :: u8) = of_nat (length (digits b)) \<longleftrightarrow> length (digits a) = length (digits b)"
proof -
  have "unat (of_nat (length (digits n)) :: u8) = length (digits n)" for n
    using digits_bounds(2) [of n] by (simp add: unat_of_nat)
  then show ?thesis by metis
qed

lemma left_encode_cut: "encoded_value (left_encode a) @ r = encoded_value (left_encode b) @ s \<longleftrightarrow> a = b \<and> r = s"
  by (auto simp: left_encode_value length_byte_inject append_eq_append_conv dest: digits_inject)

lemma right_encode_cut: "r @ encoded_value (right_encode a) = s @ encoded_value (right_encode b) \<longleftrightarrow> a = b \<and> r = s"
  by (auto simp: right_encode_value length_byte_inject append_eq_append_conv dest: digits_inject)

text \<open>
  The length encodings of SP 800-185 are uniquely decodable. A left encoding is the number of
  its significant bytes and then these bytes, without a leading zero, and is recognized at the
  front of any buffer; a right encoding carries the number behind and is recognized at the end of
  any buffer.
\<close>

theorem length_encodings_decodable:
  "encoded_value (left_encode n) = of_nat (length (digits n)) # digits n \<and>
   encoded_value (right_encode n) = digits n @ [of_nat (length (digits n))] \<and>
   u64_be n = zeros (8 - length (digits n)) @ digits n \<and> (digits n = [0] \<or> hd (digits n) \<noteq> 0) \<and>
   (encoded_value (left_encode a) @ r = encoded_value (left_encode b) @ s \<longleftrightarrow> a = b \<and> r = s) \<and>
   (r @ encoded_value (right_encode a) = s @ encoded_value (right_encode b) \<longleftrightarrow> a = b \<and> r = s)"
  using left_encode_value right_encode_value digits_spec digits_head left_encode_cut right_encode_cut by blast

end
