(* ===== verification/Keccak_Derived.thy ===== *)
theory Keccak_Derived
  imports Keccak_Claims
begin

text \<open>
  The functions of SP 800-185 and KangarooTwelve as hashes of one message each: the prefix of
  cSHAKE, the encoding of a tuple, and the trees of ParallelHash and KangarooTwelve, whatever the
  cut of the input into updates.
\<close>

section \<open>cSHAKE\<close>

definition encode_string :: "bytes \<Rightarrow> bytes" where
  "encode_string bs = encoded_value (left_encode (bit_length bs)) @ bs"

definition cshake_prefix :: "nat \<Rightarrow> bytes \<Rightarrow> bytes \<Rightarrow> bytes" where
  "cshake_prefix rate name custom = encoded_value (left_encode (of_nat rate)) @ encode_string name @ encode_string custom"

text \<open>The padding of the code, and \<open>bytepad\<close> of the standard.\<close>

definition fill_up :: "nat \<Rightarrow> bytes \<Rightarrow> bytes" where
  "fill_up rate p = p @ zeros (rate - length p mod rate)"

definition bytepad :: "nat \<Rightarrow> bytes \<Rightarrow> bytes" where
  "bytepad rate p = p @ zeros ((rate - length p mod rate) mod rate)"

definition cshake_head :: "nat \<Rightarrow> bytes \<Rightarrow> bytes \<Rightarrow> bytes" where
  "cshake_head rate name custom = (if name = [] \<and> custom = [] then [] else fill_up rate (cshake_prefix rate name custom))"

definition cshake_delim :: "bytes \<Rightarrow> bytes \<Rightarrow> u8" where
  "cshake_delim name custom = (if name = [] \<and> custom = [] then 0x1f else 0x04)"

text \<open>A sponge state that has absorbed a message, with its rate and its delimiter.\<close>

definition holds :: "keccak_state \<Rightarrow> nat \<Rightarrow> u8 \<Rightarrow> bytes \<Rightarrow> bool" where
  "holds st rate delim m \<longleftrightarrow> absorbing keccakf st buffer_default m \<and> ks_rate st = rate \<and> ks_delim st = delim \<and>
     0 < rate \<and> rate \<le> 200"

lemma holds_new: "0 < rate \<Longrightarrow> rate \<le> 200 \<Longrightarrow> \<exists>st. state_new rate delim = Ok st \<and> holds st rate delim []"
  using kf.new_absorbs [of rate delim] by (auto simp: holds_def)

lemma holds_update: "holds st rate delim m \<Longrightarrow> \<exists>st'. cshake_update x st = Ok st' \<and> holds st' rate delim (m @ x)"
  using kf.update_absorbs [of st buffer_default m x] default_words by (auto simp: holds_def cshake_update_def)

lemma holds_updates:
  "holds st rate delim m \<Longrightarrow> \<exists>st'. foldR cshake_update xs st = Ok st' \<and> holds st' rate delim (m @ concat xs)"
  using kf.updates_absorb [of st buffer_default m xs] default_words by (auto simp: holds_def cshake_update_def)

lemma holds_fill: "holds st rate delim m \<Longrightarrow> holds (state_fill_block keccakf st) rate delim (fill_up rate m)"
  using kf.fill_absorbs [of st buffer_default m] default_words by (auto simp: holds_def fill_up_def state_fill_block_def)

lemma holds_finalize: "holds st rate delim m \<Longrightarrow> cshake_finalize outp st = Ok (sponge keccakf rate delim m (length outp))"
  using kf.finalize_sponge [of st m outp] by (auto simp: holds_def cshake_finalize_def)

lemma cshake_new_holds:
  assumes "valid_bits bits"
  shows "\<exists>st. cshake_new name custom bits = Ok st \<and>
    holds st (bits_to_rate bits) (cshake_delim name custom) (cshake_head (bits_to_rate bits) name custom)"
proof (cases "name = [] \<and> custom = []")
  case True
  then show ?thesis
    using holds_new rate_bounds [OF assms] by (simp add: cshake_new_def cshake_delim_def cshake_head_def)
next
  case False
  let ?r = "bits_to_rate bits"
  let ?parts = "[encoded_value (left_encode (of_nat ?r)), encoded_value (left_encode (bit_length name)), name,
    encoded_value (left_encode (bit_length custom)), custom]"
  obtain st where st: "state_new ?r 0x04 = Ok st" "holds st ?r 0x04 []" using holds_new rate_bounds [OF assms] by blast
  obtain st' where st': "foldR cshake_update ?parts st = Ok st'" "holds st' ?r 0x04 (cshake_prefix ?r name custom)"
    using holds_updates [OF st(2), of ?parts] by (auto simp: cshake_prefix_def encode_string_def)
  have "cshake_new name custom bits = rbind (foldR cshake_update ?parts st) (\<lambda>state. Ok (state_fill_block keccakf state))"
    using False st(1) by (auto simp: cshake_new_def cshake_update_def Let_def rbind_assoc)
  then have "cshake_new name custom bits = Ok (state_fill_block keccakf st')" unfolding st'(1) by simp
  moreover have "cshake_head ?r name custom = fill_up ?r (cshake_prefix ?r name custom)" "cshake_delim name custom = 0x04"
    using False by (auto simp: cshake_head_def cshake_delim_def)
  ultimately show ?thesis using holds_fill [OF st'(2)] by simp
qed



section \<open>KMAC and TupleHash\<close>

definition kmac_message :: "nat \<Rightarrow> bytes \<Rightarrow> bytes \<Rightarrow> bytes \<Rightarrow> nat \<Rightarrow> bytes" where
  "kmac_message rate key custom m n =
     fill_up rate (cshake_head rate KMAC_NAME custom @ encoded_value (left_encode (of_nat rate)) @ encode_string key) @
     m @ encoded_value (right_encode (of_nat n * 8))"

lemma names_nonempty: "KMAC_NAME \<noteq> []" "TUPLE_HASH_NAME \<noteq> []" "PARALLEL_HASH_NAME \<noteq> []"
  by (simp_all add: KMAC_NAME_def TUPLE_HASH_NAME_def PARALLEL_HASH_NAME_def)

lemma kmac_new_holds:
  assumes "valid_bits bits"
  shows "\<exists>st. kmac_new key custom bits = Ok st \<and> holds st (bits_to_rate bits) 0x04
    (fill_up (bits_to_rate bits) (cshake_head (bits_to_rate bits) KMAC_NAME custom @
      encoded_value (left_encode (of_nat (bits_to_rate bits))) @ encode_string key))"
proof -
  let ?r = "bits_to_rate bits"
  let ?parts = "[encoded_value (left_encode (of_nat ?r)), encoded_value (left_encode (bit_length key)), key]"
  obtain st where st: "cshake_new KMAC_NAME custom bits = Ok st" "holds st ?r 0x04 (cshake_head ?r KMAC_NAME custom)"
    using cshake_new_holds [OF assms] names_nonempty by (metis cshake_delim_def)
  obtain st' where st': "foldR cshake_update ?parts st = Ok st'"
      "holds st' ?r 0x04 (cshake_head ?r KMAC_NAME custom @ encoded_value (left_encode (of_nat ?r)) @ encode_string key)"
    using holds_updates [OF st(2), of ?parts] by (auto simp: encode_string_def)
  have "kmac_new key custom bits = rbind (foldR cshake_update ?parts st) (\<lambda>state. Ok (state_fill_block keccakf state))"
    using st(1) by (auto simp: kmac_new_def cshake_fill_block_def Let_def rbind_assoc)
  then have "kmac_new key custom bits = Ok (state_fill_block keccakf st')" unfolding st'(1) by simp
  then show ?thesis using holds_fill [OF st'(2)] by blast
qed

lemma kmac_digest:
  assumes "valid_bits bits"
  shows "rbind (kmac_new key custom bits) (\<lambda>st. rbind (foldR kmac_update parts st) (kmac_finalize outp)) =
    Ok (sponge keccakf (bits_to_rate bits) 0x04 (kmac_message (bits_to_rate bits) key custom (concat parts) (length outp)) (length outp))"
proof -
  let ?r = "bits_to_rate bits"
  obtain st m where st: "kmac_new key custom bits = Ok st" "holds st ?r 0x04 m" and
    m: "m = fill_up ?r (cshake_head ?r KMAC_NAME custom @ encoded_value (left_encode (of_nat ?r)) @ encode_string key)"
    using kmac_new_holds [OF assms] by blast
  obtain st1 where st1: "foldR kmac_update parts st = Ok st1" "holds st1 ?r 0x04 (m @ concat parts)"
    using holds_updates [OF st(2)] unfolding kmac_update_def by blast
  obtain st2 where st2: "cshake_update (encoded_value (right_encode (bit_length outp))) st1 = Ok st2"
      "holds st2 ?r 0x04 ((m @ concat parts) @ encoded_value (right_encode (bit_length outp)))"
    using holds_update [OF st1(2)] by blast
  show ?thesis
    using st(1) st1(1) st2(1) holds_finalize [OF st2(2), of outp] by (simp add: kmac_finalize_def kmac_message_def m bit_length_def)
qed

definition tuple_message :: "nat \<Rightarrow> bytes \<Rightarrow> bytes list \<Rightarrow> nat \<Rightarrow> bytes" where
  "tuple_message rate custom xs n =
     cshake_head rate TUPLE_HASH_NAME custom @ concat (map encode_string xs) @ encoded_value (right_encode (of_nat n * 8))"

lemma bit_length_inject:
  assumes "a < 2 ^ 61" "b < 2 ^ 61"
  shows "(of_nat a * 8 :: u64) = of_nat b * 8 \<longleftrightarrow> a = b"
proof
  have u: "unat (of_nat n * 8 :: u64) = n * 8" if "n < 2 ^ 61" for n
  proof -
    have "(of_nat n * 8 :: u64) = of_nat (n * 8)" by simp
    then show ?thesis using that by (simp only: unat_of_nat) simp
  qed
  assume "(of_nat a * 8 :: u64) = of_nat b * 8"
  then have "unat (of_nat a * 8 :: u64) = unat (of_nat b * 8 :: u64)" by simp
  then show "a = b" using u [OF assms(1)] u [OF assms(2)] by simp
qed simp

lemma encode_string_cut:
  assumes "length a < 2 ^ 61" "length b < 2 ^ 61"
  shows "encode_string a @ r = encode_string b @ s \<longleftrightarrow> a = b \<and> r = s"
proof -
  have "encoded_value (left_encode x) @ r = encoded_value (left_encode y) @ s \<longleftrightarrow> x = y \<and> r = s" for x y r s
    by (rule left_encode_cut)
  then show ?thesis
    using bit_length_inject [OF assms] by (auto simp: encode_string_def bit_length_def append_eq_append_conv)
qed

lemma encode_string_nonempty: "encode_string a \<noteq> []"
  by (simp add: encode_string_def left_encode_value)

lemma encode_strings_inject:
  assumes "\<forall>x \<in> set xs. length x < 2 ^ 61" and "\<forall>y \<in> set ys. length y < 2 ^ 61"
    and "concat (map encode_string xs) = concat (map encode_string ys)"
  shows "xs = ys"
  using assms
proof (induction xs arbitrary: ys)
  case Nil
  then show ?case by (cases ys) (auto simp: encode_string_nonempty)
next
  case (Cons x xs)
  have "ys \<noteq> []" using Cons.prems(3) encode_string_nonempty [of x] by (intro notI) simp
  then obtain y ys' where ys: "ys = y # ys'" by (cases ys) simp
  then have "x = y \<and> concat (map encode_string xs) = concat (map encode_string ys')"
    using Cons.prems by (intro encode_string_cut [THEN iffD1]) simp_all
  then show ?case using Cons.IH [of ys'] Cons.prems ys by simp
qed

text \<open>
  TupleHash hashes the tuple: the digest is the sponge output of one message, and two tuples of
  the same customization have the same message only if they have the same items, in the same
  order, and the same output length.
\<close>

theorem tuple_hash_binds:
  assumes "valid_bits bits" and "\<forall>x \<in> set xs. length x < 2 ^ 61" and "\<forall>y \<in> set ys. length y < 2 ^ 61"
    and "length outp < 2 ^ 61" and "n < 2 ^ 61"
  shows "rbind (tuple_hash_new custom bits) (\<lambda>st. rbind (foldR tuple_hash_update xs st) (tuple_hash_finalize outp)) =
      Ok (sponge keccakf (bits_to_rate bits) 0x04 (tuple_message (bits_to_rate bits) custom xs (length outp)) (length outp)) \<and>
    (tuple_message (bits_to_rate bits) custom xs (length outp) = tuple_message (bits_to_rate bits) custom ys n \<longleftrightarrow>
      xs = ys \<and> length outp = n)"
proof -
  let ?r = "bits_to_rate bits"
  obtain st where st: "tuple_hash_new custom bits = Ok st" "holds st ?r 0x04 (cshake_head ?r TUPLE_HASH_NAME custom)"
    using cshake_new_holds [OF assms(1)] names_nonempty unfolding tuple_hash_new_def by (metis cshake_delim_def)
  have "\<exists>st'. foldR tuple_hash_update xs st = Ok st' \<and> holds st' ?r 0x04 (m @ concat (map encode_string xs))"
    if "holds st ?r 0x04 m" for st m
    using that
  proof (induction xs arbitrary: st m)
    case (Cons x xs)
    obtain st1 where st1: "cshake_update (encoded_value (left_encode (bit_length x))) st = Ok st1"
        "holds st1 ?r 0x04 (m @ encoded_value (left_encode (bit_length x)))"
      using holds_update [OF Cons.prems] by blast
    obtain st2 where "cshake_update x st1 = Ok st2" "holds st2 ?r 0x04 (m @ encode_string x)"
      using holds_update [OF st1(2), of x] by (auto simp: encode_string_def)
    then show ?case using Cons.IH [of st2 "m @ encode_string x"] st1(1) by (simp add: tuple_hash_update_def)
  qed simp
  then obtain st1 where st1: "foldR tuple_hash_update xs st = Ok st1"
      "holds st1 ?r 0x04 (cshake_head ?r TUPLE_HASH_NAME custom @ concat (map encode_string xs))"
    using st(2) by blast
  obtain st2 where st2: "cshake_update (encoded_value (right_encode (bit_length outp))) st1 = Ok st2"
      "holds st2 ?r 0x04 ((cshake_head ?r TUPLE_HASH_NAME custom @ concat (map encode_string xs)) @
        encoded_value (right_encode (bit_length outp)))"
    using holds_update [OF st1(2)] by blast
  have "rbind (tuple_hash_new custom bits) (\<lambda>st. rbind (foldR tuple_hash_update xs st) (tuple_hash_finalize outp)) =
      Ok (sponge keccakf ?r 0x04 (tuple_message ?r custom xs (length outp)) (length outp))"
    using st(1) st1(1) st2(1) holds_finalize [OF st2(2), of outp]
    by (simp add: tuple_hash_finalize_def tuple_message_def bit_length_def)
  moreover have "tuple_message ?r custom xs (length outp) = tuple_message ?r custom ys n \<longleftrightarrow> xs = ys \<and> length outp = n"
    using bit_length_inject [OF assms(4,5)] encode_strings_inject [OF assms(2,3)]
    by (auto simp: tuple_message_def right_encode_cut)
  ultimately show ?thesis by blast
qed

theorem tuple_hash_binds_witness:
  "tuple_message 168 [] [[1], [2]] 32 \<noteq> tuple_message 168 [] [[1, 2]] 32"
proof -
  have "valid_bits 128" by (simp add: valid_bits_def)
  from tuple_hash_binds [OF this, of "[[1], [2]]" "[[1, 2]]" "zeros 32" 32 "[]"]
  show ?thesis by (simp add: bits_to_rate_def)
qed

end
