(* ===== verification/Keccak_Trees.thy ===== *)
theory Keccak_Trees
  imports Keccak_Derived
begin

text \<open>
  The tree hashes of \<open>guest/tiny-keccak-patch\<close>: ParallelHash and KangarooTwelve hash the tree of
  their whole input, however it is cut into updates.
\<close>

section \<open>ParallelHash\<close>

definition sub_hash :: "nat \<Rightarrow> bytes \<Rightarrow> bytes" where
  "sub_hash bits b = sponge keccakf (bits_to_rate bits) 0x1f b (bits div 4)"

definition parallel_leaves :: "nat \<Rightarrow> bytes \<Rightarrow> bytes list" where
  "parallel_leaves B m = sponge_blocks B m @ (if rest B m = [] then [] else [rest B m])"

definition parallel_head :: "nat \<Rightarrow> bytes \<Rightarrow> nat \<Rightarrow> bytes" where
  "parallel_head bits custom B =
     cshake_head (bits_to_rate bits) PARALLEL_HASH_NAME custom @ encoded_value (left_encode (of_nat B))"

definition parallel_message :: "nat \<Rightarrow> bytes \<Rightarrow> nat \<Rightarrow> bytes \<Rightarrow> nat \<Rightarrow> bytes" where
  "parallel_message bits custom B m n =
     parallel_head bits custom B @ concat (map (sub_hash bits) (parallel_leaves B m)) @
     encoded_value (right_encode (of_nat (length (parallel_leaves B m)))) @ encoded_value (right_encode (of_nat n * 8))"

definition parallel_holds :: "nat \<Rightarrow> bytes \<Rightarrow> nat \<Rightarrow> parallel_hash \<Rightarrow> bytes \<Rightarrow> bool" where
  "parallel_holds bits custom B ph m \<longleftrightarrow> ph_block_size ph = B \<and> ph_bits ph = bits \<and> ph_blocks ph = length (sponge_blocks B m) \<and>
     holds (ph_state ph) (bits_to_rate bits) 0x04 (parallel_head bits custom B @ concat (map (sub_hash bits) (sponge_blocks B m))) \<and>
     (case ph_unfinished ph of None \<Rightarrow> rest B m = []
      | Some u \<Rightarrow> rest B m \<noteq> [] \<and> us_absorbed u = length m mod B \<and> holds (us_state u) (bits_to_rate bits) 0x1f (rest B m))"

lemma chunks_blocks:
  assumes "0 < B"
  shows "chunks B (take (length x div B * B) x) = sponge_blocks B x"
proof (induction "length x" arbitrary: x rule: less_induct)
  case less
  show ?case
  proof (cases "length x < B")
    case True
    then show ?thesis by (subst chunks.simps) (simp add: blocks_short)
  next
    case False
    let ?q = "length (drop B x) div B"
    have q: "length x div B = Suc ?q" using False assms by (simp add: le_div_geq)
    have "B \<le> length x div B * B" by (simp add: q)
    then have "take B (take (length x div B * B) x) = take B x" by (simp add: min_absorb1)
    moreover have "drop B (take (length x div B * B) x) = take (?q * B) (drop B x)" by (simp add: q drop_take)
    moreover have "take (length x div B * B) x \<noteq> []" using False assms by (simp add: q) (metis list.size(3) not_less0)
    ultimately have "chunks B (take (length x div B * B) x) = take B x # chunks B (take (?q * B) (drop B x))"
      using assms by (subst chunks.simps) simp
    moreover have "chunks B (take (?q * B) (drop B x)) = sponge_blocks B (drop B x)"
      using less.hyps [of "drop B x"] False assms by simp
    ultimately show ?thesis using False assms by (simp add: blocks_step)
  qed
qed

lemma absorb_suboutput_holds:
  assumes "holds st (bits_to_rate (ph_bits ph)) 0x1f b" and "holds (ph_state ph) r 0x04 m"
  shows "\<exists>s. absorb_suboutput st ph = Ok (ph\<lparr>ph_state := s, ph_blocks := ph_blocks ph + 1\<rparr>) \<and>
    holds s r 0x04 (m @ sub_hash (ph_bits ph) b)"
proof -
  have "length (suboutput (ph_bits ph)) = ph_bits ph div 4" by (simp add: suboutput_def)
  then have "cshake_finalize (suboutput (ph_bits ph)) st = Ok (sub_hash (ph_bits ph) b)"
    using holds_finalize [OF assms(1), of "suboutput (ph_bits ph)"] by (simp add: sub_hash_def)
  then show ?thesis using holds_update [OF assms(2), of "sub_hash (ph_bits ph) b"] by (auto simp: absorb_suboutput_def)
qed

lemma plain_cshake:
  assumes "valid_bits bits"
  shows "\<exists>st. rbind (cshake_new [] [] bits) (cshake_update x) = Ok st \<and> holds st (bits_to_rate bits) 0x1f x"
proof -
  obtain st where "cshake_new [] [] bits = Ok st" "holds st (bits_to_rate bits) 0x1f []"
    using cshake_new_holds [OF assms, of "[]" "[]"] by (auto simp: cshake_head_def cshake_delim_def)
  then show ?thesis using holds_update [of st _ _ "[]" x] by simp
qed

lemma hash_chunk_holds:
  assumes "valid_bits (ph_bits ph)" and "holds (ph_state ph) r 0x04 m"
  shows "\<exists>s. hash_chunk x ph = Ok (ph\<lparr>ph_state := s, ph_blocks := ph_blocks ph + 1\<rparr>) \<and>
    holds s r 0x04 (m @ sub_hash (ph_bits ph) x)"
proof -
  obtain st where "rbind (cshake_new [] [] (ph_bits ph)) (cshake_update x) = Ok st" "holds st (bits_to_rate (ph_bits ph)) 0x1f x"
    using plain_cshake [OF assms(1)] by blast
  then show ?thesis using absorb_suboutput_holds [OF _ assms(2)] by (auto simp: hash_chunk_def)
qed

lemma hash_chunks_hold:
  assumes "valid_bits (ph_bits ph)" and "holds (ph_state ph) r 0x04 m"
  shows "\<exists>s. foldR hash_chunk xs ph = Ok (ph\<lparr>ph_state := s, ph_blocks := ph_blocks ph + length xs\<rparr>) \<and>
    holds s r 0x04 (m @ concat (map (sub_hash (ph_bits ph)) xs))"
  using assms
proof (induction xs arbitrary: ph m)
  case (Cons x xs)
  obtain s where s: "hash_chunk x ph = Ok (ph\<lparr>ph_state := s, ph_blocks := ph_blocks ph + 1\<rparr>)"
      "holds s r 0x04 (m @ sub_hash (ph_bits ph) x)"
    using hash_chunk_holds [OF Cons.prems] by blast
  then show ?case
    using Cons.IH [of "ph\<lparr>ph_state := s, ph_blocks := ph_blocks ph + 1\<rparr>" "m @ sub_hash (ph_bits ph) x"] Cons.prems(1) by simp
next
  case Nil
  then show ?case by (auto intro: exI [of _ "ph_state ph"])
qed

lemma parallel_blocks_hold:
  assumes bits: "valid_bits bits" and B: "0 < B" and inv: "parallel_holds bits custom B ph m" and "ph_unfinished ph = None"
  shows "\<exists>ph'. parallel_blocks x ph = Ok ph' \<and> parallel_holds bits custom B ph' (m @ x)"
proof -
  let ?r = "bits_to_rate bits"
  have ph: "ph_block_size ph = B" "ph_bits ph = bits" "rest B m = []" using inv assms(4) by (simp_all add: parallel_holds_def)
  have split: "sponge_blocks B (m @ x) = sponge_blocks B m @ sponge_blocks B x" "rest B (m @ x) = rest B x"
    using blocks_append [OF B, of m x] ph(3) by simp_all
  have "length m mod B = 0" using ph(3) by (metis length_rest list.size(3))
  then have len: "length (m @ x) mod B = length x mod B" by (simp add: mod_add_left_eq [symmetric])
  obtain s where s: "foldR hash_chunk (sponge_blocks B x) ph =
        Ok (ph\<lparr>ph_state := s, ph_blocks := ph_blocks ph + length (sponge_blocks B x)\<rparr>)"
      "holds s ?r 0x04 ((parallel_head bits custom B @ concat (map (sub_hash bits) (sponge_blocks B m))) @
        concat (map (sub_hash bits) (sponge_blocks B x)))"
    using hash_chunks_hold [of ph ?r _ "sponge_blocks B x"] inv bits by (fastforce simp: parallel_holds_def ph)
  let ?ph = "ph\<lparr>ph_state := s, ph_blocks := ph_blocks ph + length (sponge_blocks B x)\<rparr>"
  have end_: "drop (length x div B * B) x = rest B x" by (simp add: rest_def)
  show ?thesis
  proof (cases "rest B x = []")
    case True
    have "drop (length x div B * B) x = []" using end_ True by (simp only:)
    then have "parallel_blocks x ph = Ok ?ph"
      using B by (simp add: parallel_blocks_def ph chunks_blocks [OF B] s(1) Let_def del: drop_eq_Nil)
    moreover have "parallel_holds bits custom B ?ph (m @ x)"
      using inv s(2) split True assms(4) by (simp add: parallel_holds_def)
    ultimately show ?thesis by blast
  next
    case False
    obtain st where st: "rbind (cshake_new [] [] bits) (cshake_update (rest B x)) = Ok st" "holds st ?r 0x1f (rest B x)"
      using plain_cshake [OF bits] by blast
    moreover have "drop (length x div B * B) x \<noteq> []" using end_ False by (simp only: simp_thms)
    ultimately have "parallel_blocks x ph = Ok (?ph\<lparr>ph_unfinished := Some \<lparr>us_state = st, us_absorbed = length x mod B\<rparr>\<rparr>)"
      using B by (auto simp: parallel_blocks_def ph chunks_blocks [OF B] s(1) end_ Let_def assms(4) simp del: drop_eq_Nil)
    moreover have "parallel_holds bits custom B (?ph\<lparr>ph_unfinished := Some \<lparr>us_state = st, us_absorbed = length x mod B\<rparr>\<rparr>) (m @ x)"
      using inv s(2) split False st(2) len by (simp add: parallel_holds_def)
    ultimately show ?thesis by blast
  qed
qed

lemma parallel_update_holds:
  assumes bits: "valid_bits bits" and B: "0 < B" and inv: "parallel_holds bits custom B ph m"
  shows "\<exists>ph'. parallel_hash_update x ph = Ok ph' \<and> parallel_holds bits custom B ph' (m @ x)"
proof (cases "ph_unfinished ph")
  case None
  then show ?thesis using parallel_blocks_hold [OF bits B inv None] by (simp add: parallel_hash_update_def)
next
  case (Some u)
  let ?r = "bits_to_rate bits" and ?room = "B - length m mod B"
  have u: "rest B m \<noteq> []" "us_absorbed u = length m mod B" "holds (us_state u) ?r 0x1f (rest B m)"
    and ph: "ph_block_size ph = B" "ph_bits ph = bits"
    and main: "holds (ph_state ph) ?r 0x04 (parallel_head bits custom B @ concat (map (sub_hash bits) (sponge_blocks B m)))"
      "ph_blocks ph = length (sponge_blocks B m)"
    using inv Some by (simp_all add: parallel_holds_def)
  show ?thesis
  proof (cases "?room \<le> length x")
    case True
    let ?b = "rest B m @ take ?room x"
    have lb: "length ?b = B" using True B by simp
    obtain st where st: "cshake_update (take ?room x) (us_state u) = Ok st" "holds st ?r 0x1f ?b"
      using holds_update [OF u(3)] by blast
    let ?ph = "ph\<lparr>ph_unfinished := None\<rparr>"
    obtain s where s: "absorb_suboutput st ?ph = Ok (?ph\<lparr>ph_state := s, ph_blocks := ph_blocks ph + 1\<rparr>)"
        "holds s ?r 0x04 ((parallel_head bits custom B @ concat (map (sub_hash bits) (sponge_blocks B m))) @ sub_hash bits ?b)"
    proof -
      have h: "holds st (bits_to_rate (ph_bits ?ph)) 0x1f ?b" "holds (ph_state ?ph) ?r 0x04
          (parallel_head bits custom B @ concat (map (sub_hash bits) (sponge_blocks B m)))"
        using st(2) main(1) ph by simp_all
      show thesis using absorb_suboutput_holds [OF h] ph that by auto
    qed
    let ?ph1 = "?ph\<lparr>ph_state := s, ph_blocks := ph_blocks ph + 1\<rparr>" and ?m1 = "m @ take ?room x"
    have "sponge_blocks B ?b = [?b]" "rest B ?b = []"
    proof -
      show "sponge_blocks B ?b = [?b]" using B lb by (simp add: blocks_step blocks_short)
      have "length (rest B ?b) = 0" using lb by (simp only: length_rest) simp
      then show "rest B ?b = []" by (rule length_0_conv [THEN iffD1])
    qed
    then have "sponge_blocks B ?m1 = sponge_blocks B m @ [?b]" "rest B ?m1 = []"
      using blocks_append [OF B, of m "take ?room x"] by simp_all
    then have "parallel_holds bits custom B ?ph1 ?m1" using s(2) ph main(2) by (simp add: parallel_holds_def)
    then obtain ph' where "parallel_blocks (drop ?room x) ?ph1 = Ok ph'" "parallel_holds bits custom B ph' (?m1 @ drop ?room x)"
      using parallel_blocks_hold [OF bits B, of custom ?ph1 ?m1 "drop ?room x"] by auto
    then show ?thesis using True Some st(1) s(1) by (simp add: parallel_hash_update_def u(2) ph Let_def)
  next
    case False
    obtain st where st: "cshake_update x (us_state u) = Ok st" "holds st ?r 0x1f (rest B m @ x)"
      using holds_update [OF u(3)] by blast
    have short: "length (rest B m @ x) < B" using False B by simp
    have "sponge_blocks B (m @ x) = sponge_blocks B m" "rest B (m @ x) = rest B m @ x"
      using blocks_append [OF B, of m x] blocks_short [OF short] rest_short [OF short] by simp_all
    moreover have "length (m @ x) mod B = length m mod B + length x"
      using same_block [of "length m" B "length x"] short by simp
    ultimately have "parallel_holds bits custom B
        (ph\<lparr>ph_unfinished := Some \<lparr>us_state = st, us_absorbed = us_absorbed u + length x\<rparr>\<rparr>) (m @ x)"
      using st(2) u main ph by (simp add: parallel_holds_def)
    then show ?thesis using False Some st(1) by (simp add: parallel_hash_update_def u(2) ph Let_def)
  qed
qed

lemma parallel_new_holds:
  assumes "valid_bits bits"
  shows "\<exists>ph. parallel_hash_new custom B bits = Ok ph \<and> parallel_holds bits custom B ph []"
proof -
  let ?r = "bits_to_rate bits"
  obtain st where st: "cshake_new PARALLEL_HASH_NAME custom bits = Ok st" "holds st ?r 0x04 (cshake_head ?r PARALLEL_HASH_NAME custom)"
    using cshake_new_holds [OF assms] names_nonempty by (metis cshake_delim_def)
  moreover have "sponge_blocks B [] = []" by (subst sponge_blocks.simps) auto
  moreover have "rest B [] = []" by (simp add: rest_def)
  ultimately show ?thesis
    using holds_update [OF st(2)] by (fastforce simp: parallel_hash_new_def parallel_holds_def parallel_head_def)
qed

lemma parallel_updates_hold:
  assumes "valid_bits bits" and "0 < B" and "parallel_holds bits custom B ph m"
  shows "\<exists>ph'. foldR parallel_hash_update xs ph = Ok ph' \<and> parallel_holds bits custom B ph' (m @ concat xs)"
  using assms(3)
proof (induction xs arbitrary: ph m)
  case (Cons x xs)
  obtain ph1 where "parallel_hash_update x ph = Ok ph1" "parallel_holds bits custom B ph1 (m @ x)"
    using parallel_update_holds [OF assms(1,2) Cons.prems] by blast
  then show ?case using Cons.IH [of ph1 "m @ x"] by simp
qed auto

lemma parallel_last_holds:
  assumes "parallel_holds bits custom B ph m"
  shows "\<exists>ph'. parallel_last_block ph = Ok ph' \<and> ph_blocks ph' = length (parallel_leaves B m) \<and>
    holds (ph_state ph') (bits_to_rate bits) 0x04 (parallel_head bits custom B @ concat (map (sub_hash bits) (parallel_leaves B m)))"
proof (cases "ph_unfinished ph")
  case None
  then show ?thesis using assms by (simp add: parallel_last_block_def parallel_holds_def parallel_leaves_def)
next
  case (Some u)
  let ?r = "bits_to_rate bits" and ?ph = "ph\<lparr>ph_unfinished := None\<rparr>"
  have h: "holds (us_state u) (bits_to_rate (ph_bits ?ph)) 0x1f (rest B m)" "holds (ph_state ?ph) ?r 0x04
      (parallel_head bits custom B @ concat (map (sub_hash bits) (sponge_blocks B m)))"
    and ph: "rest B m \<noteq> []" "ph_bits ph = bits" "ph_blocks ph = length (sponge_blocks B m)"
    using assms Some by (simp_all add: parallel_holds_def)
  show ?thesis
    using absorb_suboutput_holds [OF h] Some ph by (auto simp: parallel_last_block_def parallel_leaves_def)
qed

text \<open>
  ParallelHash hashes its tree: however the input is cut into updates, the digest is the sponge
  output of one message, made of the block size, the digests of the consecutive blocks of that size
  with a shorter last one, their number and the output length.
\<close>

theorem parallel_hash_is_tree:
  assumes "valid_bits bits" and "0 < block_size"
  shows "rbind (parallel_hash_new custom block_size bits) (\<lambda>ph. rbind (foldR parallel_hash_update parts ph)
      (parallel_hash_finalize outp)) =
    Ok (sponge keccakf (bits_to_rate bits) 0x04
      (parallel_message bits custom block_size (concat parts) (length outp)) (length outp))"
proof -
  let ?r = "bits_to_rate bits" and ?m = "concat parts"
  obtain ph where ph: "parallel_hash_new custom block_size bits = Ok ph" "parallel_holds bits custom block_size ph []"
    using parallel_new_holds [OF assms(1)] by blast
  obtain ph1 where ph1: "foldR parallel_hash_update parts ph = Ok ph1" "parallel_holds bits custom block_size ph1 ?m"
    using parallel_updates_hold [OF assms ph(2)] by auto
  obtain ph2 where ph2: "parallel_last_block ph1 = Ok ph2" "ph_blocks ph2 = length (parallel_leaves block_size ?m)"
      "holds (ph_state ph2) ?r 0x04 (parallel_head bits custom block_size @ concat (map (sub_hash bits) (parallel_leaves block_size ?m)))"
    using parallel_last_holds [OF ph1(2)] by blast
  obtain st1 where st1: "cshake_update (encoded_value (right_encode (of_nat (ph_blocks ph2)))) (ph_state ph2) = Ok st1"
      "holds st1 ?r 0x04 ((parallel_head bits custom block_size @ concat (map (sub_hash bits) (parallel_leaves block_size ?m))) @
        encoded_value (right_encode (of_nat (ph_blocks ph2))))"
    using holds_update [OF ph2(3)] by blast
  obtain st2 where st2: "cshake_update (encoded_value (right_encode (bit_length outp))) st1 = Ok st2"
      "holds st2 ?r 0x04 (((parallel_head bits custom block_size @ concat (map (sub_hash bits) (parallel_leaves block_size ?m))) @
        encoded_value (right_encode (of_nat (ph_blocks ph2)))) @ encoded_value (right_encode (bit_length outp)))"
    using holds_update [OF st1(2)] by blast
  show ?thesis
    using ph(1) ph1(1) ph2(1) st1(1) st2(1) holds_finalize [OF st2(2), of outp]
    by (simp add: parallel_hash_finalize_def parallel_message_def ph2(2) bit_length_def)
qed

theorem parallel_hash_is_tree_witness:
  "rbind (parallel_hash_new [] 2 128) (\<lambda>ph. rbind (foldR parallel_hash_update [[1], [2, 3]] ph) (parallel_hash_finalize (zeros 32))) =
   rbind (parallel_hash_new [] 2 128) (\<lambda>ph. rbind (foldR parallel_hash_update [[1, 2, 3]] ph) (parallel_hash_finalize (zeros 32)))"
proof -
  have "valid_bits 128" by (simp add: valid_bits_def)
  note run = parallel_hash_is_tree [OF this, of 2 "[]" _ "zeros 32"]
  show ?thesis using run [of "[[1], [2, 3]]"] run [of "[[1, 2, 3]]"] by (simp only: zero_less_numeral concat.simps append.simps)
qed

section \<open>KangarooTwelve\<close>

definition k_holds :: "keccak_state \<Rightarrow> bytes \<Rightarrow> bool" where
  "k_holds st m \<longleftrightarrow> absorbing keccakp st buffer_default m \<and> ks_rate st = 168"

lemma k_update: "k_holds st m \<Longrightarrow> \<exists>st'. state_update keccakp x st = Ok st' \<and> k_holds st' (m @ x) \<and> ks_delim st' = ks_delim st"
  using kp.update_absorbs [of st buffer_default m x] default_words by (auto simp: k_holds_def)

lemma k_finalize: "k_holds st m \<Longrightarrow> state_finalize keccakp outp st = Ok (sponge keccakp 168 (ks_delim st) m (length outp))"
  using kp.finalize_sponge [of st m outp] by (auto simp: k_holds_def)

lemma k_delim: "k_holds (st\<lparr>ks_delim := d\<rparr>) m \<longleftrightarrow> k_holds st m"
  by (simp add: k_holds_def absorbing_def)

lemma k_reset: "ks_rate st = 168 \<Longrightarrow> k_holds (state_reset st) []"
  by (simp add: k_holds_def absorbing_def state_reset_def blocks_short rest_short xor_words_nil default_words)

definition k12_cv :: "bytes \<Rightarrow> bytes" where
  "k12_cv chunk = sponge keccakp 168 0x0b chunk 32"

definition k12_marker :: bytes where "k12_marker = [0x03, 0, 0, 0, 0, 0, 0, 0]"

text \<open>The input with the customization string, and the final node of the tree.\<close>

definition k12_input :: "bytes \<Rightarrow> bytes \<Rightarrow> bytes" where
  "k12_input custom m = m @ custom @ encoded_value (encode_len (of_nat (length custom)))"

definition k12_digest :: "bytes \<Rightarrow> nat \<Rightarrow> bytes" where
  "k12_digest s n =
     (if length s \<le> MAX_CHUNK_SIZE then sponge keccakp 168 0x07 s n
      else let cs = chunks MAX_CHUNK_SIZE (drop MAX_CHUNK_SIZE s)
           in sponge keccakp 168 0x06 (take MAX_CHUNK_SIZE s @ k12_marker @ concat (map k12_cv cs) @
                encoded_value (encode_len (of_nat (length cs))) @ [0xff, 0xff]) n)"

text \<open>A hasher past its first chunk: the closed chunks and the one it fills.\<close>

definition k12_tree :: "kangaroo_twelve \<Rightarrow> bytes \<Rightarrow> bytes list \<Rightarrow> bytes \<Rightarrow> bool" where
  "k12_tree k first cs t \<longleftrightarrow> length first = MAX_CHUNK_SIZE \<and> (\<forall>c \<in> set cs. length c = MAX_CHUNK_SIZE) \<and>
     length t \<le> MAX_CHUNK_SIZE \<and> k12_written k = length t \<and> k12_chunks k = Suc (length cs) \<and>
     k_holds (k12_state k) (first @ k12_marker @ concat (map k12_cv cs)) \<and>
     k_holds (k12_current_chunk k) t \<and> ks_delim (k12_current_chunk k) = 0x0b"

definition k12_holds :: "kangaroo_twelve \<Rightarrow> bytes \<Rightarrow> bool" where
  "k12_holds k m \<longleftrightarrow>
     (length m \<le> MAX_CHUNK_SIZE \<and> k12_chunks k = 0 \<and> k12_written k = length m \<and> k_holds (k12_state k) m \<and>
        k_holds (k12_current_chunk k) [] \<and> ks_delim (k12_current_chunk k) = 0x0b) \<or>
     (\<exists>first cs t. m = first @ concat cs @ t \<and> t \<noteq> [] \<and> k12_tree k first cs t)"

lemma k12_close:
  assumes "k12_tree k first cs t"
  shows "\<exists>k' cs' t'. k12_close_chunk k = Ok k' \<and> k12_tree k' first cs' t' \<and> concat cs' @ t' = concat cs @ t \<and>
    length t' < MAX_CHUNK_SIZE \<and> k12_custom_string k' = k12_custom_string k"
proof (cases "length t = MAX_CHUNK_SIZE")
  case True
  have "state_finalize keccakp (zeros 32) (k12_current_chunk k) = Ok (k12_cv t)"
    using assms k_finalize [of "k12_current_chunk k" t "zeros 32"] by (simp add: k12_tree_def k12_cv_def)
  moreover obtain st where st: "state_update keccakp (k12_cv t) (k12_state k) = Ok st"
      "k_holds st ((first @ k12_marker @ concat (map k12_cv cs)) @ k12_cv t)"
    using assms k_update unfolding k12_tree_def by blast
  ultimately have "k12_close_chunk k = Ok (k\<lparr>k12_state := st, k12_current_chunk := state_reset (k12_current_chunk k),
      k12_written := 0, k12_chunks := k12_chunks k + 1\<rparr>)" (is "_ = Ok ?k")
    using assms True by (simp add: k12_close_chunk_def k12_tree_def)
  moreover have "k12_tree ?k first (cs @ [t]) []"
  proof -
    have "ks_rate (k12_current_chunk k) = 168" using assms by (simp add: k12_tree_def k_holds_def)
    then have "k_holds (state_reset (k12_current_chunk k)) []" by (rule k_reset)
    moreover have "ks_delim (state_reset (k12_current_chunk k)) = ks_delim (k12_current_chunk k)" by (simp add: state_reset_def)
    ultimately show ?thesis using assms True st(2) by (auto simp: k12_tree_def)
  qed
  ultimately show ?thesis by (intro exI [of _ ?k] exI [of _ "cs @ [t]"] exI [of _ "[]"]) (simp add: MAX_CHUNK_SIZE_def)
next
  case False
  then show ?thesis using assms by (auto simp: k12_close_chunk_def k12_tree_def)
qed

lemma k12_absorb_tree:
  assumes "k12_tree k first cs t" and "x \<noteq> [] \<or> t \<noteq> []"
  shows "\<exists>k' cs' t'. k12_absorb x k = Ok k' \<and> k12_tree k' first cs' t' \<and> t' \<noteq> [] \<and> concat cs' @ t' = concat cs @ t @ x \<and>
    k12_custom_string k' = k12_custom_string k"
  using assms
proof (induction "length x" arbitrary: x k cs t rule: less_induct)
  case less
  show ?case
  proof (cases "x = []")
    case True
    then show ?thesis using less.prems by (subst k12_absorb.simps) auto
  next
    case False
    obtain k1 cs1 t1 where k1: "k12_close_chunk k = Ok k1" "k12_tree k1 first cs1 t1" "concat cs1 @ t1 = concat cs @ t"
        "length t1 < MAX_CHUNK_SIZE" "k12_custom_string k1 = k12_custom_string k"
      using k12_close [OF less.prems(1)] by blast
    define todo where "todo = min (MAX_CHUNK_SIZE - k12_written k1) (length x)"
    have w: "k12_written k1 = length t1" using k1(2) by (simp add: k12_tree_def)
    have todo: "0 < todo" "todo \<le> length x" "length t1 + todo \<le> MAX_CHUNK_SIZE"
      using False k1(4) w by (auto simp: todo_def)
    obtain cur where cur: "state_update keccakp (take todo x) (k12_current_chunk k1) = Ok cur" "k_holds cur (t1 @ take todo x)"
        "ks_delim cur = 0x0b"
      using k1(2) k_update [of "k12_current_chunk k1" t1 "take todo x"] by (auto simp: k12_tree_def)
    let ?k2 = "k1\<lparr>k12_current_chunk := cur, k12_written := k12_written k1 + todo\<rparr>"
    have tree: "k12_tree ?k2 first cs1 (t1 @ take todo x)" using k1(2) cur(2,3) todo w by (simp add: k12_tree_def)
    have step: "k12_absorb x k = k12_absorb (drop todo x) ?k2"
      using False k1(1) todo(1) cur(1) by (subst k12_absorb.simps) (simp add: todo_def [symmetric] Let_def)
    have "length (drop todo x) < length x" "drop todo x \<noteq> [] \<or> t1 @ take todo x \<noteq> []" using todo False by auto
    from less.hyps [OF this(1) tree this(2)] obtain k' cs' t' where k': "k12_absorb (drop todo x) ?k2 = Ok k'"
        "k12_tree k' first cs' t'" "t' \<noteq> []" "concat cs' @ t' = concat cs1 @ (t1 @ take todo x) @ drop todo x"
        "k12_custom_string k' = k12_custom_string ?k2"
      by blast
    have "concat cs' @ t' = concat cs @ t @ x"
      using k'(4) arg_cong [OF k1(3), of "\<lambda>z. z @ x"] by simp
    then show ?thesis using step k'(1,2,3,5) k1(5) by auto
  qed
qed

lemma k12_update_holds:
  assumes "k12_holds k m"
  shows "\<exists>k'. k12_update x k = Ok k' \<and> k12_holds k' (m @ x) \<and> k12_custom_string k' = k12_custom_string k"
  using assms [unfolded k12_holds_def]
proof (elim disjE exE conjE)
  fix first cs t assume m: "m = first @ concat cs @ t" "t \<noteq> []" "k12_tree k first cs t"
  have "k12_first_chunk x k = Ok (x, k)" using m(3) by (simp add: k12_first_chunk_def k12_tree_def)
  moreover obtain k' cs' t' where k': "k12_absorb x k = Ok k'" "k12_tree k' first cs' t'" "t' \<noteq> []"
      "concat cs' @ t' = concat cs @ t @ x" "k12_custom_string k' = k12_custom_string k"
    using k12_absorb_tree [OF m(3), of x] m(2) by blast
  moreover have "m @ x = first @ concat cs' @ t'" by (simp add: m(1) k'(4))
  then have "k12_holds k' (m @ x)"
    using k'(2,3) unfolding k12_holds_def by blast
  ultimately show ?thesis by (simp add: k12_update_def)
next
  assume k: "length m \<le> MAX_CHUNK_SIZE" "k12_chunks k = 0" "k12_written k = length m" "k_holds (k12_state k) m"
    "k_holds (k12_current_chunk k) []" "ks_delim (k12_current_chunk k) = 0x0b"
  define todo where "todo = min (MAX_CHUNK_SIZE - length m) (length x)"
  obtain st where st: "state_update keccakp (take todo x) (k12_state k) = Ok st" "k_holds st (m @ take todo x)"
    using k_update [OF k(4)] by blast
  have len: "length m + todo \<le> MAX_CHUNK_SIZE" "todo \<le> length x" using k(1) by (simp_all add: todo_def)
  let ?k = "k\<lparr>k12_state := st, k12_written := length m + todo\<rparr>"
  show ?thesis
  proof (cases "drop todo x = []")
    case True
    then have "k12_update x k = Ok ?k"
      using k st(1) by (simp add: k12_update_def k12_first_chunk_def todo_def [symmetric] Let_def k12_absorb.simps)
    moreover have "take todo x = x" "todo = length x" using True len(2) by auto
    ultimately show ?thesis using k st(2) len by (simp add: k12_holds_def)
  next
    case False
    then have full: "length m + todo = MAX_CHUNK_SIZE" using k(1) by (auto simp: todo_def)
    obtain st2 where st2: "state_update keccakp k12_marker st = Ok st2" "k_holds st2 ((m @ take todo x) @ k12_marker)"
      using k_update [OF st(2)] by blast
    let ?k2 = "?k\<lparr>k12_state := st2, k12_written := 0, k12_chunks := 1\<rparr>"
    have fc: "k12_first_chunk x k = Ok (drop todo x, ?k2)"
      using k st(1) st2(1) False full by (simp add: k12_first_chunk_def todo_def [symmetric] Let_def k12_marker_def)
    have "k12_tree ?k2 (m @ take todo x) [] []" using k st2(2) full len by (simp add: k12_tree_def)
    from k12_absorb_tree [OF this, of "drop todo x"] False
    obtain k' cs' t' where k': "k12_absorb (drop todo x) ?k2 = Ok k'" "k12_tree k' (m @ take todo x) cs' t'" "t' \<noteq> []"
        "concat cs' @ t' = drop todo x" "k12_custom_string k' = k12_custom_string k"
      by auto
    have "m @ x = (m @ take todo x) @ concat cs' @ t'" by (simp add: k'(4))
    then have "k12_holds k' (m @ x)" using k'(2,3) unfolding k12_holds_def by blast
    then show ?thesis using fc k'(1,5) by (simp add: k12_update_def)
  qed
qed

lemma k12_updates_hold:
  assumes "k12_holds k m"
  shows "\<exists>k'. foldR k12_update xs k = Ok k' \<and> k12_holds k' (m @ concat xs) \<and> k12_custom_string k' = k12_custom_string k"
  using assms
proof (induction xs arbitrary: k m)
  case (Cons x xs)
  obtain k1 where "k12_update x k = Ok k1" "k12_holds k1 (m @ x)" "k12_custom_string k1 = k12_custom_string k"
    using k12_update_holds [OF Cons.prems] by blast
  then show ?case using Cons.IH [of k1 "m @ x"] by simp
qed auto

lemma k12_new_holds:
  "\<exists>k. k12_new custom = Ok k \<and> k12_holds k [] \<and> k12_custom_string k = Some custom"
proof -
  have "\<exists>st. state_new 168 d = Ok st \<and> k_holds st [] \<and> ks_delim st = d" for d
    by (simp add: state_new_def k_holds_def absorbing_def blocks_short rest_short xor_words_nil default_words)
  then obtain a b where "state_new 168 0 = Ok a" "k_holds a []" "state_new 168 0x0b = Ok b" "k_holds b []" "ks_delim b = 0x0b"
    by meson
  then show ?thesis by (simp add: k12_new_def bits_to_rate_def k12_holds_def)
qed

lemma chunks_of_concat:
  assumes "\<forall>c \<in> set cs. length c = B" and "t \<noteq> []" and "length t \<le> B"
  shows "chunks B (concat cs @ t) = cs @ [t]"
  using assms
proof (induction cs)
  case Nil
  then have "0 < B" by (cases t) auto
  then show ?case using Nil by (subst chunks.simps) (simp add: chunks.simps)
next
  case (Cons c cs)
  then have "0 < B" by (cases t) auto
  then show ?case using Cons by (subst chunks.simps) simp
qed

lemma k12_tree_digest:
  assumes "k12_tree k first cs t" and "t \<noteq> []"
  shows "k12_digest (first @ concat cs @ t) n =
    sponge keccakp 168 0x06 ((first @ k12_marker @ concat (map k12_cv cs)) @ k12_cv t @
      encoded_value (encode_len (of_nat (k12_chunks k))) @ [0xff, 0xff]) n"
proof -
  have "length (first @ concat cs @ t) > MAX_CHUNK_SIZE" using assms(1,2) by (simp add: k12_tree_def)
  moreover have "chunks MAX_CHUNK_SIZE (concat cs @ t) = cs @ [t]"
    using assms(1,2) by (intro chunks_of_concat) (simp_all add: k12_tree_def)
  ultimately show ?thesis using assms by (simp add: k12_digest_def k12_tree_def Let_def)
qed

lemma k12_last_chunk_holds:
  assumes "k12_tree k first cs t"
  shows "\<exists>st. k12_last_chunk k = Ok st \<and> k_holds st ((first @ k12_marker @ concat (map k12_cv cs)) @
    k12_cv t @ encoded_value (encode_len (of_nat (k12_chunks k))) @ [0xff, 0xff])"
proof -
  have fin: "state_finalize keccakp (zeros 32) (k12_current_chunk k) = Ok (k12_cv t)"
    using assms k_finalize [of "k12_current_chunk k" t "zeros 32"] by (simp add: k12_tree_def k12_cv_def)
  obtain st1 where st1: "state_update keccakp (k12_cv t) (k12_state k) = Ok st1"
      "k_holds st1 ((first @ k12_marker @ concat (map k12_cv cs)) @ k12_cv t)"
    using assms k_update unfolding k12_tree_def by blast
  obtain st2 where st2: "state_update keccakp (encoded_value (encode_len (of_nat (k12_chunks k)))) st1 = Ok st2"
      "k_holds st2 (((first @ k12_marker @ concat (map k12_cv cs)) @ k12_cv t) @ encoded_value (encode_len (of_nat (k12_chunks k))))"
    using k_update [OF st1(2)] by blast
  show ?thesis using k_update [OF st2(2), of "[0xff, 0xff]"] by (auto simp: k12_last_chunk_def fin st1(1) st2(1))
qed

lemma k12_squeezed:
  assumes "k_holds st m"
  shows "rbind (k12_squeeze outp st) (\<lambda>(outp, xof). Ok outp) = Ok (sponge keccakp 168 (ks_delim st) m (length outp))"
  using k_finalize [OF assms, of outp] by (simp add: k12_squeeze_def state_finalize_def)

text \<open>
  C38. KangarooTwelve hashes its tree: however the input is cut into updates, the digest is the sponge
  output of the input with its customization string when both fit the first chunk, and otherwise of
  the first chunk, the digests of the following chunks of 8192 bytes and their number.
\<close>

theorem k12_is_tree:
  "rbind (k12_new custom) (\<lambda>k. rbind (foldR k12_update parts k) (k12_finalize outp)) =
   Ok (k12_digest (k12_input custom (concat parts)) (length outp))"
proof -
  let ?len = "encoded_value (encode_len (of_nat (length custom)))" and ?s = "k12_input custom (concat parts)"
  obtain k0 where k0: "k12_new custom = Ok k0" "k12_holds k0 []" "k12_custom_string k0 = Some custom"
    using k12_new_holds by blast
  obtain k1 where k1: "foldR k12_update parts k0 = Ok k1" "k12_holds k1 (concat parts)" "k12_custom_string k1 = Some custom"
    using k12_updates_hold [OF k0(2), of parts] k0(3) by auto
  let ?k1 = "k1\<lparr>k12_custom_string := None\<rparr>"
  have "k12_holds ?k1 (concat parts)" using k1(2) by (simp add: k12_holds_def k12_tree_def)
  then obtain k2 where k2: "k12_update custom ?k1 = Ok k2" "k12_holds k2 (concat parts @ custom)"
    using k12_update_holds by blast
  obtain k3 where k3: "k12_update ?len k2 = Ok k3" "k12_holds k3 ?s"
    using k12_update_holds [OF k2(2), of ?len] by (auto simp: k12_input_def)
  have run: "rbind (k12_new custom) (\<lambda>k. rbind (foldR k12_update parts k) (k12_finalize outp)) = k12_finalize outp k1"
    by (simp add: k0(1) k1(1))
  from k3(2) show ?thesis
    unfolding k12_holds_def
  proof (elim disjE exE conjE)
    assume k: "length ?s \<le> MAX_CHUNK_SIZE" "k12_chunks k3 = 0" "k_holds (k12_state k3) ?s"
    have "k_holds ((k12_state k3)\<lparr>ks_delim := 0x07\<rparr>) ?s" using k(3) by (simp add: k_delim)
    from k12_squeezed [OF this, of outp] show ?thesis
      unfolding run using k k1(3) k2(1) k3(1) by (simp add: k12_finalize_def k12_into_xof_def k12_digest_def Let_def)
  next
    fix first cs t assume k: "?s = first @ concat cs @ t" "t \<noteq> []" "k12_tree k3 first cs t"
    obtain st where st: "k12_last_chunk k3 = Ok st" "k_holds (st\<lparr>ks_delim := 0x06\<rparr>)
        ((first @ k12_marker @ concat (map k12_cv cs)) @ k12_cv t @ encoded_value (encode_len (of_nat (k12_chunks k3))) @ [0xff, 0xff])"
      using k12_last_chunk_holds [OF k(3)] by (auto simp: k_delim)
    have "k12_chunks k3 \<noteq> 0" using k(3) by (simp add: k12_tree_def)
    then have "k12_finalize outp k1 = rbind (k12_squeeze outp (st\<lparr>ks_delim := 0x06\<rparr>)) (\<lambda>(outp, xof). Ok outp)"
      using k1(3) k2(1) k3(1) st(1) by (auto simp: k12_finalize_def k12_into_xof_def Let_def)
    with k12_squeezed [OF st(2), of outp] show ?thesis unfolding run k(1) k12_tree_digest [OF k(3,2)] by simp
  qed
qed

end
