(* ===== verification/Spec2Isabelle.thy ===== *)
theory Spec2Isabelle
  imports Merkle_Claims State_Claims Batch_Claims Blake2s Account_Props Wire Wire_V3 Commitment Block_Header
    Fixed_Height_Tree Batch_Types Proven_Db Stream_Db Interop Tx_Auth Aggregator Zisk_Verifier
    Evm_Crypto_Claims Proof_File Daemon_Claims Witness_Claims Keccak_Trees
begin

text \<open>
  A model of the second proof system of ZKsync OS: the RISC-V guest program of this repository, which
  re-executes a batch inside the ZiSK zkVM and commits to its result, the guest that aggregates the
  proofs of a range of batches, the daemon that produces and submits the proofs, and the off-chain helpers
  that check the final proof.

  \<^bold>\<open>The program.\<close> The host sends the guest one serialized \<open>BatchInput\<close>: blocks with their raw
  transactions, Merkle proofs for every slot the batch reads, account preimages, bytecodes, the
  block-hash ring and one batched tree update. The guest (\<open>lib/src/executor\<close>) decodes it, verifies every
  proof against the tree root that the settlement layer pins, runs REVM over the proven values, compares
  what REVM left with the tree update, recomputes the tree root, and hashes everything into one public
  input. A panic means that no proof exists. The aggregation guest (\<open>guest-aggregator\<close>) verifies the
  proofs of consecutive batches and commits one digest for the range; \<open>zisk-verifier\<close> checks the wrapped
  proof off chain. The daemon (\<open>prover\<close>) picks jobs from sequencers, runs \<open>cargo-zisk\<close> on them, reads the
  proof files and submits what they hold.

  \<^bold>\<open>The theories,\<close> in the order of the data flow.
  \<^item> \<open>Zk_Prelude\<close>: machine types, the \<open>Result\<close> type and its sequencing, byte codecs.
    \<open>Guest_Panic\<close>: one constructor per assertion of the modelled code.
  \<^item> \<open>Blake2s\<close>: \<open>lib/src/crypto/blake2s.rs\<close>. \<open>Hash_Backend\<close>: the record of hash functions and the
    contract \<open>node_digest\<close> between the node hash and the digest.
  \<^item> \<open>Merkle_Proof\<close>, \<open>Merkle_Update\<close>, \<open>Merkle_Update_Sound\<close>, \<open>Merkle_Claims\<close>: \<open>lib/src/merkle.rs\<close>,
    storage proofs and the batched tree update against a dense list of leaves.
  \<^item> \<open>Account_Props\<close>: the account blob, its keys (\<open>merkle.rs\<close>) and \<open>lib/src/account_props.rs\<close>.
  \<^item> \<open>Batch_Types\<close>, \<open>Wire_V3\<close>, \<open>Wire\<close>: \<open>lib/src/types.rs\<close>, \<open>lib/src/wire/v3.rs\<close>, \<open>lib/src/wire/v5.rs\<close>,
    \<open>lib/src/wire.rs\<close>.
  \<^item> \<open>Fixed_Height_Tree\<close>, \<open>Commitment\<close>, \<open>Block_Header\<close>: \<open>lib/src/commitment.rs\<close>,
    \<open>lib/src/block_header.rs\<close>, \<open>lib/src/block_roots.rs\<close>; the level fold the two files share is the
    locale \<open>padded_tree\<close>, interpreted for both.
  \<^item> \<open>Proven_Db\<close>, \<open>Stream_Db\<close>, \<open>Interop\<close>, \<open>Verify_Writes\<close>, \<open>Tx_Auth\<close>, \<open>Block_Exec\<close>, \<open>Batch_Exec\<close>: the
    files \<open>proven_db.rs\<close>, \<open>stream.rs\<close>, \<open>interop.rs\<close>, \<open>verify.rs\<close>, \<open>tx.rs\<close>, \<open>evm.rs\<close> with \<open>eip2935.rs\<close>, and
    \<open>mod.rs\<close> of \<open>lib/src/executor\<close>. \<open>Block_Effects\<close>, \<open>Hash_Ring\<close>, \<open>Batch_Chain\<close> and \<open>Batch_Sound\<close> hold
    their specifications and lemmas; \<open>State_Claims\<close> and \<open>Batch_Claims\<close> the properties with a sample batch
    that commits.
  \<^item> \<open>Aggregator\<close>: \<open>guest-aggregator/src/lib.rs\<close>, its \<open>main.rs\<close> and the host side
    \<open>prover/src/aggregator_input.rs\<close>. \<open>Zisk_Verifier\<close>: \<open>zisk-verifier/src/lib.rs\<close> and \<open>stark.rs\<close>.

  \<^item> \<open>Limb_Bytes\<close>, \<open>Evm_Hooks\<close>: the precompile hooks of the guest, \<open>guest/src/hooks.rs\<close>, and the C symbols of
    \<open>guest/src/main.rs\<close>. \<open>Evm_Crypto\<close>: the provider \<open>lib/src/crypto/impls.rs\<close> that calls them.
    \<open>Evm_Crypto_Claims\<close>: what a precompile call computes through all three layers.
  \<^item> \<open>Proof_File\<close>: the parsers of \<open>prover/src/prover.rs\<close> and the two command line tools of \<open>prover/src/bin\<close>.
  \<^item> \<open>Daemon_Io\<close>: effects, environments and traces, with the data of \<open>prover/src/metrics.rs\<close>. \<open>Zisk_Prover\<close>:
    the proving flows of \<open>prover/src/prover.rs\<close>. \<open>Sequencer_Client\<close>: \<open>prover/src/sequencer_client.rs\<close>.
    \<open>Prover_Daemon\<close>: \<open>prover/src/main.rs\<close>. \<open>Daemon_Runs\<close>, \<open>Daemon_Claims\<close>: their lemmas and properties.
  \<^item> \<open>Witness_Oracle\<close>, \<open>Witness_Sound\<close>, \<open>Witness_Claims\<close>: the harness \<open>tools/test-utils/src/witness_oracle.rs\<close>,
    which offers the modelled guest mutated witnesses, and the status that
    \<open>tools/zisk-divergence-validator\<close> derives from it.
  \<^item> \<open>Keccak_Sponge\<close>, \<open>Keccak_Hashes\<close>: the patched crate \<open>guest/tiny-keccak-patch\<close>, its permutation, sponge
    and hash functions. \<open>Sponge_Spec\<close> has the FIPS 202 sponge and the locale \<open>permutation\<close> of the crate's
    trait, interpreted for both permutations; \<open>Keccak_Claims\<close>, \<open>Keccak_Derived\<close> and \<open>Keccak_Trees\<close> the properties.

  \<^bold>\<open>Correspondence.\<close> A struct is a record with prefixed field names, an enum a datatype, a fixed-width
  integer a word of its width, a hash or an address the word of its big-endian bytes (\<open>bytes32\<close>), a
  \<open>Vec\<close> a list, a \<open>HashMap\<close> a map, or the list of its entries where it is iterated. An operation that may
  panic returns \<open>(panic, 'a) result\<close>, so each assertion, \<open>expect\<close> and failing index is a branch. Mutable
  locals of a loop are a record that \<open>foldR\<close> or a recursion threads through.

  \<^bold>\<open>Parameters.\<close> The BLAKE2s permutation (a precompile; \<open>software_blake2sf\<close> is the host version), Keccak-256
  and SHA-256, the REVM interpreter and the \<open>zksync_os_revm\<close> crate (records \<open>revm\<close> and \<open>spec_crate\<close>), the
  transaction envelope crate (\<open>tx_crates\<close>), bincode (\<open>bincode\<close>, \<open>file_bincode\<close>), the ZiSK verifier, ZiSK's
  library behind the hooks (\<open>zisklib\<close>), the software cryptography of the host (\<open>default_crypto\<close>, \<open>k256\<close>), the URL,
  base64 and JSON crates (\<open>client_crates\<close>), and the machine the daemon runs on (\<open>environment\<close>). Nothing is assumed
  of a hash function: a soundness statement holds unless two explicitly listed preimages collide.

  \<^bold>\<open>What the lemmas show.\<close> A verified storage proof reports what the tree holds; the database serves only
  such values; an accepted tree update leads to the tree after exactly the written entries; the write map
  is what the execution left, with nothing injected and nothing omitted; the ring of block hashes stays a
  window of the history; the public input binds the state before and after, the chain configuration and
  the output. Together these are the refinement \<open>batch_refines\<close> of the abstract step \<open>batch_step\<close> on chain
  states. Further groups: equality of the streaming and the collecting entry points, canonicity of account
  leaves, injectivity of headers and pubdata, round trips of the wire formats, of system transactions and
  of the aggregation buffer, and the exact acceptance conditions of the aggregator and of the verifier.

  Of the hooks: every call of a precompile reads what its caller packed and answers as the arithmetic or
  the decoded points demand. Of the daemon, for every environment: what it submits passes its consumer's
  checks, no file of a proof is lost before the sequencer accepted it, a remote prove is retried once, and
  the loop ends at its limit.

  Of the harness: the digest is injective in the statement, a finding is two witnesses of one statement.
  Of the Keccak crate: every hash function is the sponge over one message, or over the tree of the input,
  however the input is cut, and no access leaves the buffer.

  \<^bold>\<open>Loops and bounds.\<close> Every loop is structural or has a measure, but for the setup loop and the poll loop of
  the daemon, which may run forever and are partial functions into \<open>option\<close>; there is no fuel. The jump-destination
  scan terminates because each step advances by at least one byte, the level loops because the level halves.
  The Merkle depth is 64, the log tree height 14, the transaction tree depth 32. Sums of \<open>usize\<close> values wrap
  at \<open>2 ^ 64\<close>, as in the release profile of the guest.

  \<^bold>\<open>Not modelled.\<close> The emission of hints (\<open>lib/src/crypto/ffi.rs\<close> and the parts of \<open>impls.rs\<close> under its flag),
  the command line parser, logging and durations of the daemon, and the metrics exporter. The other
  tools are benchmarks, conversions of dumps and the runner of the divergence validator. Keccak-256 stays a
  parameter of the guest's model: its contract is any function. The two-pass \<open>apply_reference\<close> of
  \<open>merkle.rs\<close> is a test oracle. Log and error message texts are not modelled.
\<close>

end
